(* ===== verification/Go_Base.thy ===== *)
theory Go_Base
  imports Main "HOL-Library.Word" "HOL-Library.Char_ord" "HOL-Library.List_Lexorder"
begin

text \<open>
  The prelude of the development: what the Go language and its standard library give to every
  component. Bytes and strings, the three ways a Go call can end (a value, an error value, a
  panic), the \<^verbatim>\<open>strconv\<close>, \<^verbatim>\<open>encoding/hex\<close> and \<^verbatim>\<open>encoding/binary\<close> routines the program
  calls, maps, and the generic lemmas and theorem collections the components share.
\<close>

named_theorems outcome_simps \<open>rewriting of sequenced outcomes\<close>
named_theorems codec_simps \<open>encoders, decoders and their lengths\<close>

section \<open>Bytes, integers, errors, panics\<close>

text \<open>
  A Go \<^verbatim>\<open>string\<close> and a Go \<^verbatim>\<open>[]byte\<close> both hold bytes; HOL's \<^typ>\<open>char\<close> is an 8-bit value, so
  both are \<^typ>\<open>string\<close>. Go's \<^verbatim>\<open>int\<close> is 64 bits wide on the targets of the program; values are
  \<^typ>\<open>int\<close> and the places that can leave the 64-bit range say so.
\<close>

type_synonym bytes = string

definition int64_min :: int where
  "int64_min = - (2 ^ 63)"

definition int64_max :: int where
  "int64_max = 2 ^ 63 - 1"

definition is_int64 :: "int \<Rightarrow> bool" where
  "is_int64 k \<longleftrightarrow> int64_min \<le> k \<and> k \<le> int64_max"

text \<open>Two's complement wrap-around of a 64-bit computation.\<close>

definition wrap64 :: "int \<Rightarrow> int" where
  "wrap64 k = (k + 2 ^ 63) mod 2 ^ 64 - 2 ^ 63"

lemma wrap64_id: "is_int64 k \<Longrightarrow> wrap64 k = k"
  by (simp add: wrap64_def is_int64_def int64_min_def int64_max_def)

datatype error =
    Errorf string          \<comment> \<open>\<^verbatim>\<open>fmt.Errorf\<close> / \<^verbatim>\<open>errors.New\<close> with the message of the source\<close>
  | ErrSyntax              \<comment> \<open>\<^verbatim>\<open>strconv.ErrSyntax\<close>\<close>
  | ErrRange               \<comment> \<open>\<^verbatim>\<open>strconv.ErrRange\<close>\<close>
  | ErrHexLength           \<comment> \<open>\<^verbatim>\<open>hex.ErrLength\<close>\<close>
  | ErrHexByte             \<comment> \<open>\<^verbatim>\<open>hex.InvalidByteError\<close>\<close>
  | ErrEOF                 \<comment> \<open>\<^verbatim>\<open>io.EOF\<close>\<close>
  | ErrUnexpectedEOF       \<comment> \<open>\<^verbatim>\<open>io.ErrUnexpectedEOF\<close>\<close>
  | ErrShortWrite          \<comment> \<open>\<^verbatim>\<open>io.ErrShortWrite\<close>\<close>
  | ErrNoDocuments         \<comment> \<open>\<^verbatim>\<open>mongo.ErrNoDocuments\<close>\<close>
  | ErrIO                  \<comment> \<open>an error a socket, file, broker or database call returns\<close>

datatype fault =
    IndexOutOfRange        \<comment> \<open>\<^verbatim>\<open>xs[i]\<close>\<close>
  | SliceOutOfRange        \<comment> \<open>\<^verbatim>\<open>xs[lo:hi]\<close>\<close>
  | BadTypeAssertion       \<comment> \<open>\<^verbatim>\<open>x.(T)\<close> without the comma-ok form\<close>
  | NilDereference
  | DivideByZero
  | MakeOutOfRange         \<comment> \<open>\<^verbatim>\<open>make([]T, n)\<close> with a negative \<^verbatim>\<open>n\<close>\<close>
  | NilMapWrite            \<comment> \<open>\<^verbatim>\<open>m[k] = v\<close> on a nil map\<close>
  | ExplicitPanic          \<comment> \<open>\<^verbatim>\<open>panic(err)\<close>\<close>

datatype 'a outcome = Ok 'a | Err error | Panic fault

primrec obind :: "'a outcome \<Rightarrow> ('a \<Rightarrow> 'b outcome) \<Rightarrow> 'b outcome" where
  "obind (Ok x) f = f x"
| "obind (Err e) f = Err e"
| "obind (Panic p) f = Panic p"

primrec is_panic :: "'a outcome \<Rightarrow> bool" where
  "is_panic (Ok x) = False"
| "is_panic (Err e) = False"
| "is_panic (Panic p) = True"

primrec is_ok :: "'a outcome \<Rightarrow> bool" where
  "is_ok (Ok x) = True"
| "is_ok (Err e) = False"
| "is_ok (Panic p) = False"

lemma obind_eq_Ok [outcome_simps]: "obind m f = Ok y \<longleftrightarrow> (\<exists>x. m = Ok x \<and> f x = Ok y)"
  by (cases m) auto

lemma obind_eq_Panic [outcome_simps]:
  "obind m f = Panic p \<longleftrightarrow> m = Panic p \<or> (\<exists>x. m = Ok x \<and> f x = Panic p)"
  by (cases m) auto

lemma obind_assoc [outcome_simps]: "obind (obind m f) g = obind m (\<lambda>x. obind (f x) g)"
  by (cases m) auto

lemma obind_Ok_right [simp]: "obind m Ok = m"
  by (cases m) auto

lemma is_ok_iff: "is_ok m \<longleftrightarrow> (\<exists>x. m = Ok x)"
  by (cases m) auto

lemma is_panic_iff: "is_panic m \<longleftrightarrow> (\<exists>p. m = Panic p)"
  by (cases m) auto

lemma is_panic_obind:
  "is_panic (obind m f) \<longleftrightarrow> is_panic m \<or> (\<exists>x. m = Ok x \<and> is_panic (f x))"
  by (cases m) auto

lemma map_outcome_eq_Ok: "map_outcome f m = Ok y \<longleftrightarrow> (\<exists>x. m = Ok x \<and> y = f x)"
  by (cases m) auto

lemma map_outcome_obind: "map_outcome f (obind m g) = obind m (\<lambda>x. map_outcome f (g x))"
  by (cases m) auto

section \<open>\<open>xs[lo:hi]\<close> on values\<close>

definition sub :: "'a list \<Rightarrow> nat \<Rightarrow> nat \<Rightarrow> 'a list" where
  "sub xs lo hi = take (hi - lo) (drop lo xs)"

lemma length_sub [simp]: "length (sub xs lo hi) = min (hi - lo) (length xs - lo)"
  by (simp add: sub_def min.commute)

lemma sub_append_mid: "sub (xs @ ys @ zs) (length xs) (length xs + length ys) = ys"
  by (simp add: sub_def)

lemma sub_full [simp]: "sub xs 0 (length xs) = xs"
  by (simp add: sub_def)

lemma sub_nth: "i < hi - lo \<Longrightarrow> lo + i < length xs \<Longrightarrow> sub xs lo hi ! i = xs ! (lo + i)"
  by (simp add: sub_def)

lemma takeWhile_neq_append [simp]:
  "c \<notin> set xs \<Longrightarrow> takeWhile (\<lambda>x. x \<noteq> c) (xs @ c # ys) = xs"
  by (induction xs) auto

section \<open>\<open>strconv.Itoa\<close> and \<open>strconv.Atoi\<close>\<close>

definition digit_char :: "nat \<Rightarrow> char" where
  "digit_char d = char_of (48 + d)"

definition is_digit :: "char \<Rightarrow> bool" where
  "is_digit c \<longleftrightarrow> 48 \<le> (of_char c :: nat) \<and> (of_char c :: nat) \<le> 57"

definition digit_val :: "char \<Rightarrow> nat" where
  "digit_val c = of_char c - 48"

fun nat_str :: "nat \<Rightarrow> string" where
  "nat_str n = (if n < 10 then [digit_char n] else nat_str (n div 10) @ [digit_char (n mod 10)])"

declare nat_str.simps [simp del]

definition itoa :: "int \<Rightarrow> string" where
  "itoa k = (if k < 0 then CHR ''-'' # nat_str (nat (- k)) else nat_str (nat k))"

definition digits_val :: "string \<Rightarrow> nat" where
  "digits_val s = foldl (\<lambda>a c. a * 10 + digit_val c) 0 s"

text \<open>
  \<^verbatim>\<open>strconv.Atoi\<close>: an optional sign, at least one decimal digit, nothing else, and a value in the
  range of a 64-bit \<^verbatim>\<open>int\<close>.
\<close>

definition atoi :: "string \<Rightarrow> int outcome" where
  "atoi s =
     (let neg = (s \<noteq> [] \<and> hd s = CHR ''-'');
          ds = (if s \<noteq> [] \<and> (hd s = CHR ''-'' \<or> hd s = CHR ''+'') then tl s else s);
          k = (if neg then - int (digits_val ds) else int (digits_val ds))
      in if ds = [] \<or> \<not> list_all is_digit ds then Err ErrSyntax
         else if \<not> is_int64 k then Err ErrRange
         else Ok k)"

lemma of_char_digit_char [simp]: "d < 10 \<Longrightarrow> (of_char (digit_char d) :: nat) = 48 + d"
  by (simp add: digit_char_def)

lemma is_digit_digit_char [simp]: "d < 10 \<Longrightarrow> is_digit (digit_char d)"
  by (simp add: is_digit_def)

lemma digit_val_digit_char [simp]: "d < 10 \<Longrightarrow> digit_val (digit_char d) = d"
  by (simp add: digit_val_def)

lemma nat_str_digits: "list_all is_digit (nat_str n)"
proof (induction n rule: nat_str.induct)
  case (1 n)
  then show ?case by (subst nat_str.simps) simp
qed

lemma nat_str_nonempty [simp]: "nat_str n \<noteq> []"
  by (subst nat_str.simps) simp

lemma digits_val_nat_str [simp]: "digits_val (nat_str n) = n"
proof (induction n rule: nat_str.induct)
  case (1 n)
  then show ?case
    by (subst nat_str.simps) (simp add: digits_val_def)
qed

lemma nat_str_set_digit: "c \<in> set (nat_str n) \<Longrightarrow> is_digit c"
  using nat_str_digits [of n] by (simp add: list_all_iff)

lemma hd_nat_str_digit: "is_digit (hd (nat_str n))"
  by (rule nat_str_set_digit) (rule hd_in_set, simp)

lemma not_digit_signs [simp]:
  "\<not> is_digit CHR ''-''" "\<not> is_digit CHR ''+''" "\<not> is_digit CHR '':''" "\<not> is_digit CHR ''e''"
  "\<not> is_digit CHR ''i''" "\<not> is_digit CHR ''l''" "\<not> is_digit CHR ''d''"
  by (simp_all add: is_digit_def)

lemma digit_not_special:
  "is_digit c \<Longrightarrow> c \<noteq> CHR ''-'' \<and> c \<noteq> CHR ''+'' \<and> c \<noteq> CHR '':'' \<and> c \<noteq> CHR ''e''
     \<and> c \<noteq> CHR ''i'' \<and> c \<noteq> CHR ''l'' \<and> c \<noteq> CHR ''d''"
  by (auto simp: is_digit_def)

lemma atoi_nat_str: "is_int64 (int n) \<Longrightarrow> atoi (nat_str n) = Ok (int n)"
  using hd_nat_str_digit [of n]
  by (auto simp: atoi_def Let_def nat_str_digits dest: digit_not_special)

text \<open>Reading back a printed integer.\<close>

lemma atoi_itoa: "is_int64 k \<Longrightarrow> atoi (itoa k) = Ok k"
proof (cases "k < 0")
  case True
  moreover assume "is_int64 k"
  ultimately show ?thesis
    by (simp add: itoa_def atoi_def Let_def nat_str_digits)
next
  case False
  moreover assume "is_int64 k"
  ultimately show ?thesis
    by (simp add: itoa_def atoi_nat_str)
qed

lemma atoi_Ok_range: "atoi s = Ok k \<Longrightarrow> is_int64 k"
  by (auto simp: atoi_def Let_def split: if_splits)

lemma atoi_not_panic [simp]: "atoi s \<noteq> Panic p"
  by (simp add: atoi_def Let_def)

lemma atoi_digit_nonneg: "atoi (c # s) = Ok k \<Longrightarrow> is_digit c \<Longrightarrow> 0 \<le> k"
  by (auto simp: atoi_def Let_def split: if_splits dest: digit_not_special)

lemma itoa_chars: "c \<in> set (itoa k) \<Longrightarrow> is_digit c \<or> c = CHR ''-''"
  by (auto simp: itoa_def nat_str_set_digit split: if_splits)

lemma itoa_no_terminator [simp]: "CHR ''e'' \<notin> set (itoa k)" "CHR '':'' \<notin> set (itoa k)"
  by (auto dest: itoa_chars)

lemma nat_str_no_terminator [simp]: "CHR ''e'' \<notin> set (nat_str n)" "CHR '':'' \<notin> set (nat_str n)"
  by (auto dest: nat_str_set_digit)

end
