(* ===== verification/Go_Map.thy ===== *)
theory Go_Map
  imports Go_Base
begin

text \<open>
  Go's \<^verbatim>\<open>map[K]V\<close>. A map value is the list of its entries in increasing key order, so that two maps
  with the same entries are the same term; \<^const>\<open>map_of\<close> is the lookup \<^verbatim>\<open>m[k]\<close>. The program never
  depends on Go's iteration order (the encoder sorts the keys it collects), and a nil map is
  represented where it matters by an option.
\<close>

section \<open>The operations\<close>

fun put :: "'k::linorder \<Rightarrow> 'v \<Rightarrow> ('k \<times> 'v) list \<Rightarrow> ('k \<times> 'v) list" where
  "put k v [] = [(k, v)]"
| "put k v (e # m) =
     (if k < fst e then (k, v) # e # m
      else if k = fst e then (k, v) # m
      else e # put k v m)"

definition del :: "'k \<Rightarrow> ('k \<times> 'v) list \<Rightarrow> ('k \<times> 'v) list" where
  "del k m = filter (\<lambda>e. fst e \<noteq> k) m"

definition map_wf :: "('k::linorder \<times> 'v) list \<Rightarrow> bool" where
  "map_wf m \<longleftrightarrow> sorted_wrt (<) (map fst m)"

text \<open>A composite literal or a sequence of assignments \<^verbatim>\<open>m[k1] = v1; m[k2] = v2; ...\<close>.\<close>

definition put_all :: "('k::linorder \<times> 'v) list \<Rightarrow> ('k \<times> 'v) list \<Rightarrow> ('k \<times> 'v) list" where
  "put_all kvs m = fold (\<lambda>(k, v). put k v) kvs m"

section \<open>The contract of a map\<close>

text \<open>
  What the clients of a map rely on: an invariant every operation keeps, and what a lookup returns
  after each operation. The lemmas proved here are used through the interpretation below.
\<close>

locale go_map =
  fixes emp :: 'm
    and upd :: "'k \<Rightarrow> 'v \<Rightarrow> 'm \<Rightarrow> 'm"
    and rem :: "'k \<Rightarrow> 'm \<Rightarrow> 'm"
    and get :: "'m \<Rightarrow> 'k \<Rightarrow> 'v option"
    and inv :: "'m \<Rightarrow> bool"
  assumes inv_emp: "inv emp"
    and inv_upd: "inv m \<Longrightarrow> inv (upd k v m)"
    and inv_rem: "inv m \<Longrightarrow> inv (rem k m)"
    and get_emp: "get emp k = None"
    and get_upd: "inv m \<Longrightarrow> get (upd k v m) k' = (if k' = k then Some v else get m k')"
    and get_rem: "inv m \<Longrightarrow> get (rem k m) k' = (if k' = k then None else get m k')"
    and ext_eq: "inv m \<Longrightarrow> inv m' \<Longrightarrow> (\<And>k. get m k = get m' k) \<Longrightarrow> m = m'"
begin

lemma inv_upds: "inv m \<Longrightarrow> inv (fold (\<lambda>(k, v). upd k v) kvs m)"
  by (induction kvs arbitrary: m) (auto intro: inv_upd)

text \<open>After a sequence of assignments the last one to a key wins.\<close>

lemma get_upds:
  "inv m \<Longrightarrow> get (fold (\<lambda>(k, v). upd k v) kvs m) k =
     (case map_of (rev kvs) k of None \<Rightarrow> get m k | Some v \<Rightarrow> Some v)"
proof (induction kvs arbitrary: m)
  case Nil
  then show ?case by simp
next
  case (Cons e kvs)
  obtain a b where e: "e = (a, b)" by (cases e)
  have "get (fold (\<lambda>(k, v). upd k v) kvs (upd a b m)) k =
     (case map_of (rev kvs) k of None \<Rightarrow> get (upd a b m) k | Some v \<Rightarrow> Some v)"
    by (rule Cons.IH) (rule inv_upd [OF Cons.prems])
  then show ?case
    by (simp add: e get_upd [OF Cons.prems] map_add_def split: option.split)
qed

lemma upd_overwrites: "inv m \<Longrightarrow> upd k v (upd k w m) = upd k v m"
  by (rule ext_eq) (auto simp: inv_upd get_upd)

lemma upd_commutes: "inv m \<Longrightarrow> k \<noteq> l \<Longrightarrow> upd k v (upd l w m) = upd l w (upd k v m)"
  by (rule ext_eq) (auto simp: inv_upd get_upd)

lemma rem_absent: "inv m \<Longrightarrow> get m k = None \<Longrightarrow> rem k m = m"
  by (rule ext_eq) (auto simp: inv_rem get_rem)

end

section \<open>Sorted entry lists are maps\<close>

lemma map_of_put [simp]: "map_of (put k v m) = (map_of m)(k \<mapsto> v)"
  by (induction m) (auto simp: fun_eq_iff)

lemma map_of_del [simp]: "map_of (del k m) = (map_of m)(k := None)"
  by (induction m) (auto simp: fun_eq_iff del_def)

lemma fst_set_put [simp]: "fst ` set (put k v m) = insert k (fst ` set m)"
  by (induction m) auto

lemma map_wf_Nil [simp]: "map_wf []"
  by (simp add: map_wf_def)

lemma map_wf_Cons [simp]:
  "map_wf (e # m) \<longleftrightarrow> (\<forall>k \<in> fst ` set m. fst e < k) \<and> map_wf m"
  by (auto simp: map_wf_def)

lemma map_wf_put: "map_wf m \<Longrightarrow> map_wf (put k v m)"
  by (induction m) auto

lemma map_wf_del: "map_wf m \<Longrightarrow> map_wf (del k m)"
  by (induction m) (auto simp: del_def)

lemma map_wf_distinct: "map_wf m \<Longrightarrow> distinct (map fst m)"
  by (induction m) fastforce+

lemma map_of_Some_fst: "map_of m k = Some v \<Longrightarrow> k \<in> fst ` set m"
  by (auto dest!: map_of_SomeD intro: rev_image_eqI)

lemma map_wf_head_least:
  assumes "map_wf (e # m)" "map_of (e # m) k = Some v"
  shows "fst e \<le> k"
proof (cases "k = fst e")
  case False
  with assms(2) have "k \<in> fst ` set m"
    by (cases e) (auto intro: map_of_Some_fst)
  with assms(1) show ?thesis by (auto intro: less_imp_le)
qed simp

lemma map_wf_tail_absent: "map_wf (e # m) \<Longrightarrow> map_of m (fst e) = None"
  by (auto simp: map_of_eq_None_iff)

lemma map_wf_ext: "map_wf m \<Longrightarrow> map_wf m' \<Longrightarrow> map_of m = map_of m' \<Longrightarrow> m = m'"
proof (induction m arbitrary: m')
  case Nil
  then have "map_of m' = Map.empty" by simp
  then show ?case by (simp add: map_of_eq_empty_iff)
next
  case (Cons e m)
  obtain k v where e: "e = (k, v)" by (cases e)
  from Cons.prems(3) e have "map_of m' k = Some v" by (auto dest: fun_cong [of _ _ k])
  then obtain e' t where m': "m' = e' # t" by (cases m') auto
  obtain k' v' where e': "e' = (k', v')" by (cases e')
  have "map_of (e # m) k' = Some v'"
    using fun_cong [OF Cons.prems(3), of k'] by (simp add: m' e')
  then have "k \<le> k'" using map_wf_head_least [OF Cons.prems(1)] e by fastforce
  moreover have "k' \<le> k"
    using map_wf_head_least [of e' t k v] Cons.prems(2) \<open>map_of m' k = Some v\<close> m' e' by simp
  ultimately have kk: "k' = k" by simp
  with \<open>map_of m' k = Some v\<close> have vv: "v' = v" by (simp add: m' e')
  have "map_of m = map_of t"
  proof
    fix x
    show "map_of m x = map_of t x"
    proof (cases "x = k")
      case True
      have "map_of m k = None" using map_wf_tail_absent [OF Cons.prems(1)] e by simp
      moreover have "map_of t k = None"
        using map_wf_tail_absent [of e' t] Cons.prems(2) m' e' kk by simp
      ultimately show ?thesis using True by simp
    next
      case False
      with fun_cong [OF Cons.prems(3), of x] show ?thesis by (simp add: e m' e' kk)
    qed
  qed
  moreover have "map_wf t" "map_wf m" using Cons.prems m' by simp_all
  ultimately have "m = t" using Cons.IH by blast
  then show ?case by (simp add: e m' e' kk vv)
qed

interpretation gm: go_map "[]" put del map_of map_wf
proof unfold_locales
  fix m m' :: "('k::linorder \<times> 'v) list"
  assume "map_wf m" "map_wf m'" "\<And>k. map_of m k = map_of m' k"
  then show "m = m'" by (intro map_wf_ext) auto
qed (auto simp: map_wf_put map_wf_del)

lemma map_of_put_all:
  "map_wf m \<Longrightarrow> map_of (put_all kvs m) k =
     (case map_of (rev kvs) k of None \<Rightarrow> map_of m k | Some v \<Rightarrow> Some v)"
  unfolding put_all_def by (rule gm.get_upds)

lemma map_wf_put_all: "map_wf m \<Longrightarrow> map_wf (put_all kvs m)"
  unfolding put_all_def by (rule gm.inv_upds)

lemma put_all_Nil [simp]: "put_all [] m = m"
  by (simp add: put_all_def)

lemma put_all_snoc: "put_all (kvs @ [(k, v)]) m = put k v (put_all kvs m)"
  by (simp add: put_all_def)

lemma put_all_Cons [simp]: "put_all ((k, v) # kvs) m = put_all kvs (put k v m)"
  by (simp add: put_all_def)

text \<open>Assigning the entries of a map in any order of its keys rebuilds it.\<close>

lemma put_all_entries: "map_wf m \<Longrightarrow> put_all m [] = m"
proof (rule gm.ext_eq)
  assume wf: "map_wf m"
  show "map_wf (put_all m [])" by (rule map_wf_put_all) simp
  fix k
  have "map_of (rev m) = map_of m"
    by (rule map_of_inject_set [THEN iffD2]) (auto simp: wf map_wf_distinct rev_map [symmetric])
  then show "map_of (put_all m []) k = map_of m k"
    by (simp add: map_of_put_all split: option.split)
qed

lemma sort_keys_wf: "map_wf m \<Longrightarrow> sort (map fst m) = map fst m"
  by (rule sorted_sort_id) (auto simp: map_wf_def sorted_wrt_mono_rel strict_sorted_iff)

end
