(* ===== verification/Go_Binary.thy ===== *)
theory Go_Binary
  imports Go_Base
begin

text \<open>
  Reading and writing bytes: \<^verbatim>\<open>io.ReadFull\<close>, the big-endian integers of \<^verbatim>\<open>encoding/binary\<close>,
  \<^verbatim>\<open>encoding/hex\<close>, and the contract that every wire format of the program meets, as a locale: a
  decoder that reads back what the encoder wrote and leaves the rest of the input.
\<close>

section \<open>Input streams\<close>

text \<open>
  A reader is the list of bytes it will still deliver; after them it reports the end of the input.
  \<^verbatim>\<open>io.ReadFull\<close> on a buffer of \<open>n\<close> bytes reports \<^verbatim>\<open>io.EOF\<close> when nothing could be read and
  \<^verbatim>\<open>io.ErrUnexpectedEOF\<close> when the input ended in the middle.
\<close>

definition read_full :: "nat \<Rightarrow> bytes \<Rightarrow> (bytes \<times> bytes) outcome" where
  "read_full n r =
     (if n \<le> length r then Ok (take n r, drop n r)
      else if r = [] then Err ErrEOF
      else Err ErrUnexpectedEOF)"

lemma read_full_append [simp]: "read_full (length xs) (xs @ ys) = Ok (xs, ys)"
  by (simp add: read_full_def)

lemma read_full_append' [simp]: "length xs = n \<Longrightarrow> read_full n (xs @ ys) = Ok (xs, ys)"
  by (auto simp: read_full_def)

lemma read_full_one [simp]: "read_full (Suc 0) (c # r) = Ok ([c], r)"
  by (simp add: read_full_def)

lemma read_full_Ok: "read_full n r = Ok (a, b) \<longleftrightarrow> r = a @ b \<and> length a = n"
  by (auto simp: read_full_def)

lemma read_full_short: "length r < n \<Longrightarrow> \<exists>e. read_full n r = Err e"
  by (auto simp: read_full_def)

lemma read_full_not_panic [simp]: "read_full n r \<noteq> Panic p"
  by (simp add: read_full_def)

section \<open>Big-endian integers\<close>

fun be_bytes :: "nat \<Rightarrow> nat \<Rightarrow> bytes" where
  "be_bytes 0 v = []"
| "be_bytes (Suc n) v = be_bytes n (v div 256) @ [char_of (v mod 256)]"

definition be_val :: "bytes \<Rightarrow> nat" where
  "be_val bs = foldl (\<lambda>a c. a * 256 + of_char c) 0 bs"

lemma length_be_bytes [simp]: "length (be_bytes n v) = n"
  by (induction n arbitrary: v) auto

lemma be_val_snoc [simp]: "be_val (bs @ [c]) = be_val bs * 256 + of_char c"
  by (simp add: be_val_def)

lemma be_val_Nil [simp]: "be_val [] = 0"
  by (simp add: be_val_def)

lemma be_val_be_bytes: "be_val (be_bytes n v) = v mod 256 ^ n"
proof (induction n arbitrary: v)
  case 0
  then show ?case by simp
next
  case (Suc n)
  have "v div 256 mod 256 ^ n * 256 + v mod 256 = v mod (256 * 256 ^ n)"
    by (simp add: mod_mult2_eq mult.commute)
  with Suc show ?case by simp
qed

lemma be_val_less: "be_val bs < 256 ^ length bs"
proof (induction bs rule: rev_induct)
  case (snoc c bs)
  have "be_val bs * 256 + of_char c < (be_val bs + 1) * 256" by simp
  also have "\<dots> \<le> 256 ^ length bs * 256"
    using snoc by (intro mult_le_mono1) simp
  finally show ?case by (simp add: mult.commute)
qed simp

lemma be_bytes_be_val: "be_bytes (length bs) (be_val bs) = bs"
  by (induction bs rule: rev_induct) (auto simp: div_add1_eq)

text \<open>\<^verbatim>\<open>binary.BigEndian.PutUint16 / 32 / 64\<close> and \<^verbatim>\<open>Uint16 / 32 / 64\<close>.\<close>

definition put_uint16 :: "16 word \<Rightarrow> bytes" where
  "put_uint16 w = be_bytes 2 (unat w)"

definition put_uint32 :: "32 word \<Rightarrow> bytes" where
  "put_uint32 w = be_bytes 4 (unat w)"

definition put_uint64 :: "64 word \<Rightarrow> bytes" where
  "put_uint64 w = be_bytes 8 (unat w)"

definition get_uint16 :: "bytes \<Rightarrow> 16 word" where
  "get_uint16 bs = of_nat (be_val bs)"

definition get_uint32 :: "bytes \<Rightarrow> 32 word" where
  "get_uint32 bs = of_nat (be_val bs)"

definition get_uint64 :: "bytes \<Rightarrow> 64 word" where
  "get_uint64 bs = of_nat (be_val bs)"

lemma unat_bound: "unat (w :: 'a::len word) < 2 ^ LENGTH('a)"
  by (rule unsigned_less)

lemma unat_of_nat_less: "n < 2 ^ LENGTH('a) \<Longrightarrow> unat (word_of_nat n :: 'a::len word) = n"
  by (simp add: unat_of_nat take_bit_nat_eq_self_iff)

lemma length_put_uint [simp, codec_simps]:
  "length (put_uint16 w) = 2" "length (put_uint32 x) = 4" "length (put_uint64 y) = 8"
  by (simp_all add: put_uint16_def put_uint32_def put_uint64_def)

lemma get_put_uint16 [simp, codec_simps]: "get_uint16 (put_uint16 w) = w"
  using unat_bound [of w] by (simp add: get_uint16_def put_uint16_def be_val_be_bytes)

lemma get_put_uint32 [simp, codec_simps]: "get_uint32 (put_uint32 w) = w"
  using unat_bound [of w] by (simp add: get_uint32_def put_uint32_def be_val_be_bytes)

lemma get_put_uint64 [simp, codec_simps]: "get_uint64 (put_uint64 w) = w"
  using unat_bound [of w] by (simp add: get_uint64_def put_uint64_def be_val_be_bytes)

lemma put_uint32_inject: "put_uint32 a = put_uint32 b \<longleftrightarrow> a = b"
  by (metis get_put_uint32)

lemma put_get_uint32: "length bs = 4 \<Longrightarrow> put_uint32 (get_uint32 bs) = bs"
  using be_val_less [of bs] be_bytes_be_val [of bs]
  by (simp add: put_uint32_def get_uint32_def unat_of_nat)

section \<open>Hexadecimal\<close>

definition hex_digit :: "nat \<Rightarrow> char" where
  "hex_digit d = (if d < 10 then char_of (48 + d) else char_of (87 + d))"

definition hex_val :: "char \<Rightarrow> nat option" where
  "hex_val c =
     (let n = (of_char c :: nat)
      in if 48 \<le> n \<and> n \<le> 57 then Some (n - 48)
         else if 97 \<le> n \<and> n \<le> 102 then Some (n - 87)
         else if 65 \<le> n \<and> n \<le> 70 then Some (n - 55)
         else None)"

text \<open>\<^verbatim>\<open>hex.EncodeToString\<close> and \<^verbatim>\<open>hex.DecodeString\<close>.\<close>

fun hex_encode :: "bytes \<Rightarrow> string" where
  "hex_encode [] = []"
| "hex_encode (c # cs) =
     hex_digit ((of_char c :: nat) div 16) # hex_digit ((of_char c :: nat) mod 16) # hex_encode cs"

fun hex_decode :: "string \<Rightarrow> bytes outcome" where
  "hex_decode [] = Ok []"
| "hex_decode [c] = (case hex_val c of None \<Rightarrow> Err ErrHexByte | Some a \<Rightarrow> Err ErrHexLength)"
| "hex_decode (c # d # s) =
     (case hex_val c of None \<Rightarrow> Err ErrHexByte
      | Some a \<Rightarrow> (case hex_val d of None \<Rightarrow> Err ErrHexByte
         | Some b \<Rightarrow> obind (hex_decode s) (\<lambda>bs. Ok (char_of (16 * a + b) # bs))))"

text \<open>What \<^verbatim>\<open>hex.DecodeString\<close> returns beside its error: the bytes before the first fault.\<close>

fun hex_decode_bytes :: "string \<Rightarrow> bytes" where
  "hex_decode_bytes (c # d # s) =
     (case hex_val c of None \<Rightarrow> []
      | Some a \<Rightarrow> (case hex_val d of None \<Rightarrow> []
         | Some b \<Rightarrow> char_of (16 * a + b) # hex_decode_bytes s))"
| "hex_decode_bytes s = []"

lemma hex_decode_bytes_ok: "hex_decode s = Ok b \<Longrightarrow> hex_decode_bytes s = b"
  by (induction s arbitrary: b rule: hex_decode.induct) (auto simp: outcome_simps split: option.splits)

lemma hex_val_hex_digit [simp]: "d < 16 \<Longrightarrow> hex_val (hex_digit d) = Some d"
  by (auto simp: hex_val_def hex_digit_def Let_def)

lemma length_hex_encode [simp]: "length (hex_encode bs) = 2 * length bs"
  by (induction bs) auto

lemma hex_decode_encode [simp]: "hex_decode (hex_encode bs) = Ok bs"
proof (induction bs)
  case (Cons c cs)
  have "(of_char c :: nat) < 256" by simp
  then have "(of_char c :: nat) div 16 < 16" by (simp add: less_mult_imp_div_less)
  with Cons show ?case by simp
qed simp

lemma hex_encode_inject: "hex_encode a = hex_encode b \<longleftrightarrow> a = b"
  by (metis hex_decode_encode outcome.inject(1))

section \<open>The contract of a wire format\<close>

fun dec_n :: "(bytes \<Rightarrow> ('a \<times> bytes) outcome) \<Rightarrow> nat \<Rightarrow> bytes \<Rightarrow> ('a list \<times> bytes) outcome" where
  "dec_n dec 0 r = Ok ([], r)"
| "dec_n dec (Suc n) r =
     obind (dec r) (\<lambda>(x, r'). obind (dec_n dec n r') (\<lambda>(xs, r''). Ok (x # xs, r'')))"

locale codec =
  fixes enc :: "'a \<Rightarrow> bytes"
    and dec :: "bytes \<Rightarrow> ('a \<times> bytes) outcome"
    and valid :: "'a \<Rightarrow> bool"
  assumes dec_enc: "valid x \<Longrightarrow> dec (enc x @ rest) = Ok (x, rest)"
begin

lemma enc_unambiguous:
  "valid x \<Longrightarrow> valid y \<Longrightarrow> enc x @ r = enc y @ s \<Longrightarrow> x = y \<and> r = s"
  by (metis dec_enc outcome.inject(1) prod.inject)

lemma dec_enc_all: "valid x \<Longrightarrow> dec (enc x) = Ok (x, [])"
  using dec_enc [of x "[]"] by simp

lemma dec_n_enc:
  "\<forall>x \<in> set xs. valid x \<Longrightarrow> dec_n dec (length xs) (concat (map enc xs) @ rest) = Ok (xs, rest)"
  by (induction xs) (auto simp: dec_enc)

end

text \<open>A format of fixed size, as the structs that \<^verbatim>\<open>binary.Read\<close> and \<^verbatim>\<open>binary.Write\<close> handle.\<close>

locale fixed_codec = codec +
  fixes width :: nat
  assumes length_enc: "valid x \<Longrightarrow> length (enc x) = width"
    and dec_short: "length r < width \<Longrightarrow> \<exists>e. dec r = Err e"
    and dec_consumes: "dec r = Ok (x, r') \<Longrightarrow> length r = width + length r'"
begin

lemma dec_n_consumes: "dec_n dec n r = Ok (xs, r') \<Longrightarrow> length r = n * width + length r' \<and> length xs = n"
proof (induction n arbitrary: r xs r')
  case (Suc n)
  from Suc.prems obtain x r1 ys where
    "dec r = Ok (x, r1)" "dec_n dec n r1 = Ok (ys, r')" "xs = x # ys"
    by (auto simp: obind_eq_Ok split: prod.splits)
  with Suc.IH [of r1 ys r'] dec_consumes [of r x r1] show ?case by simp
qed simp

lemma length_enc_all: "\<forall>x \<in> set xs. valid x \<Longrightarrow> length (concat (map enc xs)) = length xs * width"
  by (induction xs) (auto simp: length_enc)

lemma dec_n_short: "length r < n * width \<Longrightarrow> \<not> is_ok (dec_n dec n r)"
  by (auto simp: is_ok_iff dest: dec_n_consumes)

end

end
