(* ===== verification/Go_Utf8.thy ===== *)
theory Go_Utf8
  imports Go_Binary
begin

text \<open>
  UTF-8 as \<^verbatim>\<open>unicode/utf8\<close> reads it, and what \<^verbatim>\<open>encoding/json\<close> makes of a Go string, which may hold any bytes:
  a byte that begins no rune is written as the replacement character. The lemmas show that the result
  is UTF-8, and is the string itself exactly if that was UTF-8.
\<close>

section \<open>Runes\<close>

definition in_range :: "nat \<Rightarrow> nat \<Rightarrow> char \<Rightarrow> bool" where
  "in_range lo hi c \<longleftrightarrow> lo \<le> of_char c \<and> of_char c \<le> (hi :: nat)"

text \<open>The range of the second byte after a first byte of a longer rune, and the length of the rune.\<close>

definition rune_head :: "char \<Rightarrow> (nat \<times> nat \<times> nat) option" where
  "rune_head b =
     (if in_range 0xC2 0xDF b then Some (2, 0x80, 0xBF)
      else if in_range 0xE0 0xE0 b then Some (3, 0xA0, 0xBF)
      else if in_range 0xE1 0xEC b then Some (3, 0x80, 0xBF)
      else if in_range 0xED 0xED b then Some (3, 0x80, 0x9F)
      else if in_range 0xEE 0xEF b then Some (3, 0x80, 0xBF)
      else if in_range 0xF0 0xF0 b then Some (4, 0x90, 0xBF)
      else if in_range 0xF1 0xF3 b then Some (4, 0x80, 0xBF)
      else if in_range 0xF4 0xF4 b then Some (4, 0x80, 0x8F)
      else None)"

text \<open>The size of the rune at the front; 0 if there is none (\<^verbatim>\<open>DecodeRune\<close> then reports an error of size 1).\<close>

definition rune_size :: "bytes \<Rightarrow> nat" where
  "rune_size s =
     (case s of
        [] \<Rightarrow> 0
      | b # bs \<Rightarrow>
          if in_range 0 0x7F b then 1
          else case rune_head b of
                 None \<Rightarrow> 0
               | Some (n, lo, hi) \<Rightarrow>
                   if n \<le> length s \<and> in_range lo hi (hd bs) \<and> list_all (in_range 0x80 0xBF) (take (n - 2) (tl bs)) then n else 0)"

lemma rune_size_le: "rune_size s \<le> length s"
  by (auto simp: rune_size_def split: list.splits option.splits)

function valid_utf8 :: "bytes \<Rightarrow> bool" where
  "valid_utf8 s = (if s = [] then True else if rune_size s = 0 then False else valid_utf8 (drop (rune_size s) s))"
  by pat_completeness auto
termination
  by (relation "measure length") (auto simp: rune_size_le)

declare valid_utf8.simps [simp del]

definition replacement :: bytes where
  "replacement = [char_of (0xEF :: nat), char_of (0xBF :: nat), char_of (0xBD :: nat)]"

function coerce_utf8 :: "bytes \<Rightarrow> bytes" where
  "coerce_utf8 s =
     (if s = [] then []
      else if rune_size s = 0 then replacement @ coerce_utf8 (tl s)
      else take (rune_size s) s @ coerce_utf8 (drop (rune_size s) s))"
  by pat_completeness auto
termination
  by (relation "measure length") (auto simp: rune_size_le)

declare coerce_utf8.simps [simp del]

section \<open>Lemmas\<close>

lemma valid_utf8_Nil [simp]: "valid_utf8 []"
  by (simp add: valid_utf8.simps)

lemma coerce_utf8_Nil [simp]: "coerce_utf8 [] = []"
  by (simp add: coerce_utf8.simps)

text \<open>A rune is recognised by its own bytes.\<close>

lemma rune_head_size: "rune_head b = Some (n, lo, hi) \<Longrightarrow> 2 \<le> n"
  by (auto simp: rune_head_def split: if_splits)

lemma rune_size_append:
  assumes "rune_size s = length s" "s \<noteq> []"
  shows "rune_size (s @ t) = length s"
proof -
  obtain b bs where s: "s = b # bs" using assms(2) by (cases s) auto
  show ?thesis
  proof (cases "in_range 0 0x7F b")
    case True
    then show ?thesis using assms s by (simp add: rune_size_def)
  next
    case False
    then obtain n lo hi where n: "rune_head b = Some (n, lo, hi)" "n = length s" "in_range lo hi (hd bs)"
      "list_all (in_range 0x80 0xBF) (take (n - 2) (tl bs))"
      using assms s by (auto simp: rune_size_def split: option.splits if_splits)
    obtain x xs where bs: "bs = x # xs" using rune_head_size [OF n(1)] n(2) s by (cases bs) auto
    then show ?thesis using False n s by (simp add: rune_size_def)
  qed
qed

lemma rune_size_take:
  assumes "rune_size s = n" "n \<noteq> 0"
  shows "rune_size (take n s) = n"
proof -
  obtain b bs where s: "s = b # bs" using assms by (cases s) (auto simp: rune_size_def)
  show ?thesis
  proof (cases "in_range 0 0x7F b")
    case True
    then show ?thesis using assms s by (auto simp: rune_size_def)
  next
    case False
    then obtain lo hi where n: "rune_head b = Some (n, lo, hi)" "n \<le> length s" "in_range lo hi (hd bs)"
      "list_all (in_range 0x80 0xBF) (take (n - 2) (tl bs))"
      using assms s by (auto simp: rune_size_def split: option.splits if_splits)
    obtain k where k: "n = Suc (Suc k)" using rune_head_size [OF n(1)] by (metis Suc_le_D numeral_2_eq_2 Suc_le_mono)
    obtain x xs where bs: "bs = x # xs" using n(2) s k by (cases bs) auto
    show ?thesis using False n s bs k by (simp add: rune_size_def)
  qed
qed

lemma valid_utf8_append_rune:
  assumes "rune_size s = length s" "s \<noteq> []"
  shows "valid_utf8 (s @ t) = valid_utf8 t"
  using rune_size_append [OF assms, of t] assms by (subst valid_utf8.simps) simp

lemma replacement_rune: "rune_size replacement = length replacement" "replacement \<noteq> []"
  by (simp_all add: replacement_def rune_size_def rune_head_def in_range_def)

lemma valid_coerced: "valid_utf8 (coerce_utf8 s)"
proof (induction s rule: coerce_utf8.induct)
  case (1 s)
  show ?case
  proof (cases "s = [] \<or> rune_size s = 0")
    case True
    then show ?thesis
      using 1(1) replacement_rune by (subst coerce_utf8.simps) (auto simp: valid_utf8_append_rune)
  next
    case False
    then have "rune_size (take (rune_size s) s) = length (take (rune_size s) s)" "take (rune_size s) s \<noteq> []"
      using rune_size_take [of s] rune_size_le [of s] by auto
    then show ?thesis using 1(2) False by (subst coerce_utf8.simps) (simp add: valid_utf8_append_rune)
  qed
qed

lemma coerce_valid [simp]: "valid_utf8 s \<Longrightarrow> coerce_utf8 s = s"
proof (induction s rule: valid_utf8.induct)
  case (1 s)
  then show ?case by (subst coerce_utf8.simps, subst (asm) valid_utf8.simps) (auto split: if_splits)
qed

lemma coerce_eq_iff: "coerce_utf8 s = s \<longleftrightarrow> valid_utf8 s"
  using valid_coerced [of s] by auto

lemma coerce_idem [simp]: "coerce_utf8 (coerce_utf8 s) = coerce_utf8 s"
  by (simp add: valid_coerced)

lemma ascii_valid:
  assumes "list_all (in_range 0 0x7F) s"
  shows "valid_utf8 s"
  using assms
proof (induction s)
  case (Cons b bs)
  then have "rune_size [b] = length [b]" by (simp add: rune_size_def)
  from valid_utf8_append_rune [OF this] Cons show ?case by simp
qed simp

lemma hex_digit_ascii: "d < 16 \<Longrightarrow> in_range 0 0x7F (hex_digit d)"
  by (auto simp: hex_digit_def in_range_def)

lemma hex_valid [simp]: "valid_utf8 (hex_encode bs)"
proof (rule ascii_valid)
  show "list_all (in_range 0 0x7F) (hex_encode bs)"
  proof (induction bs)
    case (Cons c bs)
    have "(of_char c :: nat) < 256" by simp
    then have "(of_char c :: nat) div 16 < 16" by (simp add: div_less_iff_less_mult)
    then show ?case using Cons by (simp add: hex_digit_ascii)
  qed simp
qed

end
