(* ===== verification/Go_Slice.thy ===== *)
theory Go_Slice
  imports Go_Base
begin

text \<open>
  Go slices over shared arrays. A \<^verbatim>\<open>[]byte\<close> is a window into an array: reslicing gives another
  window of the same array, and \<^verbatim>\<open>append\<close> writes into that array when the capacity allows it. The
  parts of the program where two live slices share an array are modelled over this store.
\<close>

section \<open>The store\<close>

text \<open>The store is the list of all allocated arrays; an array is named by its position.\<close>

type_synonym store = "bytes list"

record slice =
  sl_arr :: nat
  sl_off :: nat
  sl_len :: nat
  sl_cap :: nat

definition slice_wf :: "store \<Rightarrow> slice \<Rightarrow> bool" where
  "slice_wf h s \<longleftrightarrow> sl_arr s < length h \<and> sl_len s \<le> sl_cap s
     \<and> sl_off s + sl_cap s \<le> length (h ! sl_arr s)"

definition sl_read :: "store \<Rightarrow> slice \<Rightarrow> bytes" where
  "sl_read h s = sub (h ! sl_arr s) (sl_off s) (sl_off s + sl_len s)"

definition alloc :: "store \<Rightarrow> bytes \<Rightarrow> store \<times> slice" where
  "alloc h bs = (h @ [bs], \<lparr>sl_arr = length h, sl_off = 0, sl_len = length bs, sl_cap = length bs\<rparr>)"

text \<open>\<^verbatim>\<open>s[lo:hi]\<close>: the bound is the capacity, not the length.\<close>

definition reslice :: "slice \<Rightarrow> nat \<Rightarrow> nat \<Rightarrow> slice outcome" where
  "reslice s lo hi =
     (if lo \<le> hi \<and> hi \<le> sl_cap s
      then Ok (s\<lparr>sl_off := sl_off s + lo, sl_len := hi - lo, sl_cap := sl_cap s - lo\<rparr>)
      else Panic SliceOutOfRange)"

definition overwrite :: "'a list \<Rightarrow> nat \<Rightarrow> 'a list \<Rightarrow> 'a list" where
  "overwrite xs i ys = take i xs @ ys @ drop (i + length ys) xs"

text \<open>
  \<^verbatim>\<open>append(s, bs...)\<close>: in place when the capacity suffices, otherwise into a fresh array. Go leaves
  the capacity of the fresh array open; no code here appends to such a result again, and the model
  takes the smallest.
\<close>

definition append_slice :: "store \<Rightarrow> slice \<Rightarrow> bytes \<Rightarrow> store \<times> slice" where
  "append_slice h s bs =
     (if sl_len s + length bs \<le> sl_cap s
      then (h[sl_arr s := overwrite (h ! sl_arr s) (sl_off s + sl_len s) bs],
            s\<lparr>sl_len := sl_len s + length bs\<rparr>)
      else alloc h (sl_read h s @ bs))"

section \<open>Lemmas\<close>

lemma length_overwrite: "i + length ys \<le> length xs \<Longrightarrow> length (overwrite xs i ys) = length xs"
  by (simp add: overwrite_def)

lemma sub_overwrite_same:
  "i + length ys \<le> length xs \<Longrightarrow> sub (overwrite xs i ys) i (i + length ys) = ys"
  by (simp add: sub_def overwrite_def)

lemma nth_overwrite:
  "i + length ys \<le> length xs \<Longrightarrow> j < length xs \<Longrightarrow>
     overwrite xs i ys ! j = (if i \<le> j \<and> j < i + length ys then ys ! (j - i) else xs ! j)"
  by (auto simp: overwrite_def nth_append min_def)

lemma sub_overwrite_disjoint:
  assumes "i + length ys \<le> length xs" "hi \<le> length xs" "hi \<le> i \<or> i + length ys \<le> lo"
  shows "sub (overwrite xs i ys) lo hi = sub xs lo hi"
proof (rule nth_equalityI)
  show "length (sub (overwrite xs i ys) lo hi) = length (sub xs lo hi)"
    using assms(1) by (simp add: length_overwrite)
  fix k assume "k < length (sub (overwrite xs i ys) lo hi)"
  then have k: "k < hi - lo" "lo + k < length xs"
    using assms(1) by (auto simp: length_overwrite)
  then show "sub (overwrite xs i ys) lo hi ! k = sub xs lo hi ! k"
    using assms by (auto simp: sub_nth length_overwrite nth_overwrite)
qed

lemma sub_split:
  assumes "lo \<le> mid" "mid \<le> hi"
  shows "sub xs lo hi = sub xs lo mid @ sub xs mid hi"
proof -
  have "hi - lo = (mid - lo) + (hi - mid)" "(mid - lo) + lo = mid" using assms by simp_all
  then show ?thesis by (simp only: sub_def take_add drop_drop)
qed

lemma length_sl_read: "slice_wf h s \<Longrightarrow> length (sl_read h s) = sl_len s"
  by (auto simp: slice_wf_def sl_read_def)

lemma alloc_read: "alloc h bs = (h', s) \<Longrightarrow> sl_read h' s = bs"
  by (auto simp: alloc_def sl_read_def)

lemma alloc_wf: "alloc h bs = (h', s) \<Longrightarrow> slice_wf h' s"
  by (auto simp: alloc_def slice_wf_def)

lemma alloc_old: "alloc h bs = (h', s) \<Longrightarrow> slice_wf h t \<Longrightarrow> sl_read h' t = sl_read h t \<and> slice_wf h' t"
  by (auto simp: alloc_def slice_wf_def sl_read_def nth_append)

lemma reslice_read:
  "slice_wf h s \<Longrightarrow> reslice s lo hi = Ok t \<Longrightarrow> hi \<le> sl_len s \<Longrightarrow> sl_read h t = sub (sl_read h s) lo hi"
  by (auto simp: reslice_def sl_read_def sub_def slice_wf_def min_def take_drop add.commute split: if_splits)

lemma reslice_wf: "slice_wf h s \<Longrightarrow> reslice s lo hi = Ok t \<Longrightarrow> slice_wf h t"
  by (auto simp: reslice_def slice_wf_def split: if_splits)

lemma append_slice_read:
  assumes "slice_wf h s" "append_slice h s bs = (h', t)"
  shows "sl_read h' t = sl_read h s @ bs"
proof (cases "sl_len s + length bs \<le> sl_cap s")
  case True
  let ?a = "h ! sl_arr s" and ?i = "sl_off s + sl_len s"
  from assms(1) True have b: "?i + length bs \<le> length ?a" "sl_arr s < length h"
    by (auto simp: slice_wf_def)
  from assms(2) True have h': "h' = h[sl_arr s := overwrite ?a ?i bs]"
    and t: "t = s\<lparr>sl_len := sl_len s + length bs\<rparr>"
    by (auto simp: append_slice_def)
  have "sl_read h' t = sub (overwrite ?a ?i bs) (sl_off s) (?i + length bs)"
    using b by (simp add: h' t sl_read_def add.assoc)
  also have "\<dots> = sub (overwrite ?a ?i bs) (sl_off s) ?i @ sub (overwrite ?a ?i bs) ?i (?i + length bs)"
    using b by (intro sub_split) (auto simp: length_overwrite)
  also have "\<dots> = sl_read h s @ bs"
    using b by (simp add: sub_overwrite_same sub_overwrite_disjoint sl_read_def)
  finally show ?thesis .
next
  case False
  with assms(2) show ?thesis by (auto simp: append_slice_def dest: alloc_read)
qed

text \<open>Slices of other arrays, and of the same array outside the written window, are not changed.\<close>

lemma append_slice_frame:
  assumes "slice_wf h s" "slice_wf h u" "append_slice h s bs = (h', t)"
    and "sl_arr u \<noteq> sl_arr s \<or> sl_off u + sl_len u \<le> sl_off s + sl_len s
         \<or> sl_off s + sl_len s + length bs \<le> sl_off u"
  shows "sl_read h' u = sl_read h u"
proof (cases "sl_len s + length bs \<le> sl_cap s")
  case True
  with assms show ?thesis
    by (auto simp: append_slice_def sl_read_def slice_wf_def nth_list_update
        intro!: sub_overwrite_disjoint)
next
  case False
  with assms show ?thesis by (auto simp: append_slice_def dest: alloc_old)
qed

lemma append_slice_wf:
  assumes "slice_wf h s" "append_slice h s bs = (h', t)"
  shows "slice_wf h' t" and "slice_wf h u \<Longrightarrow> slice_wf h' u"
proof -
  show "slice_wf h' t"
    using assms by (auto simp: append_slice_def slice_wf_def length_overwrite alloc_def split: if_splits)
  show "slice_wf h' u" if "slice_wf h u"
    using assms that
    by (auto simp: append_slice_def slice_wf_def length_overwrite alloc_def nth_list_update nth_append
        split: if_splits)
qed

end
