(* ===== verification/Proto_Wire.thy ===== *)
theory Proto_Wire
  imports Go_Utf8 "HOL-Library.Word"
begin

text \<open>
  The wire format of protocol buffers, as its specification describes it: a message is a sequence of
  fields, each with a number and a value that is a variable-length integer or a sequence of bytes. This is the
  coding that the messages of \<^verbatim>\<open>ocean/ocean/ocean.pb.go\<close> ask for with the tags of their fields; the library that does
  it is not part of the repository, and this theory is the instance on which the RPC connection is interpreted. The lemmas
  show that fields read back as they were written, and what a reader finds under a field number.
\<close>

section \<open>Variable-length integers\<close>

function put_varint :: "nat \<Rightarrow> bytes" where
  "put_varint n = (if n < 128 then [char_of n] else char_of (n mod 128 + 128) # put_varint (n div 128))"
  by pat_completeness auto
termination
  by (relation "measure id") auto

declare put_varint.simps [simp del]

text \<open>At most \<open>k\<close> bytes are read; ten hold every integer of 64 bits.\<close>

fun get_varint :: "nat \<Rightarrow> bytes \<Rightarrow> (nat \<times> bytes) outcome" where
  "get_varint 0 s = Err (Errorf ''variable length integer overflow'')"
| "get_varint (Suc k) [] = Err ErrUnexpectedEOF"
| "get_varint (Suc k) (b # bs) =
     (if (of_char b :: nat) < 128 then Ok (of_char b, bs)
      else obind (get_varint k bs) (\<lambda>(v, rest). Ok (of_char b - 128 + 128 * v, rest)))"

definition read_varint :: "bytes \<Rightarrow> (nat \<times> bytes) outcome" where
  "read_varint s =
     obind (get_varint (Suc 9) s) (\<lambda>(v, rest). if v < 2 ^ 64 then Ok (v, rest) else Err (Errorf ''variable length integer overflow''))"

lemma get_put_varint: "n < 128 ^ Suc k \<Longrightarrow> get_varint (Suc k) (put_varint n @ rest) = Ok (n, rest)"
proof (induction k arbitrary: n)
  case 0
  then show ?case by (simp add: put_varint.simps)
next
  case (Suc k)
  show ?case
  proof (cases "n < 128")
    case True
    then show ?thesis by (simp add: put_varint.simps)
  next
    case False
    have "n div 128 < 128 ^ Suc k" using Suc.prems by (simp add: div_less_iff_less_mult mult.commute)
    from Suc.IH [OF this] have "get_varint (Suc k) (put_varint (n div 128) @ rest) = Ok (n div 128, rest)" .
    moreover have "(of_char (char_of (n mod 128 + 128) :: char) :: nat) = n mod 128 + 128" by simp
    moreover have "n mod 128 + 128 * (n div 128) = n" by simp
    ultimately show ?thesis using False by (subst put_varint.simps) simp
  qed
qed

interpretation vi: codec put_varint read_varint "\<lambda>n. n < 2 ^ 64"
proof
  fix n :: nat and rest assume n: "n < 2 ^ 64"
  moreover have "(2 :: nat) ^ 64 \<le> 128 ^ Suc 9" by simp
  ultimately have "n < 128 ^ Suc 9" by (rule less_le_trans)
  from get_put_varint [OF this, of rest] n show "read_varint (put_varint n @ rest) = Ok (n, rest)"
    by (simp only: read_varint_def obind.simps prod.case if_True)
qed

section \<open>Fields\<close>

datatype wire = Varint nat | Fixed64 bytes | Len bytes | Fixed32 bytes

type_synonym proto_field = "nat \<times> wire"

fun put_field :: "proto_field \<Rightarrow> bytes" where
  "put_field (n, Varint v) = put_varint (n * 8) @ put_varint v"
| "put_field (n, Fixed64 b) = put_varint (n * 8 + 1) @ b"
| "put_field (n, Len b) = put_varint (n * 8 + 2) @ put_varint (length b) @ b"
| "put_field (n, Fixed32 b) = put_varint (n * 8 + 5) @ b"

definition read_field :: "bytes \<Rightarrow> (proto_field \<times> bytes) outcome" where
  "read_field s =
     obind (read_varint s) (\<lambda>(tag, s).
       if tag div 8 = 0 \<or> 2 ^ 29 \<le> tag div 8 then Err (Errorf ''invalid field number'')
       else if tag mod 8 = 0 then obind (read_varint s) (\<lambda>(v, s). Ok ((tag div 8, Varint v), s))
       else if tag mod 8 = 1 then obind (read_full 8 s) (\<lambda>(b, s). Ok ((tag div 8, Fixed64 b), s))
       else if tag mod 8 = 2 then obind (read_varint s) (\<lambda>(l, s). obind (read_full l s) (\<lambda>(b, s). Ok ((tag div 8, Len b), s)))
       else if tag mod 8 = 5 then obind (read_full 4 s) (\<lambda>(b, s). Ok ((tag div 8, Fixed32 b), s))
       else Err (Errorf ''cannot parse reserved wire type''))"

fun field_ok :: "proto_field \<Rightarrow> bool" where
  "field_ok (n, Varint v) \<longleftrightarrow> 0 < n \<and> n < 2 ^ 29 \<and> v < 2 ^ 64"
| "field_ok (n, Fixed64 b) \<longleftrightarrow> 0 < n \<and> n < 2 ^ 29 \<and> length b = 8"
| "field_ok (n, Len b) \<longleftrightarrow> 0 < n \<and> n < 2 ^ 29 \<and> length b < 2 ^ 64"
| "field_ok (n, Fixed32 b) \<longleftrightarrow> 0 < n \<and> n < 2 ^ 29 \<and> length b = 4"

interpretation fd: codec put_field read_field field_ok
proof
  fix f rest assume f: "field_ok f"
  obtain n w where fw: "f = (n, w)" by fastforce
  have n: "0 < n" "n < 2 ^ 29" using f fw by (cases w; simp)+
  then have tag: "read_varint (put_varint (n * 8 + t) @ r) = Ok (n * 8 + t, r)" if "t < 8" for t r
    using that by (intro vi.dec_enc) simp
  have d: "(n * 8 + t) div 8 = n" "(n * 8 + t) mod 8 = t" if "t < 8" for t using that by simp_all
  show "read_field (put_field f @ rest) = Ok (f, rest)"
    using f n tag [of 0] tag [of 1] tag [of 2] tag [of 5] d [of 0] d [of 1] d [of 2] d [of 5]
    by (cases w) (simp_all add: fw read_field_def vi.dec_enc)
qed

section \<open>Messages\<close>

definition put_fields :: "proto_field list \<Rightarrow> bytes" where
  "put_fields fs = concat (map put_field fs)"

text \<open>The reader of a message; the guard is that a field takes at least one byte.\<close>

function read_fields :: "bytes \<Rightarrow> proto_field list outcome" where
  "read_fields s =
     (if s = [] then Ok []
      else case read_field s of
             Ok (f, rest) \<Rightarrow>
               if length rest < length s then obind (read_fields rest) (\<lambda>fs. Ok (f # fs)) else Err (Errorf ''no progress'')
           | Err e \<Rightarrow> Err e
           | Panic p \<Rightarrow> Panic p)"
  by pat_completeness auto
termination
  by (relation "measure length") auto

declare read_fields.simps [simp del]

lemma put_varint_nonempty [simp]: "put_varint n \<noteq> []"
  by (simp add: put_varint.simps)

lemma put_field_nonempty [simp]: "put_field f \<noteq> []"
  by (cases f rule: put_field.cases) simp_all

lemma read_fields_Nil [simp]: "read_fields [] = Ok []"
  by (simp add: read_fields.simps)

lemma read_put_fields: "list_all field_ok fs \<Longrightarrow> read_fields (put_fields fs) = Ok fs"
proof (induction fs)
  case (Cons f fs)
  then have "read_field (put_field f @ put_fields fs) = Ok (f, put_fields fs)" by (intro fd.dec_enc) simp
  then show ?case using Cons by (subst read_fields.simps) (simp add: put_fields_def)
qed (simp add: put_fields_def)

text \<open>A part of a message is not longer than the message.\<close>

lemma part_length:
  assumes "(n, Len b) \<in> set fs"
  shows "length b \<le> length (put_fields fs)"
proof -
  have "length b \<le> length (put_field (n, Len b))" by simp
  also have "\<dots> \<le> length (put_fields fs)"
    unfolding put_fields_def length_concat
    by (rule member_le_sum_list) (use imageI [OF assms, of "\<lambda>f. length (put_field f)"] in \<open>simp_all add: image_image del: put_field.simps\<close>)
  finally show ?thesis .
qed

section \<open>What a reader finds\<close>

text \<open>The values under a field number in their order; a value of another kind is an unknown field.\<close>

definition varints :: "nat \<Rightarrow> proto_field list \<Rightarrow> nat list" where
  "varints n fs = concat (map (\<lambda>(m, w). case w of Varint v \<Rightarrow> if m = n then [v] else [] | _ \<Rightarrow> []) fs)"

definition lens :: "nat \<Rightarrow> proto_field list \<Rightarrow> bytes list" where
  "lens n fs = concat (map (\<lambda>(m, w). case w of Len b \<Rightarrow> if m = n then [b] else [] | _ \<Rightarrow> []) fs)"

text \<open>Of several values of a single field the last counts; without one it is zero.\<close>

definition last_varint :: "nat \<Rightarrow> proto_field list \<Rightarrow> nat" where
  "last_varint n fs = (case varints n fs of [] \<Rightarrow> 0 | v # vs \<Rightarrow> last (v # vs))"

definition last_len :: "nat \<Rightarrow> proto_field list \<Rightarrow> bytes" where
  "last_len n fs = (case lens n fs of [] \<Rightarrow> [] | b # bs \<Rightarrow> last (b # bs))"

text \<open>Fields as they are written: a zero value is left out.\<close>

definition varint_field :: "nat \<Rightarrow> nat \<Rightarrow> proto_field list" where
  "varint_field n v = (if v = 0 then [] else [(n, Varint v)])"

definition len_field :: "nat \<Rightarrow> bytes \<Rightarrow> proto_field list" where
  "len_field n b = (if b = [] then [] else [(n, Len b)])"

definition len_fields :: "nat \<Rightarrow> bytes list \<Rightarrow> proto_field list" where
  "len_fields n bs = map (\<lambda>b. (n, Len b)) bs"

named_theorems field_simps \<open>fields that are written and read\<close>

lemma varints_simps [field_simps]:
  "varints n [] = []" "varints n (fs @ gs) = varints n fs @ varints n gs"
  "varints n (varint_field m v) = (if m = n \<and> v \<noteq> 0 then [v] else [])" "varints n (len_field m b) = []" "varints n (len_fields m bs) = []"
  by (auto simp: varints_def varint_field_def len_field_def len_fields_def)

lemma lens_simps [field_simps]:
  "lens n [] = []" "lens n (fs @ gs) = lens n fs @ lens n gs"
  "lens n (len_field m b) = (if m = n \<and> b \<noteq> [] then [b] else [])" "lens n (varint_field m v) = []"
  "lens n (len_fields m bs) = (if m = n then bs else [])"
  by (auto simp: lens_def varint_field_def len_field_def len_fields_def comp_def)

lemma last_varint_simps [field_simps]:
  "last_varint n (varint_field m v @ fs) = (if m = n \<and> varints n fs = [] then v else last_varint n fs)"
  "last_varint n (len_field m b @ fs) = last_varint n fs" "last_varint n (len_fields m bs @ fs) = last_varint n fs"
  "last_varint n (varint_field m v) = (if m = n then v else 0)"
  by (auto simp: last_varint_def varints_simps split: list.splits)

lemma last_len_simps [field_simps]:
  "last_len n (len_field m b @ fs) = (if m = n \<and> lens n fs = [] then b else last_len n fs)"
  "m \<noteq> n \<Longrightarrow> last_len n (len_fields m bs @ fs) = last_len n fs" "last_len n (varint_field m v @ fs) = last_len n fs"
  "last_len n (len_field m b) = (if m = n then b else [])"
  by (auto simp: last_len_def lens_simps split: list.splits)

text \<open>Every field of a written message can be read.\<close>

definition small :: "bytes \<Rightarrow> bool" where
  "small b \<longleftrightarrow> length b < 2 ^ 31"

lemma written_fields_ok:
  assumes "small (put_fields fs)" "\<forall>(n, w) \<in> set fs. 0 < n \<and> n < 2 ^ 29 \<and> (case w of Varint v \<Rightarrow> v < 2 ^ 64 | Len b \<Rightarrow> True | _ \<Rightarrow> False)"
  shows "list_all field_ok fs"
proof -
  have "field_ok f" if "f \<in> set fs" for f
    using that assms part_length [of _ _ fs]
    by (cases f rule: put_field.cases) (fastforce simp: small_def)+
  then show ?thesis by (simp add: list_all_iff)
qed

text \<open>Integers of the message fields.\<close>

definition int64_varint :: "int \<Rightarrow> nat" where
  "int64_varint k = nat (k mod 2 ^ 64)"

definition varint_int64 :: "nat \<Rightarrow> int" where
  "varint_int64 v = (if v < 2 ^ 63 then int v else int v - 2 ^ 64)"

definition uint32_varint :: "32 word \<Rightarrow> nat" where
  "uint32_varint w = unat w"

definition varint_uint32 :: "nat \<Rightarrow> 32 word" where
  "varint_uint32 v = word_of_nat v"

definition bool_varint :: "bool \<Rightarrow> nat" where
  "bool_varint b = (if b then 1 else 0)"

lemma int64_varint_less: "int64_varint k < 2 ^ 64"
  by (simp add: int64_varint_def nat_less_iff)

lemma int64_roundtrip: "is_int64 k \<Longrightarrow> varint_int64 (int64_varint k) = k"
proof (cases "0 \<le> k")
  case True
  assume "is_int64 k"
  then have "k mod 2 ^ 64 = k" using True by (simp add: is_int64_def int64_min_def int64_max_def)
  then show ?thesis using True \<open>is_int64 k\<close> by (simp add: int64_varint_def varint_int64_def is_int64_def int64_min_def int64_max_def)
next
  case False
  assume i: "is_int64 k"
  have "k mod 2 ^ 64 = (k + 2 ^ 64) mod 2 ^ 64" by simp
  also have "\<dots> = k + 2 ^ 64" using False i by (intro mod_pos_pos_trivial) (simp_all add: is_int64_def int64_min_def int64_max_def)
  finally show ?thesis using False i by (simp add: int64_varint_def varint_int64_def is_int64_def int64_min_def int64_max_def)
qed

lemma uint32_varint_less: "uint32_varint w < 2 ^ 64"
  using unat_bound [of w] by (simp add: uint32_varint_def)

lemma uint32_roundtrip [simp]: "varint_uint32 (uint32_varint w) = w"
  by (simp add: varint_uint32_def uint32_varint_def)

lemma bool_roundtrip [simp]: "bool_varint b \<noteq> 0 \<longleftrightarrow> b" "bool_varint b < 2 ^ 64"
  by (simp_all add: bool_varint_def)

section \<open>The contract of a message\<close>

fun traverse :: "('a \<Rightarrow> 'b outcome) \<Rightarrow> 'a list \<Rightarrow> 'b list outcome" where
  "traverse f [] = Ok []"
| "traverse f (x # xs) = obind (f x) (\<lambda>y. obind (traverse f xs) (\<lambda>ys. Ok (y # ys)))"

text \<open>
  \<^verbatim>\<open>proto.Marshal\<close> of a message with the given fields, which fails on a string that is not UTF-8 and on a message
  that is too long, and \<^verbatim>\<open>proto.Unmarshal\<close>.
\<close>

definition marshal :: "('a \<Rightarrow> proto_field list) \<Rightarrow> ('a \<Rightarrow> bool) \<Rightarrow> 'a \<Rightarrow> bytes outcome" where
  "marshal fds ok x = (if ok x \<and> small (put_fields (fds x)) then Ok (put_fields (fds x)) else Err (Errorf ''proto: marshal''))"

definition unmarshal :: "(proto_field list \<Rightarrow> 'a outcome) \<Rightarrow> bytes \<Rightarrow> 'a outcome" where
  "unmarshal rd b = obind (read_fields b) rd"

definition part_ok :: "proto_field \<Rightarrow> bool" where
  "part_ok f = (case f of (n, w) \<Rightarrow> 0 < n \<and> n < 2 ^ 29 \<and> (case w of Varint v \<Rightarrow> v < 2 ^ 64 | Len b \<Rightarrow> True | _ \<Rightarrow> False))"

lemma part_ok_simps [field_simps]:
  "list_all part_ok (varint_field n v) \<longleftrightarrow> v = 0 \<or> 0 < n \<and> n < 2 ^ 29 \<and> v < 2 ^ 64"
  "list_all part_ok (len_field n b) \<longleftrightarrow> b = [] \<or> 0 < n \<and> n < 2 ^ 29"
  "list_all part_ok (len_fields n bs) \<longleftrightarrow> bs = [] \<or> 0 < n \<and> n < 2 ^ 29"
  by (auto simp: part_ok_def varint_field_def len_field_def len_fields_def list_all_iff)

definition parts_small :: "proto_field list \<Rightarrow> bool" where
  "parts_small fs \<longleftrightarrow> (\<forall>(n, w) \<in> set fs. case w of Len b \<Rightarrow> small b | _ \<Rightarrow> True)"

lemma parts_small_simps [field_simps]:
  "parts_small [] \<longleftrightarrow> True" "parts_small (fs @ gs) \<longleftrightarrow> parts_small fs \<and> parts_small gs"
  "parts_small (varint_field n v) \<longleftrightarrow> True" "parts_small (len_field n b) \<longleftrightarrow> small b" "parts_small (len_fields n bs) \<longleftrightarrow> list_all small bs"
  by (auto simp: parts_small_def varint_field_def len_field_def len_fields_def list_all_iff small_def)

lemma small_parts: "small (put_fields fs) \<Longrightarrow> parts_small fs"
  using part_length by (fastforce simp: parts_small_def small_def split: wire.splits)

locale proto_message =
  fixes fds :: "'a \<Rightarrow> proto_field list" and ok :: "'a \<Rightarrow> bool" and rd :: "proto_field list \<Rightarrow> 'a outcome"
  assumes parts: "list_all part_ok (fds x)"
    and rd_fds: "ok x \<Longrightarrow> parts_small (fds x) \<Longrightarrow> rd (fds x) = Ok x"
begin

lemma unmarshal_put: "ok x \<Longrightarrow> small (put_fields (fds x)) \<Longrightarrow> unmarshal rd (put_fields (fds x)) = Ok x"
  using written_fields_ok [of "fds x"] read_put_fields [of "fds x"] parts [of x] rd_fds [OF _ small_parts]
  by (simp add: unmarshal_def list_all_iff part_ok_def)

lemma roundtrip: "marshal fds ok x = Ok b \<Longrightarrow> unmarshal rd b = Ok x"
  using unmarshal_put [of x] by (auto simp: marshal_def split: if_splits)

text \<open>The elements of a repeated field.\<close>

lemma embedded:
  "list_all ok xs \<Longrightarrow> list_all small (map (\<lambda>x. put_fields (fds x)) xs) \<Longrightarrow>
    traverse (unmarshal rd) (map (\<lambda>x. put_fields (fds x)) xs) = Ok xs"
  by (induction xs) (simp_all add: unmarshal_put)

end

section \<open>Packed fields\<close>

text \<open>The integers of a packed field, one after the other.\<close>

function read_packed :: "bytes \<Rightarrow> nat list outcome" where
  "read_packed s =
     (if s = [] then Ok []
      else case read_varint s of
             Ok (v, rest) \<Rightarrow>
               if length rest < length s then obind (read_packed rest) (\<lambda>vs. Ok (v # vs)) else Err (Errorf ''no progress'')
           | Err e \<Rightarrow> Err e
           | Panic p \<Rightarrow> Panic p)"
  by pat_completeness auto
termination
  by (relation "measure length") auto

declare read_packed.simps [simp del]

definition put_packed :: "nat list \<Rightarrow> bytes" where
  "put_packed vs = concat (map put_varint vs)"

lemma read_put_packed: "list_all (\<lambda>v. v < 2 ^ 64) vs \<Longrightarrow> read_packed (put_packed vs) = Ok vs"
proof (induction vs)
  case (Cons v vs)
  then have "read_varint (put_varint v @ put_packed vs) = Ok (v, put_packed vs)" by (intro vi.dec_enc) simp
  then show ?case using Cons by (subst read_packed.simps) (simp add: put_packed_def)
qed (simp add: put_packed_def read_packed.simps)

end
