(* ===== verification/Bencode.thy ===== *)
theory Bencode
  imports Go_Map
begin

text \<open>
  Package \<^verbatim>\<open>common/bencode\<close>: the decoder (\<^verbatim>\<open>decode.go\<close>), the encoder (\<^verbatim>\<open>encode.go\<close>) and the typed
  accessors (\<^verbatim>\<open>util.go\<close>). The lemmas show that the encoder prints the canonical bencoding, that the
  decoder reads it back, that the decoder terminates, how it fails, and what a dotted path finds.
\<close>

section \<open>Dynamic values\<close>

text \<open>
  The dynamic types behind \<^verbatim>\<open>any\<close> that the package distinguishes. The type of byte slices is a
  parameter: the decoder returns windows of its input buffer, other packages store slices of other
  arrays, and a specification speaks about the bytes themselves. \<open>AOther\<close> is any value of a dynamic
  type the switch statements do not list (nil included).
\<close>

datatype 'b any =
    AInt int
  | AString string
  | ABytes 'b
  | AList "'b any list"
  | AMap "(string \<times> 'b any) list"
  | AOther

text \<open>The slice expression \<^verbatim>\<open>buf[lo:hi]\<close> of the decoder's input.\<close>

type_synonym span = "nat \<times> nat"

definition span_read :: "bytes \<Rightarrow> span \<Rightarrow> bytes" where
  "span_read buf s = sub buf (fst s) (snd s)"

section \<open>\<open>decode.go\<close>\<close>

definition decode_bytes :: "bytes \<Rightarrow> nat \<Rightarrow> (span \<times> nat) outcome" where
  "decode_bytes buf pos =
     (if length buf < pos then Panic SliceOutOfRange
      else let ds = takeWhile (\<lambda>c. c \<noteq> CHR '':'') (drop pos buf);
               i = pos + length ds
           in obind (atoi ds) (\<lambda>l.
                if int (length buf) \<le> l then Err (Errorf ''illegal str len'')
                else if int (length buf) < int i + l + 1 then Err (Errorf ''str len overflow'')
                else if l < 0 then Panic SliceOutOfRange
                else Ok ((i + 1, i + nat l + 1), i + nat l + 1)))"

definition decode_int :: "bytes \<Rightarrow> nat \<Rightarrow> (int \<times> nat) outcome" where
  "decode_int buf pos =
     (let start = pos + 1
      in if length buf < start then Panic SliceOutOfRange
         else let ds = takeWhile (\<lambda>c. c \<noteq> CHR ''e'') (drop start buf)
              in obind (atoi ds) (\<lambda>k. Ok (k, start + length ds + 1)))"

text \<open>
  The three mutually recursive routines; a loop is a function of its loop variables. The guard
  \<open>i < off\<close> before the next iteration is not in the source: it makes the recursion well-founded, and
  \<open>decode_progress\<close> below shows that it always holds, so its other branch is never taken.
\<close>

function (sequential)
    decode_any :: "bytes \<Rightarrow> nat \<Rightarrow> (span any \<times> nat) outcome"
  and decode_list_loop :: "bytes \<Rightarrow> nat \<Rightarrow> span any list \<Rightarrow> (span any list \<times> nat) outcome"
  and decode_dict_loop :: "bytes \<Rightarrow> nat \<Rightarrow> bool \<Rightarrow> string \<Rightarrow> (string \<times> span any) list
        \<Rightarrow> ((string \<times> span any) list \<times> nat) outcome"
where
  "decode_any buf pos =
     (if length buf \<le> pos then Err (Errorf ''illegal payload'')
      else if buf ! pos = CHR ''i''
        then obind (decode_int buf pos) (\<lambda>(k, off). Ok (AInt k, off))
      else if is_digit (buf ! pos)
        then obind (decode_bytes buf pos) (\<lambda>(b, off). Ok (ABytes b, off))
      else if buf ! pos = CHR ''l''
        then obind (decode_list_loop buf (pos + 1) []) (\<lambda>(xs, off). Ok (AList xs, off))
      else if buf ! pos = CHR ''d''
        then obind (decode_dict_loop buf (pos + 1) True [] []) (\<lambda>(m, off). Ok (AMap m, off))
      else Err (Errorf ''unsupported type''))"
| "decode_list_loop buf i ret =
     (if i < length buf \<and> buf ! i \<noteq> CHR ''e''
      then case decode_any buf i of
             Ok (item, off) \<Rightarrow>
               if i < off then decode_list_loop buf off (ret @ [item])
               else Err (Errorf ''no progress'')
           | Err e \<Rightarrow> Err e
           | Panic p \<Rightarrow> Panic p
      else Ok (ret, i + 1))"
| "decode_dict_loop buf i isKey key ret =
     (if i < length buf \<and> buf ! i \<noteq> CHR ''e''
      then case decode_any buf i of
             Ok (item, off) \<Rightarrow>
               if i < off
               then if isKey
                    then case item of
                           ABytes b \<Rightarrow> decode_dict_loop buf off False (span_read buf b) ret
                         | _ \<Rightarrow> Panic BadTypeAssertion
                    else decode_dict_loop buf off True key (put key item ret)
               else Err (Errorf ''no progress'')
           | Err e \<Rightarrow> Err e
           | Panic p \<Rightarrow> Panic p
      else Ok (ret, i + 1))"
  by pat_completeness auto
termination
  by (relation "measures
      [\<lambda>x. case x of Inl (buf, pos) \<Rightarrow> length buf - pos
          | Inr (Inl (buf, i, ret)) \<Rightarrow> length buf - i
          | Inr (Inr (buf, i, isKey, key, ret)) \<Rightarrow> length buf - i,
       \<lambda>x. case x of Inl _ \<Rightarrow> 0 | Inr _ \<Rightarrow> 1]") auto

declare decode_any.simps [simp del] decode_list_loop.simps [simp del] decode_dict_loop.simps [simp del]

definition decode_list :: "bytes \<Rightarrow> nat \<Rightarrow> (span any list \<times> nat) outcome" where
  "decode_list buf pos = decode_list_loop buf (pos + 1) []"

definition decode_dict :: "bytes \<Rightarrow> nat \<Rightarrow> ((string \<times> span any) list \<times> nat) outcome" where
  "decode_dict buf pos = decode_dict_loop buf (pos + 1) True [] []"

definition decode_string :: "bytes \<Rightarrow> nat \<Rightarrow> (string \<times> nat) outcome" where
  "decode_string buf pos = obind (decode_bytes buf pos) (\<lambda>(b, off). Ok (span_read buf b, off))"

definition bdecode :: "bytes \<Rightarrow> span any outcome" where
  "bdecode buf = obind (decode_any buf 0) (\<lambda>(ret, _). Ok ret)"

definition bdecode_dict :: "bytes \<Rightarrow> ((string \<times> span any) list \<times> nat) outcome" where
  "bdecode_dict buf = decode_dict buf 0"

section \<open>\<open>encode.go\<close>\<close>

text \<open>
  The builder is the text written so far; each routine returns the builder after its writes.
  \<open>rd\<close> reads the bytes of a slice.
\<close>

definition encode_int :: "bytes \<Rightarrow> int \<Rightarrow> bytes" where
  "encode_int builder val = builder @ ''i'' @ itoa val @ ''e''"

definition encode_string :: "bytes \<Rightarrow> string \<Rightarrow> bytes" where
  "encode_string builder val = builder @ itoa (int (length val)) @ '':'' @ val"

definition encode_bytes :: "bytes \<Rightarrow> bytes \<Rightarrow> bytes" where
  "encode_bytes builder data = builder @ itoa (int (length data)) @ '':'' @ data"

lemma size_map_value: "map_of m k = Some v \<Longrightarrow> size v < size (AMap m)"
  by (auto dest!: map_of_SomeD simp: size_list_estimation less_Suc_eq_le
      intro!: size_list_estimation')

function (sequential)
    encode_any :: "('b \<Rightarrow> bytes) \<Rightarrow> bytes \<Rightarrow> 'b any \<Rightarrow> bytes outcome"
  and encode_map_loop :: "('b \<Rightarrow> bytes) \<Rightarrow> bytes \<Rightarrow> string list \<Rightarrow> (string \<times> 'b any) list \<Rightarrow> bytes outcome"
  and encode_list_loop :: "('b \<Rightarrow> bytes) \<Rightarrow> bytes \<Rightarrow> 'b any list \<Rightarrow> bytes outcome"
where
  "encode_any rd builder (AInt val) = Ok (encode_int builder val)"
| "encode_any rd builder (AString val) = Ok (encode_string builder val)"
| "encode_any rd builder (ABytes data) = Ok (encode_bytes builder (rd data))"
| "encode_any rd builder (AMap m) = encode_map_loop rd (builder @ ''d'') (sort (map fst m)) m"
| "encode_any rd builder (AList xs) = encode_list_loop rd (builder @ ''l'') xs"
| "encode_any rd builder AOther = Err (Errorf ''unsupported type'')"
| "encode_map_loop rd builder [] m = Ok (builder @ ''e'')"
| "encode_map_loop rd builder (k # keys) m =
     (case map_of m k of
        None \<Rightarrow> Err (Errorf ''unsupported type'')
      | Some v \<Rightarrow> obind (encode_any rd (encode_string builder k) v)
                   (\<lambda>builder'. encode_map_loop rd builder' keys m))"
| "encode_list_loop rd builder [] = Ok (builder @ ''e'')"
| "encode_list_loop rd builder (item # xs) =
     obind (encode_any rd builder item) (\<lambda>builder'. encode_list_loop rd builder' xs)"
  by pat_completeness auto
termination
  by (relation "measures
      [\<lambda>x. case x of Inl (rd, b, v) \<Rightarrow> size v
          | Inr (Inl (rd, b, ks, m)) \<Rightarrow> size (AMap m)
          | Inr (Inr (rd, b, xs)) \<Rightarrow> size (AList xs),
       \<lambda>x. case x of Inl _ \<Rightarrow> 1 | Inr _ \<Rightarrow> 0,
       \<lambda>x. case x of Inr (Inl (rd, b, ks, m)) \<Rightarrow> length ks | _ \<Rightarrow> 0]")
    (use size_map_value in \<open>fastforce+\<close>)

definition bencode :: "('b \<Rightarrow> bytes) \<Rightarrow> 'b any \<Rightarrow> string outcome" where
  "bencode rd obj = encode_any rd [] obj"

section \<open>\<open>util.go\<close>\<close>

text \<open>\<^verbatim>\<open>strings.Split(path, ".")\<close> for a one-byte separator.\<close>

fun split_on :: "char \<Rightarrow> string \<Rightarrow> string list" where
  "split_on c [] = [[]]"
| "split_on c (x # xs) =
     (if x = c then [] # split_on c xs
      else case split_on c xs of [] \<Rightarrow> [[x]] | p # ps \<Rightarrow> (x # p) # ps)"

fun path_loop :: "'b any \<Rightarrow> string list \<Rightarrow> 'b any option" where
  "path_loop m [] = Some m"
| "path_loop (AMap d) (p # ps) =
     (case map_of d p of None \<Rightarrow> None | Some m \<Rightarrow> path_loop m ps)"
| "path_loop m (p # ps) = (if ps \<noteq> [] then None else path_loop m ps)"

definition get_by_path :: "(string \<times> 'b any) list \<Rightarrow> string \<Rightarrow> 'b any option" where
  "get_by_path dict path = path_loop (AMap dict) (split_on CHR ''.'' path)"

definition get_string :: "('b \<Rightarrow> bytes) \<Rightarrow> (string \<times> 'b any) list \<Rightarrow> string \<Rightarrow> string \<times> bool" where
  "get_string rd dict key =
     (case get_by_path dict key of Some (ABytes b) \<Rightarrow> (rd b, True) | _ \<Rightarrow> ([], False))"

definition get_int :: "(string \<times> 'b any) list \<Rightarrow> string \<Rightarrow> int \<times> bool" where
  "get_int dict key =
     (case get_by_path dict key of Some (AInt k) \<Rightarrow> (k, True) | _ \<Rightarrow> (0, False))"

definition get_list :: "(string \<times> 'b any) list \<Rightarrow> string \<Rightarrow> 'b any list \<times> bool" where
  "get_list dict key =
     (case get_by_path dict key of Some (AList xs) \<Rightarrow> (xs, True) | _ \<Rightarrow> ([], False))"

definition must_get_bytes :: "(string \<times> 'b any) list \<Rightarrow> string \<Rightarrow> 'b option" where
  "must_get_bytes dict key =
     (case get_by_path dict key of Some (ABytes b) \<Rightarrow> Some b | _ \<Rightarrow> None)"

fun check_loop :: "'b any \<Rightarrow> string list \<Rightarrow> bool" where
  "check_loop m [] = True"
| "check_loop (AMap d) (p # ps) =
     (case map_of d p of None \<Rightarrow> False | Some m \<Rightarrow> check_loop m ps)"
| "check_loop m (p # ps) = (if ps \<noteq> [] then False else check_loop m ps)"

definition check_map_path :: "(string \<times> 'b any) list \<Rightarrow> string \<Rightarrow> bool" where
  "check_map_path dict path = check_loop (AMap dict) (split_on CHR ''.'' path)"


section \<open>Termination and progress of the decoder\<close>

lemma decode_int_progress: "decode_int buf pos = Ok (k, off) \<Longrightarrow> pos < off"
  by (auto simp: decode_int_def Let_def obind_eq_Ok split: if_splits)

lemma decode_bytes_progress: "decode_bytes buf pos = Ok (b, off) \<Longrightarrow> pos < off"
  by (auto simp: decode_bytes_def Let_def obind_eq_Ok split: if_splits)

lemma decode_progress:
  "decode_any buf pos = Ok (v, off) \<Longrightarrow> pos < off"
  "decode_list_loop buf i ret = Ok (xs, off') \<Longrightarrow> i < off'"
  "decode_dict_loop buf j isKey key m = Ok (m', off'') \<Longrightarrow> j < off''"
proof (induction buf pos and buf i ret and buf j isKey key m arbitrary: v off and xs off' and m' off''
    rule: decode_any_decode_list_loop_decode_dict_loop.induct)
  case (1 buf pos)
  from "1.prems" show ?case
    by (subst (asm) decode_any.simps)
      (auto simp: obind_eq_Ok split: if_splits dest: decode_int_progress decode_bytes_progress
        "1.IH"(1) "1.IH"(2))
next
  case (2 buf i ret)
  show ?case
  proof (cases "i < length buf \<and> buf ! i \<noteq> CHR ''e''")
    case True
    with "2.prems" obtain item off where
      d: "decode_any buf i = Ok (item, off)" "i < off"
         "decode_list_loop buf off (ret @ [item]) = Ok (xs, off')"
      by (subst (asm) decode_list_loop.simps) (auto split: if_splits outcome.splits)
    from "2.IH"(2) [OF True d(1) refl d(2,3)] d(2) show ?thesis by simp
  next
    case False
    with "2.prems" show ?thesis by (subst (asm) decode_list_loop.simps) auto
  qed
next
  case (3 buf i isKey key ret)
  show ?case
  proof (cases "i < length buf \<and> buf ! i \<noteq> CHR ''e''")
    case True
    with "3.prems" obtain item off where
      d: "decode_any buf i = Ok (item, off)" "i < off"
      by (subst (asm) decode_dict_loop.simps) (auto split: if_splits outcome.splits)
    show ?thesis
    proof (cases isKey)
      case k: True
      with "3.prems" True d obtain b where
        b: "item = ABytes b" "decode_dict_loop buf off False (span_read buf b) ret = Ok (m', off'')"
        by (subst (asm) decode_dict_loop.simps) (auto split: any.splits)
      from "3.IH"(2) [OF True d(1) refl d(2) k b] d(2) show ?thesis by simp
    next
      case k: False
      with "3.prems" True d have "decode_dict_loop buf off True key (put key item ret) = Ok (m', off'')"
        by (subst (asm) decode_dict_loop.simps) auto
      from "3.IH"(3) [OF True d(1) refl d(2) k this] d(2) show ?thesis by simp
    qed
  next
    case False
    with "3.prems" show ?thesis by (subst (asm) decode_dict_loop.simps) auto
  qed
qed

text \<open>The loops as the source has them, without the guard.\<close>

lemma decode_list_loop_eq:
  "decode_list_loop buf i ret =
     (if i < length buf \<and> buf ! i \<noteq> CHR ''e''
      then obind (decode_any buf i) (\<lambda>(item, off). decode_list_loop buf off (ret @ [item]))
      else Ok (ret, i + 1))"
  by (subst decode_list_loop.simps)
    (auto split: outcome.splits prod.splits dest: decode_progress(1))

lemma decode_dict_loop_eq:
  "decode_dict_loop buf i isKey key ret =
     (if i < length buf \<and> buf ! i \<noteq> CHR ''e''
      then obind (decode_any buf i) (\<lambda>(item, off).
             if isKey
             then case item of
                    ABytes b \<Rightarrow> decode_dict_loop buf off False (span_read buf b) ret
                  | _ \<Rightarrow> Panic BadTypeAssertion
             else decode_dict_loop buf off True key (put key item ret))
      else Ok (ret, i + 1))"
  by (subst decode_dict_loop.simps)
    (auto split: outcome.splits prod.splits any.splits dest: decode_progress(1))


section \<open>The encoder prints the canonical bencoding\<close>

text \<open>
  The reference printer: integers between \<^verbatim>\<open>i\<close> and \<^verbatim>\<open>e\<close>, byte strings with their length, lists and
  dictionaries bracketed, dictionary entries in key order.
\<close>

primrec benc :: "('b \<Rightarrow> bytes) \<Rightarrow> 'b any \<Rightarrow> bytes" where
  "benc rd (AInt k) = ''i'' @ itoa k @ ''e''"
| "benc rd (AString s) = itoa (int (length s)) @ '':'' @ s"
| "benc rd (ABytes b) = itoa (int (length (rd b))) @ '':'' @ rd b"
| "benc rd (AList xs) = ''l'' @ concat (map (benc rd) xs) @ ''e''"
| "benc rd (AMap m) =
     ''d'' @ concat (map (\<lambda>(k, t). itoa (int (length k)) @ '':'' @ k @ t) (map (map_prod id (benc rd)) m))
     @ ''e''"
| "benc rd AOther = []"

text \<open>
  The values the package can print and read back: integers that fit Go's \<^verbatim>\<open>int\<close>, strings whose length
  does, maps with sorted distinct keys (every Go map in our representation), no other dynamic type.
\<close>

primrec encodable :: "('b \<Rightarrow> bytes) \<Rightarrow> 'b any \<Rightarrow> bool" where
  "encodable rd (AInt k) = is_int64 k"
| "encodable rd (AString s) = is_int64 (int (length s))"
| "encodable rd (ABytes b) = is_int64 (int (length (rd b)))"
| "encodable rd (AList xs) = list_all id (map (encodable rd) xs)"
| "encodable rd (AMap m) =
     (map_wf m \<and> list_all (\<lambda>(k, ok). is_int64 (int (length k)) \<and> ok) (map (map_prod id (encodable rd)) m))"
| "encodable rd AOther = False"

text \<open>Reading forgets the difference between \<^verbatim>\<open>string\<close> and \<^verbatim>\<open>[]byte\<close>: both come back as bytes.\<close>

primrec norm_any :: "('b \<Rightarrow> bytes) \<Rightarrow> 'b any \<Rightarrow> bytes any" where
  "norm_any rd (AInt k) = AInt k"
| "norm_any rd (AString s) = ABytes s"
| "norm_any rd (ABytes b) = ABytes (rd b)"
| "norm_any rd (AList xs) = AList (map (norm_any rd) xs)"
| "norm_any rd (AMap m) = AMap (map (map_prod id (norm_any rd)) m)"
| "norm_any rd AOther = AOther"

lemma encode_map_loop_suffix:
  assumes "\<And>k v b. (k, v) \<in> set m \<Longrightarrow> encode_any rd b v = Ok (b @ benc rd v)"
    and "map_wf m" "set n \<subseteq> set m"
  shows "encode_map_loop rd b (map fst n) m =
     Ok (b @ concat (map (\<lambda>(k, t). itoa (int (length k)) @ '':'' @ k @ t) (map (map_prod id (benc rd)) n)) @ ''e'')"
  using assms(3)
proof (induction n arbitrary: b)
  case (Cons e n)
  obtain k v where e: "e = (k, v)" by (cases e)
  with Cons.prems have "(k, v) \<in> set m" by simp
  with assms(2) have "map_of m k = Some v" by (simp add: map_wf_distinct)
  with assms(1) [OF \<open>(k, v) \<in> set m\<close>] Cons show ?case by (simp add: e encode_string_def)
qed simp

lemma encode_any_benc: "encodable rd v \<Longrightarrow> encode_any rd b v = Ok (b @ benc rd v)"
proof (induction v arbitrary: b)
  case (AList xs)
  have "encode_list_loop rd b ys = Ok (b @ concat (map (benc rd) ys) @ ''e'')" if "set ys \<subseteq> set xs" for b ys
    using that AList by (induction ys arbitrary: b) (auto simp: list_all_iff)
  then show ?case by simp
next
  case (AMap m)
  have "encode_any rd b v = Ok (b @ benc rd v)" if "(k, v) \<in> set m" for k v b
    using AMap that by (fastforce simp: list_all_iff)
  with AMap.prems show ?case
    using encode_map_loop_suffix [of m rd m "b @ ''d''"] by (simp add: sort_keys_wf)
qed (simp_all add: encode_int_def encode_string_def encode_bytes_def)

lemma bencode_benc: "encodable rd v \<Longrightarrow> bencode rd v = Ok (benc rd v)"
  by (simp add: bencode_def encode_any_benc)

section \<open>The decoder reads the canonical bencoding back\<close>

lemma nth_append_at [simp]: "(xs @ y # ys) ! length xs = y"
  by (simp add: nth_append)

lemma itoa_len_digit: "is_digit (hd (itoa (int n)))"
  using hd_nat_str_digit [of n] by (simp add: itoa_def)

lemma itoa_nonempty [simp]: "itoa k \<noteq> []"
  by (simp add: itoa_def)

lemma decode_bytes_canonical:
  assumes "is_int64 (int (length s))"
  shows "decode_bytes (pre @ itoa (int (length s)) @ CHR '':'' # s @ post) (length pre) =
     (let st = length pre + length (itoa (int (length s))) + 1 in Ok ((st, st + length s), st + length s))"
  using assms by (simp add: decode_bytes_def atoi_itoa Let_def)

lemma decode_any_string:
  assumes "is_int64 (int (length s))"
  shows "decode_any (pre @ itoa (int (length s)) @ CHR '':'' # s @ post) (length pre) =
     (let st = length pre + length (itoa (int (length s))) + 1 in Ok (ABytes (st, st + length s), st + length s))"
proof -
  let ?buf = "pre @ itoa (int (length s)) @ CHR '':'' # s @ post"
  have "?buf ! length pre = hd (itoa (int (length s)))"
    by (cases "itoa (int (length s))") (simp_all add: nth_append)
  then have "is_digit (?buf ! length pre)" by (simp add: itoa_len_digit)
  then show ?thesis
    using decode_bytes_canonical [OF assms, of pre post] digit_not_special
    by (subst decode_any.simps) (auto simp: Let_def)
qed

lemma decode_any_int:
  "is_int64 k \<Longrightarrow> decode_any (pre @ CHR ''i'' # itoa k @ CHR ''e'' # post) (length pre) =
     Ok (AInt k, length pre + length (itoa k) + 2)"
  by (subst decode_any.simps) (simp add: decode_int_def atoi_itoa Let_def)


lemma benc_head: "encodable rd v \<Longrightarrow> benc rd v \<noteq> [] \<and> hd (benc rd v) \<noteq> CHR ''e''"
  using itoa_len_digit digit_not_special by (cases v) auto

lemma nth_benc_head:
  "encodable rd v \<Longrightarrow> (pre @ benc rd v @ post) ! length pre \<noteq> CHR ''e''"
  using benc_head [of rd v] by (cases "benc rd v") (auto simp: nth_append)

definition reads_back :: "('b \<Rightarrow> bytes) \<Rightarrow> 'b any \<Rightarrow> bool" where
  "reads_back rd v \<longleftrightarrow> (\<forall>pre post. \<exists>w.
     decode_any (pre @ benc rd v @ post) (length pre) = Ok (w, length pre + length (benc rd v))
     \<and> map_any (span_read (pre @ benc rd v @ post)) w = norm_any rd v)"

lemma reads_backE:
  assumes "reads_back rd v"
  obtains w where
    "decode_any (pre @ benc rd v @ post) (length pre) = Ok (w, length pre + length (benc rd v))"
    "map_any (span_read (pre @ benc rd v @ post)) w = norm_any rd v"
  using assms unfolding reads_back_def by blast

lemma decode_list_loop_benc:
  assumes "\<And>v. v \<in> set ys \<Longrightarrow> reads_back rd v \<and> encodable rd v"
  shows "\<exists>ws. decode_list_loop (pre @ concat (map (benc rd) ys) @ CHR ''e'' # post) (length pre) ret =
       Ok (ret @ ws, length pre + length (concat (map (benc rd) ys)) + 1)
     \<and> map (map_any (span_read (pre @ concat (map (benc rd) ys) @ CHR ''e'' # post))) ws = map (norm_any rd) ys"
  using assms
proof (induction ys arbitrary: pre ret)
  case Nil
  then show ?case by (subst decode_list_loop_eq) simp
next
  case (Cons y ys)
  let ?rest = "concat (map (benc rd) ys) @ CHR ''e'' # post"
  have y: "reads_back rd y" "encodable rd y" using Cons.prems by auto
  obtain w where w: "decode_any (pre @ benc rd y @ ?rest) (length pre) = Ok (w, length pre + length (benc rd y))"
    "map_any (span_read (pre @ benc rd y @ ?rest)) w = norm_any rd y"
    by (rule reads_backE [OF y(1)])
  obtain ws where ws: "decode_list_loop ((pre @ benc rd y) @ ?rest) (length (pre @ benc rd y)) (ret @ [w]) =
       Ok ((ret @ [w]) @ ws, length (pre @ benc rd y) + length (concat (map (benc rd) ys)) + 1)"
     "map (map_any (span_read ((pre @ benc rd y) @ ?rest))) ws = map (norm_any rd) ys"
    using Cons.IH [of "pre @ benc rd y" "ret @ [w]"] Cons.prems by auto
  have "decode_list_loop (pre @ benc rd y @ ?rest) (length pre) ret =
      Ok (ret @ (w # ws), length pre + length (concat (map (benc rd) (y # ys))) + 1)"
    using w(1) ws(1) nth_benc_head [OF y(2), of pre ?rest] by (subst decode_list_loop_eq) simp
  then show ?case using w(2) ws(2) by (intro exI [of _ "w # ws"]) simp
qed

abbreviation entry_text :: "('b \<Rightarrow> bytes) \<Rightarrow> string \<times> 'b any \<Rightarrow> bytes" where
  "entry_text rd e \<equiv> itoa (int (length (fst e))) @ CHR '':'' # fst e @ benc rd (snd e)"

lemma benc_AMap: "benc rd (AMap m) = CHR ''d'' # concat (map (entry_text rd) m) @ ''e''"
  by (simp add: case_prod_unfold comp_def)

lemma decode_dict_loop_entry:
  assumes "reads_back rd v" "encodable rd v" "is_int64 (int (length k))"
  shows "\<exists>w. decode_dict_loop (pre @ entry_text rd (k, v) @ post) (length pre) True key ret =
       decode_dict_loop (pre @ entry_text rd (k, v) @ post) (length (pre @ entry_text rd (k, v))) True k (put k w ret)
     \<and> map_any (span_read (pre @ entry_text rd (k, v) @ post)) w = norm_any rd v"
proof -
  let ?kt = "itoa (int (length k)) @ CHR '':'' # k"
  let ?buf = "pre @ entry_text rd (k, v) @ post"
  have buf: "?buf = pre @ itoa (int (length k)) @ CHR '':'' # k @ (benc rd v @ post)"
    and buf': "?buf = (pre @ ?kt) @ benc rd v @ post" by simp_all
  obtain w where w: "decode_any ?buf (length (pre @ ?kt)) = Ok (w, length (pre @ ?kt) + length (benc rd v))"
    "map_any (span_read ?buf) w = norm_any rd v"
    unfolding buf' by (rule reads_backE [OF assms(1)])
  have d: "decode_any ?buf (length pre) = Ok (ABytes (length (pre @ ?kt) - length k, length (pre @ ?kt)), length (pre @ ?kt))"
    unfolding buf using decode_any_string [OF assms(3), of pre "benc rd v @ post"] by (simp add: Let_def)
  have k: "span_read ?buf (length (pre @ ?kt) - length k, length (pre @ ?kt)) = k"
    by (simp add: span_read_def sub_def)
  have h1: "?buf ! length pre \<noteq> CHR ''e''"
    using itoa_len_digit [of "length k"] digit_not_special
    by (cases "itoa (int (length k))") (auto simp: nth_append)
  have h2: "?buf ! length (pre @ ?kt) \<noteq> CHR ''e''"
    unfolding buf' by (rule nth_benc_head [OF assms(2)])
  have "decode_dict_loop ?buf (length pre) True key ret = decode_dict_loop ?buf (length (pre @ ?kt)) False k ret"
    using h1 d k by (subst decode_dict_loop_eq) simp
  also have "\<dots> = decode_dict_loop ?buf (length (pre @ entry_text rd (k, v))) True k (put k w ret)"
    using h2 w(1) benc_head [OF assms(2)] by (subst decode_dict_loop_eq) (simp add: add.assoc)
  finally show ?thesis using w(2) by blast
qed

lemma decode_dict_loop_benc:
  assumes "\<And>k v. (k, v) \<in> set n \<Longrightarrow> reads_back rd v \<and> encodable rd v \<and> is_int64 (int (length k))"
  shows "\<exists>ws. decode_dict_loop (pre @ concat (map (entry_text rd) n) @ CHR ''e'' # post) (length pre) True key ret =
       Ok (put_all ws ret, length pre + length (concat (map (entry_text rd) n)) + 1)
     \<and> map (map_prod id (map_any (span_read (pre @ concat (map (entry_text rd) n) @ CHR ''e'' # post)))) ws
       = map (map_prod id (norm_any rd)) n"
  using assms
proof (induction n arbitrary: pre key ret)
  case Nil
  then show ?case by (subst decode_dict_loop_eq) simp
next
  case (Cons e n)
  obtain k v where e: "e = (k, v)" by (cases e)
  let ?rest = "concat (map (entry_text rd) n) @ CHR ''e'' # post"
  let ?pre = "pre @ entry_text rd (k, v)"
  obtain w where w: "decode_dict_loop (?pre @ ?rest) (length pre) True key ret =
       decode_dict_loop (?pre @ ?rest) (length ?pre) True k (put k w ret)"
     "map_any (span_read (?pre @ ?rest)) w = norm_any rd v"
    using decode_dict_loop_entry [of rd v k pre ?rest key ret] Cons.prems e by auto
  have el: "reads_back rd v \<and> encodable rd v \<and> is_int64 (int (length k))" if "(k, v) \<in> set n" for k v
    using Cons.prems [of k v] that by simp
  obtain ws where ws: "decode_dict_loop (?pre @ ?rest) (length ?pre) True k (put k w ret) =
       Ok (put_all ws (put k w ret), length ?pre + length (concat (map (entry_text rd) n)) + 1)"
     "map (map_prod id (map_any (span_read (?pre @ ?rest)))) ws = map (map_prod id (norm_any rd)) n"
    using Cons.IH [OF el, of ?pre k "put k w ret"] by blast
  show ?case using w ws by (intro exI [of _ "(k, w) # ws"]) (simp add: e id_def)
qed

lemma encodable_reads_back: "encodable rd v \<Longrightarrow> reads_back rd v"
proof (induction v)
  case (AInt k)
  then show ?case by (simp add: reads_back_def decode_any_int)
next
  case (AString s)
  then show ?case
    by (simp add: reads_back_def decode_any_string Let_def span_read_def sub_def)
next
  case (ABytes b)
  then show ?case
    by (simp add: reads_back_def decode_any_string Let_def span_read_def sub_def)
next
  case (AList xs)
  then have el: "reads_back rd v \<and> encodable rd v" if "v \<in> set xs" for v
    using that by (auto simp: list_all_iff)
  show ?case unfolding reads_back_def
  proof (intro allI)
    fix pre post
    let ?buf = "(pre @ ''l'') @ concat (map (benc rd) xs) @ CHR ''e'' # post"
    obtain ws where "decode_list_loop ?buf (length (pre @ ''l'')) [] =
        Ok ([] @ ws, length (pre @ ''l'') + length (concat (map (benc rd) xs)) + 1)"
      "map (map_any (span_read ?buf)) ws = map (norm_any rd) xs"
      using decode_list_loop_benc [of xs rd "pre @ ''l''" post "[]"] el by blast
    then show "\<exists>w. decode_any (pre @ benc rd (AList xs) @ post) (length pre) =
          Ok (w, length pre + length (benc rd (AList xs)))
        \<and> map_any (span_read (pre @ benc rd (AList xs) @ post)) w = norm_any rd (AList xs)"
      by (intro exI [of _ "AList ws"]) (subst decode_any.simps, simp)
  qed
next
  case (AMap m)
  then have el: "reads_back rd v \<and> encodable rd v \<and> is_int64 (int (length k))" if "(k, v) \<in> set m" for k v
    using that by (fastforce simp: list_all_iff)
  show ?case unfolding reads_back_def
  proof (intro allI)
    fix pre post
    let ?buf = "(pre @ ''d'') @ concat (map (entry_text rd) m) @ CHR ''e'' # post"
    obtain ws where ws: "decode_dict_loop ?buf (length (pre @ ''d'')) True [] [] =
        Ok (put_all ws [], length (pre @ ''d'') + length (concat (map (entry_text rd) m)) + 1)"
      "map (map_prod id (map_any (span_read ?buf))) ws = map (map_prod id (norm_any rd)) m"
      using decode_dict_loop_benc [of m rd "pre @ ''d''" post "[]" "[]"] el by blast
    have "map fst ws = map fst m" using arg_cong [OF ws(2), of "map fst"] by (simp add: comp_def)
    with AMap.prems have "map_wf ws" by (simp add: map_wf_def)
    then have "put_all ws [] = ws" by (rule put_all_entries)
    with ws show "\<exists>w. decode_any (pre @ benc rd (AMap m) @ post) (length pre) =
          Ok (w, length pre + length (benc rd (AMap m)))
        \<and> map_any (span_read (pre @ benc rd (AMap m) @ post)) w = norm_any rd (AMap m)"
      unfolding benc_AMap by (intro exI [of _ "AMap ws"]) (subst decode_any.simps, simp)
  qed
qed simp


section \<open>What the decoder returns and how it fails\<close>

definition span_ok :: "bytes \<Rightarrow> span \<Rightarrow> bool" where
  "span_ok buf s \<longleftrightarrow> fst s \<le> snd s \<and> snd s \<le> length buf"

primrec any_ok :: "('b \<Rightarrow> bool) \<Rightarrow> 'b any \<Rightarrow> bool" where
  "any_ok ok (AInt k) = is_int64 k"
| "any_ok ok (AString s) = False"
| "any_ok ok (ABytes b) = ok b"
| "any_ok ok (AList xs) = list_all id (map (any_ok ok) xs)"
| "any_ok ok (AMap m) = (map_wf m \<and> list_all snd (map (map_prod id (any_ok ok)) m))"
| "any_ok ok AOther = False"

lemma decode_bytes_span: "decode_bytes buf pos = Ok (b, off) \<Longrightarrow> span_ok buf b"
  by (auto simp: decode_bytes_def Let_def obind_eq_Ok span_ok_def split: if_splits)

lemma decode_int_range: "decode_int buf pos = Ok (k, off) \<Longrightarrow> is_int64 k"
  by (auto simp: decode_int_def Let_def obind_eq_Ok split: if_splits dest: atoi_Ok_range)

lemma set_put_subset: "set (put k v m) \<subseteq> insert (k, v) (set m)"
  by (induction m) auto

lemma any_ok_put: "any_ok ok (AMap m) \<Longrightarrow> any_ok ok v \<Longrightarrow> any_ok ok (AMap (put k v m))"
  using set_put_subset [of k v m] by (auto simp: map_wf_put list_all_iff)

lemma decode_any_ok:
  "decode_any buf pos = Ok (v, off) \<Longrightarrow> any_ok (span_ok buf) v"
  "decode_list_loop buf i ret = Ok (xs, off') \<Longrightarrow> any_ok (span_ok buf) (AList ret)
     \<Longrightarrow> any_ok (span_ok buf) (AList xs)"
  "decode_dict_loop buf j isKey key m = Ok (m', off'') \<Longrightarrow> any_ok (span_ok buf) (AMap m)
     \<Longrightarrow> any_ok (span_ok buf) (AMap m')"
proof (induction buf pos and buf i ret and buf j isKey key m arbitrary: v off and xs off' and m' off''
    rule: decode_any_decode_list_loop_decode_dict_loop.induct)
  case (1 buf pos)
  from "1.prems" show ?case
    by (subst (asm) decode_any.simps)
      (auto simp: obind_eq_Ok split: if_splits dest: decode_int_range decode_bytes_span
        "1.IH"(1) "1.IH"(2))
next
  case (2 buf i ret)
  show ?case
  proof (cases "i < length buf \<and> buf ! i \<noteq> CHR ''e''")
    case True
    with "2.prems"(1) obtain item off where
      d: "decode_any buf i = Ok (item, off)" "i < off"
         "decode_list_loop buf off (ret @ [item]) = Ok (xs, off')"
      by (subst (asm) decode_list_loop.simps) (auto split: if_splits outcome.splits)
    from "2.IH"(1) [OF True d(1)] "2.prems"(2) have "any_ok (span_ok buf) (AList (ret @ [item]))" by simp
    from "2.IH"(2) [OF True d(1) refl d(2,3) this] show ?thesis .
  next
    case False
    with "2.prems" show ?thesis by (subst (asm) decode_list_loop.simps) auto
  qed
next
  case (3 buf i isKey key ret)
  show ?case
  proof (cases "i < length buf \<and> buf ! i \<noteq> CHR ''e''")
    case True
    with "3.prems"(1) obtain item off where
      d: "decode_any buf i = Ok (item, off)" "i < off"
      by (subst (asm) decode_dict_loop.simps) (auto split: if_splits outcome.splits)
    show ?thesis
    proof (cases isKey)
      case k: True
      with "3.prems"(1) True d obtain b where
        b: "item = ABytes b" "decode_dict_loop buf off False (span_read buf b) ret = Ok (m', off'')"
        by (subst (asm) decode_dict_loop.simps) (auto split: any.splits)
      from "3.IH"(2) [OF True d(1) refl d(2) k b "3.prems"(2)] show ?thesis .
    next
      case k: False
      with "3.prems"(1) True d have l: "decode_dict_loop buf off True key (put key item ret) = Ok (m', off'')"
        by (subst (asm) decode_dict_loop.simps) auto
      from "3.IH"(1) [OF True d(1)] "3.prems"(2) have "any_ok (span_ok buf) (AMap (put key item ret))"
        by (intro any_ok_put)
      from "3.IH"(3) [OF True d(1) refl d(2) k l this] show ?thesis .
    qed
  next
    case False
    with "3.prems" show ?thesis by (subst (asm) decode_dict_loop.simps) auto
  qed
qed

text \<open>
  The only run-time fault the decoder can raise is the type assertion on a dictionary key: every
  index and slice expression is in range.
\<close>

lemma takeWhile_nonempty_head: "xs \<noteq> [] \<Longrightarrow> P (hd xs) \<Longrightarrow> \<exists>ys. takeWhile P xs = hd xs # ys"
  by (cases xs) auto

lemma decode_bytes_no_panic:
  assumes "\<not> length buf \<le> pos" "is_digit (buf ! pos)"
  shows "decode_bytes buf pos \<noteq> Panic p"
proof -
  have hd: "hd (drop pos buf) = buf ! pos" using assms(1) by (simp add: hd_drop_conv_nth)
  obtain ds where "takeWhile (\<lambda>c. c \<noteq> CHR '':'') (drop pos buf) = buf ! pos # ds"
    using takeWhile_nonempty_head [of "drop pos buf" "\<lambda>c. c \<noteq> CHR '':''"] assms hd digit_not_special
    by auto
  with assms show ?thesis
    by (auto simp: decode_bytes_def Let_def obind_eq_Panic dest!: atoi_digit_nonneg split: if_splits)
qed

lemma decode_panic:
  "decode_any buf pos = Panic p \<Longrightarrow> p = BadTypeAssertion"
  "decode_list_loop buf i ret = Panic p' \<Longrightarrow> p' = BadTypeAssertion"
  "decode_dict_loop buf j isKey key m = Panic p'' \<Longrightarrow> p'' = BadTypeAssertion"
proof (induction buf pos and buf i ret and buf j isKey key m arbitrary: p and p' and p''
    rule: decode_any_decode_list_loop_decode_dict_loop.induct)
  case (1 buf pos)
  from "1.prems" show ?case
    by (subst (asm) decode_any.simps)
      (auto simp: obind_eq_Panic decode_int_def Let_def decode_bytes_no_panic split: if_splits
        dest: "1.IH"(1) "1.IH"(2))
next
  case (2 buf i ret)
  from "2.prems" show ?case
    by (subst (asm) decode_list_loop.simps)
      (auto split: if_splits outcome.splits dest: "2.IH"(1) [OF conjI] "2.IH"(2) [OF conjI _ refl])
next
  case (3 buf i isKey key ret)
  from "3.prems" show ?case
    by (subst (asm) decode_dict_loop.simps)
      (auto split: if_splits outcome.splits any.splits
        dest: "3.IH"(1) [OF conjI] "3.IH"(2) [OF conjI _ refl] "3.IH"(3) [OF conjI _ refl])
qed


section \<open>Dotted paths\<close>

text \<open>
  The intended meaning of a path: every component but the last selects a nested dictionary.
\<close>

fun strict_path :: "'b any \<Rightarrow> string list \<Rightarrow> 'b any option" where
  "strict_path m [] = Some m"
| "strict_path (AMap d) (p # ps) = (case map_of d p of None \<Rightarrow> None | Some m \<Rightarrow> strict_path m ps)"
| "strict_path m (p # ps) = None"

definition is_map :: "'b any \<Rightarrow> bool" where
  "is_map v \<longleftrightarrow> (\<exists>d. v = AMap d)"

lemma is_map_simps [simp]:
  "is_map (AMap d)" "\<not> is_map (AInt k)" "\<not> is_map (AString s)" "\<not> is_map (ABytes b)"
  "\<not> is_map (AList xs)" "\<not> is_map AOther"
  by (simp_all add: is_map_def)

lemma path_loop_strict:
  "path_loop m ps = Some v \<longleftrightarrow>
     strict_path m ps = Some v \<or> (ps \<noteq> [] \<and> strict_path m (butlast ps) = Some v \<and> \<not> is_map v)"
proof (induction m ps rule: path_loop.induct)
  case (2 d p ps)
  show ?case
  proof (cases "map_of d p")
    case None
    then show ?thesis by (cases ps) auto
  next
    case (Some m)
    with 2 [OF Some] show ?thesis by (cases ps) auto
  qed
qed auto

lemma check_loop_path_loop: "check_loop m ps \<longleftrightarrow> path_loop m ps \<noteq> None"
  by (induction m ps rule: check_loop.induct) (auto split: option.splits)

lemma split_on_no_sep: "c \<notin> set s \<Longrightarrow> split_on c s = [s]"
  by (induction s) auto

lemma split_on_append: "c \<notin> set s \<Longrightarrow> split_on c (s @ c # t) = s # split_on c t"
  by (induction s) auto

lemma split_on_nonempty [simp]: "split_on c s \<noteq> []"
  by (induction s) (auto split: list.splits)

lemma get_by_path_key:
  "CHR ''.'' \<notin> set k \<Longrightarrow> get_by_path d k = map_of d k"
  by (simp add: get_by_path_def split_on_no_sep split: option.split)

lemma get_by_path_two:
  "CHR ''.'' \<notin> set k \<Longrightarrow> CHR ''.'' \<notin> set l \<Longrightarrow>
   get_by_path d (k @ CHR ''.'' # l) =
     (case map_of d k of None \<Rightarrow> None | Some (AMap m) \<Rightarrow> map_of m l | Some v \<Rightarrow> Some v)"
  by (auto simp: get_by_path_def split_on_no_sep split_on_append split: option.split any.split)

text \<open>Path lookup and the integer accessor commute with a change of the byte representation.\<close>

lemma map_of_map_prod_id: "map_of (map (map_prod id f) m) k = map_option f (map_of m k)"
  by (induction m) auto

lemma map_any_AMap: "map_any f (AMap m) = AMap (map (map_prod id (map_any f)) m)"
  by simp

lemma path_loop_map_any: "path_loop (map_any f m) ps = map_option (map_any f) (path_loop m ps)"
  by (induction m ps rule: path_loop.induct) (auto simp: map_of_map_prod_id split: option.split)

lemma path_loop_norm: "path_loop (norm_any rd m) ps = map_option (norm_any rd) (path_loop m ps)"
  by (induction m ps rule: path_loop.induct) (auto simp: map_of_map_prod_id split: option.split)

lemma get_int_map_any: "get_int (map (map_prod id (map_any f)) d) key = get_int d key"
  using path_loop_map_any [of f "AMap d" "split_on CHR ''.'' key"]
  by (auto simp: get_int_def get_by_path_def split: option.split any.split)

lemma get_int_norm: "get_int (map (map_prod id (norm_any rd)) d) key = get_int d key"
  using path_loop_norm [of rd "AMap d" "split_on CHR ''.'' key"]
  by (auto simp: get_int_def get_by_path_def split: option.split any.split)

lemma bdecode_dict_benc:
  assumes "encodable rd (AMap d)"
  obtains m where "bdecode_dict (benc rd (AMap d) @ post) = Ok (m, length (benc rd (AMap d)))"
    "map (map_prod id (map_any (span_read (benc rd (AMap d) @ post)))) m = map (map_prod id (norm_any rd)) d"
    "\<And>key. get_int m key = get_int d key"
proof -
  let ?t = "benc rd (AMap d) @ post"
  obtain w where w: "decode_any ([] @ benc rd (AMap d) @ post) (length ([] :: bytes))
      = Ok (w, length ([] :: bytes) + length (benc rd (AMap d)))"
    "map_any (span_read ([] @ benc rd (AMap d) @ post)) w = norm_any rd (AMap d)"
    by (rule reads_backE [OF encodable_reads_back [OF assms]])
  from w(2) obtain m where m: "w = AMap m" by (cases w) auto
  have t: "?t ! 0 = CHR ''d''" "?t \<noteq> []" by simp_all
  have "decode_any ?t 0 = obind (decode_dict_loop ?t 1 True [] []) (\<lambda>(m, off). Ok (AMap m, off))"
    by (subst decode_any.simps) (simp only: t, simp add: is_digit_def)
  with w(1) m have 1: "bdecode_dict ?t = Ok (m, length (benc rd (AMap d)))"
    by (simp only: append_Nil list.size add_0 bdecode_dict_def decode_dict_def) (auto simp: obind_eq_Ok)
  have 2: "map (map_prod id (map_any (span_read ?t))) m = map (map_prod id (norm_any rd)) d"
    using w(2) by (simp only: append_Nil m map_any_AMap norm_any.simps any.inject)
  have "get_int m key = get_int d key" for key
    using arg_cong [OF 2, of "\<lambda>x. get_int x key"] by (simp only: get_int_map_any get_int_norm)
  with 1 2 show thesis by (rule that)
qed

section \<open>Properties\<close>

text \<open>
  Property C6. Round trip: every value of the supported dynamic types is encoded without an error
  into the canonical bencoding, and decoding that text gives the value back (a Go string comes back
  as its bytes).
\<close>

theorem bencode_roundtrip:
  assumes "encodable rd v"
  shows "bencode rd v = Ok (benc rd v) \<and>
     (\<exists>w. bdecode (benc rd v) = Ok w \<and> map_any (span_read (benc rd v)) w = norm_any rd v)"
proof -
  obtain w where "decode_any ([] @ benc rd v @ []) (length ([] :: bytes)) = Ok (w, length ([] :: bytes) + length (benc rd v))"
    "map_any (span_read ([] @ benc rd v @ [])) w = norm_any rd v"
    by (rule reads_backE [OF encodable_reads_back [OF assms]])
  then show ?thesis using encode_any_benc [OF assms, of "[]"] by (simp add: bencode_def bdecode_def)
qed

theorem bencode_roundtrip_witness:
  "\<exists>w. bdecode (benc id (AMap [(''a'', AList [AInt (-7), AString ''xy'']), (''b'', ABytes ''z'')])) = Ok w \<and>
     map_any (span_read (benc id (AMap [(''a'', AList [AInt (-7), AString ''xy'']), (''b'', ABytes ''z'')]))) w
       = AMap [(''a'', AList [AInt (-7), ABytes ''xy'']), (''b'', ABytes ''z'')]"
proof -
  have "encodable id (AMap [(''a'', AList [AInt (-7), AString ''xy'']), (''b'', ABytes ''z'')])"
    by (simp add: is_int64_def int64_min_def int64_max_def less_char_def)
  from bencode_roundtrip [OF this] show ?thesis by simp
qed

text \<open>
  The decoder terminates on every input: its loops satisfy the equations of the source,
  each iteration continuing strictly behind the position it started from, and every result lies
  strictly behind the position the decoder was called with.
\<close>

lemma decoder_loops_advance:
  "decode_list_loop buf i ret =
     (if i < length buf \<and> buf ! i \<noteq> CHR ''e''
      then obind (decode_any buf i) (\<lambda>(item, off). decode_list_loop buf off (ret @ [item]))
      else Ok (ret, i + 1))
   \<and> decode_dict_loop buf i isKey key m =
     (if i < length buf \<and> buf ! i \<noteq> CHR ''e''
      then obind (decode_any buf i) (\<lambda>(item, off).
             if isKey
             then case item of
                    ABytes b \<Rightarrow> decode_dict_loop buf off False (span_read buf b) m
                  | _ \<Rightarrow> Panic BadTypeAssertion
             else decode_dict_loop buf off True key (put key item m))
      else Ok (m, i + 1))
   \<and> (case decode_any buf i of Ok (v, off) \<Rightarrow> i < off | _ \<Rightarrow> True)"
  using decode_list_loop_eq decode_dict_loop_eq decode_progress(1)
  by (auto split: outcome.splits)

text \<open>
  Property C13. On arbitrary input bytes the decoder either reports an error, or panics on the type
  assertion of a dictionary key, or returns a value in which every byte slice lies inside the input,
  every integer fits Go's 64-bit \<^verbatim>\<open>int\<close> and every map is well formed; no index or slice expression is
  ever out of range.
\<close>

theorem bdecode_safe:
  "case bdecode buf of
     Ok v \<Rightarrow> any_ok (span_ok buf) v
   | Err e \<Rightarrow> True
   | Panic p \<Rightarrow> p = BadTypeAssertion"
  using decode_any_ok(1) decode_panic(1)
  by (auto simp: bdecode_def obind_eq_Ok obind_eq_Panic split: outcome.split)

text \<open>
  A dictionary whose first key is an integer makes the decoder panic, whatever follows:
  the key is asserted to be a byte slice without a check.
\<close>

lemma bdecode_integer_key_panics:
  assumes "is_int64 k"
  shows "bdecode (''di'' @ itoa k @ ''e'' @ rest) = Panic BadTypeAssertion"
proof -
  let ?buf = "''d'' @ CHR ''i'' # itoa k @ CHR ''e'' # rest"
  have "decode_any ?buf (length ''d'') = Ok (AInt k, length ''d'' + length (itoa k) + 2)"
    by (rule decode_any_int [OF assms])
  then have "decode_dict_loop ?buf 1 True [] [] = Panic BadTypeAssertion"
    by (subst decode_dict_loop_eq) simp
  then show ?thesis by (simp add: bdecode_def decode_any.simps)
qed

lemma bdecode_integer_key_panics_example:
  "bdecode (''di'' @ itoa 1 @ ''e'' @ ''i2ee'') = Panic BadTypeAssertion"
  by (rule bdecode_integer_key_panics) (simp add: is_int64_def int64_min_def int64_max_def)

text \<open>
  What a dotted path finds: \<^verbatim>\<open>GetByPath\<close> returns the value that the nested
  dictionaries hold at the path, and also a value that is not a dictionary when it sits one component
  above the end of the path; \<^verbatim>\<open>CheckMapPath\<close> is true exactly when \<^verbatim>\<open>GetByPath\<close> finds something.
\<close>

lemma get_by_path_spec:
  "(get_by_path d path = Some v \<longleftrightarrow>
      strict_path (AMap d) (split_on CHR ''.'' path) = Some v \<or>
      (strict_path (AMap d) (butlast (split_on CHR ''.'' path)) = Some v \<and> \<not> is_map v))
   \<and> (check_map_path d path \<longleftrightarrow> get_by_path d path \<noteq> None)"
  by (simp add: get_by_path_def check_map_path_def path_loop_strict check_loop_path_loop)

end
