(* ===== verification/Bencode_Layout.thy ===== *)
theory Bencode_Layout
  imports Bencode
begin

text \<open>
  Where the decoder's byte slices lie in its input. \<^verbatim>\<open>decode.go\<close> returns windows of the buffer it reads,
  and the handlers of the crawler write into some of them; the lemmas show that two different values of
  a decoded dictionary never share a byte of the buffer, so that such a write leaves the others alone.
\<close>

section \<open>Layout of a decoded value\<close>

definition apart_spans :: "span \<Rightarrow> span \<Rightarrow> bool" where
  "apart_spans s u \<longleftrightarrow> snd s \<le> fst u \<or> snd u \<le> fst s"

definition apart :: "span any \<Rightarrow> span any \<Rightarrow> bool" where
  "apart v w \<longleftrightarrow> (\<forall>s \<in> set_any v. \<forall>u \<in> set_any w. apart_spans s u)"

text \<open>Every slice of the value lies between two positions.\<close>

definition within :: "nat \<Rightarrow> nat \<Rightarrow> span any \<Rightarrow> bool" where
  "within lo hi v \<longleftrightarrow> (\<forall>s \<in> set_any v. lo \<le> fst s \<and> snd s \<le> hi)"

fun laid_out :: "span any \<Rightarrow> bool" where
  "laid_out (AList xs) \<longleftrightarrow> list_all laid_out xs \<and> sorted_wrt apart xs"
| "laid_out (AMap m) \<longleftrightarrow> list_all (\<lambda>e. laid_out (snd e)) m
     \<and> (\<forall>e \<in> set m. \<forall>f \<in> set m. fst e \<noteq> fst f \<longrightarrow> apart (snd e) (snd f))"
| "laid_out v \<longleftrightarrow> True"

lemma within_mono: "within lo hi v \<Longrightarrow> lo' \<le> lo \<Longrightarrow> hi \<le> hi' \<Longrightarrow> within lo' hi' v"
  by (fastforce simp: within_def)

lemma within_apart: "within lo mid v \<Longrightarrow> within mid hi w \<Longrightarrow> apart v w"
  by (fastforce simp: within_def apart_def apart_spans_def)

lemma apart_commute: "apart v w \<longleftrightarrow> apart w v"
  by (auto simp: apart_def apart_spans_def)

lemma within_AList: "within lo hi (AList xs) \<longleftrightarrow> list_all (within lo hi) xs"
  by (auto simp: within_def list_all_iff)

lemma set_any_AMap: "set_any (AMap m) = (\<Union>e \<in> set m. set_any (snd e))"
  by force

lemma within_AMap: "within lo hi (AMap m) \<longleftrightarrow> list_all (\<lambda>e. within lo hi (snd e)) m"
  unfolding within_def list_all_iff set_any_AMap by blast

lemma within_leaf [simp]: "within lo hi (AInt k)" "within lo hi (ABytes b) \<longleftrightarrow> lo \<le> fst b \<and> snd b \<le> hi"
  by (simp_all add: within_def)

lemma laid_out_append:
  assumes "laid_out (AList xs)" "within lo i (AList xs)" "laid_out v" "within i off v" "lo \<le> i" "i \<le> off"
  shows "laid_out (AList (xs @ [v])) \<and> within lo off (AList (xs @ [v]))"
  using assms within_apart [of lo i _ off v]
  by (auto simp: within_AList list_all_iff sorted_wrt_append intro: within_mono)

lemma laid_out_put:
  assumes "laid_out (AMap m)" "within lo i (AMap m)" "laid_out v" "within i off v" "lo \<le> i" "i \<le> off"
  shows "laid_out (AMap (put k v m)) \<and> within lo off (AMap (put k v m))"
proof -
  have a: "apart (snd e) v" if "e \<in> set m" for e
    using assms(2,4) that within_apart by (auto simp: within_AMap list_all_iff)
  have s: "e = (k, v) \<or> e \<in> set m" if "e \<in> set (put k v m)" for e using set_put_subset [of k v m] that by blast
  have "within lo off v" using assms(4,5) by (rule within_mono) simp
  moreover have "within lo off (snd e)" if "e \<in> set m" for e
    using assms(2,6) that by (auto simp: within_AMap list_all_iff intro: within_mono)
  moreover have "apart (snd e) (snd f)" if "e \<in> set (put k v m)" "f \<in> set (put k v m)" "fst e \<noteq> fst f" for e f
    using s [OF that(1)] s [OF that(2)] that(3) a [of e] a [of f] apart_commute [of v "snd f"] assms(1) by auto
  ultimately show ?thesis using s assms(1,3) by (fastforce simp: within_AMap list_all_iff)
qed

section \<open>The decoder\<close>

lemma decode_bytes_within: "decode_bytes buf pos = Ok (b, off) \<Longrightarrow> pos \<le> fst b \<and> snd b \<le> off"
  by (auto simp: decode_bytes_def Let_def obind_eq_Ok split: if_splits)

lemma decode_laid_out:
  "decode_any buf pos = Ok (v, off) \<Longrightarrow> laid_out v \<and> within pos off v"
  "decode_list_loop buf i ret = Ok (xs, off') \<Longrightarrow> laid_out (AList ret) \<Longrightarrow> within lo i (AList ret) \<Longrightarrow> lo \<le> i
     \<Longrightarrow> laid_out (AList xs) \<and> within lo off' (AList xs)"
  "decode_dict_loop buf j isKey key m = Ok (m', off'') \<Longrightarrow> laid_out (AMap m) \<Longrightarrow> within lo' j (AMap m) \<Longrightarrow> lo' \<le> j
     \<Longrightarrow> laid_out (AMap m') \<and> within lo' off'' (AMap m')"
proof (induction buf pos and buf i ret and buf j isKey key m arbitrary: v off and xs off' lo and m' off'' lo'
    rule: decode_any_decode_list_loop_decode_dict_loop.induct)
  case (1 buf pos)
  have l: "laid_out (AList xs) \<and> within pos o' (AList xs)"
    if "\<not> length buf \<le> pos" "buf ! pos \<noteq> CHR ''i''" "\<not> is_digit (buf ! pos)" "buf ! pos = CHR ''l''"
      "decode_list_loop buf (pos + 1) [] = Ok (xs, o')" for xs o'
    using "1.IH"(1) [OF that, of pos] by (simp add: within_def)
  have d: "laid_out (AMap m) \<and> within pos o' (AMap m)"
    if "\<not> length buf \<le> pos" "buf ! pos \<noteq> CHR ''i''" "\<not> is_digit (buf ! pos)" "buf ! pos \<noteq> CHR ''l''" "buf ! pos = CHR ''d''"
      "decode_dict_loop buf (pos + 1) True [] [] = Ok (m, o')" for m o'
    using "1.IH"(2) [OF that, of pos] by (simp add: within_def)
  from "1.prems" l d show ?case
    by (subst (asm) decode_any.simps)
      (auto simp: obind_eq_Ok split: if_splits dest: decode_bytes_within)
next
  case (2 buf i ret)
  show ?case
  proof (cases "i < length buf \<and> buf ! i \<noteq> CHR ''e''")
    case True
    with "2.prems"(1) obtain item off where
      d: "decode_any buf i = Ok (item, off)" "i < off"
         "decode_list_loop buf off (ret @ [item]) = Ok (xs, off')"
      by (subst (asm) decode_list_loop.simps) (auto split: if_splits outcome.splits)
    have "laid_out (AList (ret @ [item])) \<and> within lo off (AList (ret @ [item]))"
      by (rule laid_out_append [OF "2.prems"(2,3)]) (use "2.IH"(1) [OF True d(1)] d(2) "2.prems"(4) in auto)
    then show ?thesis using "2.IH"(2) [OF True d(1) refl d(2,3)] d(2) "2.prems"(4) by auto
  next
    case False
    with "2.prems" show ?thesis by (subst (asm) decode_list_loop.simps) (auto intro: within_mono)
  qed
next
  case (3 buf i isKey key ret)
  show ?case
  proof (cases "i < length buf \<and> buf ! i \<noteq> CHR ''e''")
    case True
    with "3.prems"(1) obtain item off where d: "decode_any buf i = Ok (item, off)" "i < off"
      by (subst (asm) decode_dict_loop.simps) (auto split: if_splits outcome.splits)
    show ?thesis
    proof (cases isKey)
      case k: True
      with "3.prems"(1) True d obtain b where
        b: "item = ABytes b" "decode_dict_loop buf off False (span_read buf b) ret = Ok (m', off'')"
        by (subst (asm) decode_dict_loop.simps) (auto split: any.splits)
      have "within lo' off (AMap ret)" using "3.prems"(3) d(2) by (auto intro: within_mono)
      then show ?thesis using "3.IH"(2) [OF True d(1) refl d(2) k b "3.prems"(2)] d(2) "3.prems"(4) by auto
    next
      case k: False
      with "3.prems"(1) True d have l: "decode_dict_loop buf off True key (put key item ret) = Ok (m', off'')"
        by (subst (asm) decode_dict_loop.simps) auto
      have p: "laid_out (AMap (put key item ret)) \<and> within lo' off (AMap (put key item ret))"
        by (rule laid_out_put [OF "3.prems"(2,3)]) (use "3.IH"(1) [OF True d(1)] d(2) "3.prems"(4) in auto)
      have "lo' \<le> off" using d(2) "3.prems"(4) by simp
      with p show ?thesis by (intro "3.IH"(3) [OF True d(1) refl d(2) k l]) blast+
    qed
  next
    case False
    with "3.prems" show ?thesis by (subst (asm) decode_dict_loop.simps) (auto intro: within_mono)
  qed
qed

lemma bdecode_laid_out: "bdecode buf = Ok v \<Longrightarrow> laid_out v"
  by (auto simp: bdecode_def obind_eq_Ok dest: decode_laid_out(1))

text \<open>The values of two different keys, at any depth, are apart.\<close>

lemma laid_out_keys:
  assumes "laid_out (AMap m)" "map_of m k = Some v" "map_of m l = Some w" "k \<noteq> l"
  shows "apart v w"
  using assms by (fastforce dest!: map_of_SomeD)

lemma laid_out_value: "laid_out (AMap m) \<Longrightarrow> map_of m k = Some v \<Longrightarrow> laid_out v"
  by (auto simp: list_all_iff dest!: map_of_SomeD)

end
