(* ===== verification/Bencode_Grammar.thy ===== *)
theory Bencode_Grammar
  imports Bencode
begin

text \<open>
  The language that \<^verbatim>\<open>decode.go\<close> accepts, as a grammar. The rules speak of texts and not of positions in a
  buffer; the theorem is that the decoder accepts exactly the buffers that begin with a text of the
  grammar, and returns the value the grammar gives it. The grammar shows where the decoder is more
  generous than the format: a text may stop before its closing brackets if the buffer ends there, a key
  without a value is dropped, keys may repeat and come in any order, and numbers may carry signs and zeros.
\<close>

section \<open>The grammar\<close>

text \<open>
  \<open>written v s cut\<close>: the text \<open>s\<close> is a text of \<open>v\<close>; \<open>cut\<close> says that closing brackets are missing at its end.
  The entries of a dictionary are those of the text in their order; the last of several entries with one
  key counts.
\<close>

inductive written :: "bytes any \<Rightarrow> bytes \<Rightarrow> bool \<Rightarrow> bool"
  and written_items :: "bytes any list \<Rightarrow> bytes \<Rightarrow> bool \<Rightarrow> bool"
  and written_entries :: "(string \<times> bytes any) list \<Rightarrow> bytes \<Rightarrow> bool \<Rightarrow> bool"
where
  w_int: "atoi ds = Ok k \<Longrightarrow> CHR ''e'' \<notin> set ds \<Longrightarrow> written (AInt k) (''i'' @ ds @ ''e'') False"
| w_int_cut: "atoi ds = Ok k \<Longrightarrow> CHR ''e'' \<notin> set ds \<Longrightarrow> written (AInt k) (''i'' @ ds) True"
| w_bytes: "atoi ds = Ok (int (length b)) \<Longrightarrow> CHR '':'' \<notin> set ds \<Longrightarrow> ds \<noteq> [] \<Longrightarrow> is_digit (hd ds)
    \<Longrightarrow> written (ABytes b) (ds @ '':'' @ b) False"
| w_list: "written_items xs s False \<Longrightarrow> written (AList xs) (''l'' @ s @ ''e'') False"
| w_list_cut: "written_items xs s c \<Longrightarrow> written (AList xs) (''l'' @ s) True"
| w_dict: "written_entries kvs s False \<Longrightarrow> written (AMap (put_all kvs [])) (''d'' @ s @ ''e'') False"
| w_dict_cut: "written_entries kvs s c \<Longrightarrow> written (AMap (put_all kvs [])) (''d'' @ s) True"
| w_nil: "written_items [] [] False"
| w_cons: "written x s False \<Longrightarrow> written_items xs s' c \<Longrightarrow> written_items (x # xs) (s @ s') c"
| w_last_cut: "written x s True \<Longrightarrow> written_items [x] s True"
| w_none: "written_entries [] [] False"
| w_dangling: "written (ABytes k) s False \<Longrightarrow> written_entries [] s False"
| w_entry: "written (ABytes k) s False \<Longrightarrow> written v s' False \<Longrightarrow> written_entries kvs s'' c
    \<Longrightarrow> written_entries ((k, v) # kvs) (s @ s' @ s'') c"
| w_entry_cut: "written (ABytes k) s False \<Longrightarrow> written v s' True \<Longrightarrow> written_entries [(k, v)] (s @ s') True"

inductive_cases written_bytesE: "written (ABytes k) s c"

lemma written_head:
  "written v s c \<Longrightarrow> s \<noteq> [] \<and> hd s \<noteq> CHR ''e''"
  "written_items xs t d \<Longrightarrow> True" "written_entries kvs u e \<Longrightarrow> True"
  by (induction rule: written_written_items_written_entries.inducts) (auto simp: hd_append dest: digit_not_special)

lemma written_key: "written (ABytes k) s c \<Longrightarrow> \<not> c"
  by (auto elim: written_bytesE)

section \<open>Every text of the grammar is read\<close>

text \<open>Where reading a text ends: behind it, or, if it is cut, at or behind the end of the buffer.\<close>

definition ends :: "bytes \<Rightarrow> nat \<Rightarrow> bytes \<Rightarrow> bool \<Rightarrow> nat \<Rightarrow> bool" where
  "ends buf pos s c off \<longleftrightarrow> (if c then length buf \<le> off else off = pos + length s)"

text \<open>The loops stop at a closing bracket or at the end of the buffer.\<close>

definition stops :: "bytes \<Rightarrow> bool" where
  "stops post \<longleftrightarrow> post = [] \<or> hd post = CHR ''e''"

definition read_any :: "bytes any \<Rightarrow> bytes \<Rightarrow> bool \<Rightarrow> bool" where
  "read_any w s c \<longleftrightarrow> (\<forall>pre post. (c \<longrightarrow> post = []) \<longrightarrow> (\<exists>v off. decode_any (pre @ s @ post) (length pre) = Ok (v, off)
     \<and> map_any (span_read (pre @ s @ post)) v = w \<and> ends (pre @ s @ post) (length pre) s c off))"

definition read_items :: "bytes any list \<Rightarrow> bytes \<Rightarrow> bool \<Rightarrow> bool" where
  "read_items xs s c \<longleftrightarrow> (\<forall>pre post ret. (c \<longrightarrow> post = []) \<longrightarrow> stops post \<longrightarrow> (\<exists>vs off.
     decode_list_loop (pre @ s @ post) (length pre) ret = Ok (ret @ vs, off + 1)
     \<and> map (map_any (span_read (pre @ s @ post))) vs = xs \<and> ends (pre @ s @ post) (length pre) s c off))"

definition read_entries :: "(string \<times> bytes any) list \<Rightarrow> bytes \<Rightarrow> bool \<Rightarrow> bool" where
  "read_entries kvs s c \<longleftrightarrow> (\<forall>pre post key ret. (c \<longrightarrow> post = []) \<longrightarrow> stops post \<longrightarrow> (\<exists>vs off.
     decode_dict_loop (pre @ s @ post) (length pre) True key ret = Ok (put_all vs ret, off + 1)
     \<and> map (map_prod id (map_any (span_read (pre @ s @ post)))) vs = kvs \<and> ends (pre @ s @ post) (length pre) s c off))"

lemma read_anyE:
  assumes "read_any w s c" "c \<longrightarrow> post = []"
  obtains v off where "decode_any (pre @ s @ post) (length pre) = Ok (v, off)"
    "map_any (span_read (pre @ s @ post)) v = w" "ends (pre @ s @ post) (length pre) s c off"
  using assms unfolding read_any_def by blast

lemma read_itemsE:
  assumes "read_items xs s c" "c \<longrightarrow> post = []" "stops post"
  obtains vs off where "decode_list_loop (pre @ s @ post) (length pre) ret = Ok (ret @ vs, off + 1)"
    "map (map_any (span_read (pre @ s @ post))) vs = xs" "ends (pre @ s @ post) (length pre) s c off"
  using assms unfolding read_items_def by blast

lemma read_entriesE:
  assumes "read_entries kvs s c" "c \<longrightarrow> post = []" "stops post"
  obtains vs off where "decode_dict_loop (pre @ s @ post) (length pre) True key ret = Ok (put_all vs ret, off + 1)"
    "map (map_prod id (map_any (span_read (pre @ s @ post)))) vs = kvs" "ends (pre @ s @ post) (length pre) s c off"
  using assms unfolding read_entries_def by blast

lemma map_put: "map (map_prod id f) (put k v m) = put k (f v) (map (map_prod id f) m)"
  by (induction m) auto

lemma map_put_all: "map (map_prod id f) (put_all kvs m) = put_all (map (map_prod id f) kvs) (map (map_prod id f) m)"
proof (induction kvs arbitrary: m)
  case (Cons e kvs)
  then show ?case by (cases e) (simp add: map_put [unfolded id_def])
qed simp

subsection \<open>Scalars\<close>

lemma read_int:
  assumes "atoi ds = Ok k" "CHR ''e'' \<notin> set ds"
  shows "read_any (AInt k) (''i'' @ ds @ ''e'') False" "read_any (AInt k) (''i'' @ ds) True"
proof -
  have t: "takeWhile (\<lambda>c. c \<noteq> CHR ''e'') (ds @ CHR ''e'' # post) = ds" "takeWhile (\<lambda>c. c \<noteq> CHR ''e'') ds = ds" for post
    using assms(2) by (auto simp: takeWhile_append2 takeWhile_eq_all_conv)
  have "decode_any (pre @ (''i'' @ ds @ ''e'') @ post) (length pre) = Ok (AInt k, length pre + length (''i'' @ ds @ ''e''))"
    "decode_any (pre @ (''i'' @ ds) @ []) (length pre) = Ok (AInt k, length (pre @ ''i'' @ ds) + 1)" for pre post
    using assms(1) by (subst decode_any.simps, simp add: decode_int_def Let_def t)+
  then show "read_any (AInt k) (''i'' @ ds @ ''e'') False" "read_any (AInt k) (''i'' @ ds) True"
    by (auto simp: read_any_def ends_def)
qed

lemma read_bytes:
  assumes "atoi ds = Ok (int (length b))" "CHR '':'' \<notin> set ds" "ds \<noteq> []" "is_digit (hd ds)"
  shows "read_any (ABytes b) (ds @ '':'' @ b) False"
proof -
  have d: "is_digit ((pre @ ds @ post) ! length pre)" for pre post
    using assms(3,4) by (cases ds) (auto simp: nth_append)
  have n: "(pre @ ds @ post) ! length pre \<noteq> CHR ''i''" for pre post using d [of pre post] digit_not_special by auto
  have t: "takeWhile (\<lambda>c. c \<noteq> CHR '':'') (ds @ CHR '':'' # post) = ds" for post
    using assms(2) by (simp add: takeWhile_append2 takeWhile_eq_all_conv)
  let ?at = "\<lambda>pre. length pre + length ds + 1"
  have "decode_any (pre @ (ds @ '':'' @ b) @ post) (length pre) = Ok (ABytes (?at pre, ?at pre + length b), ?at pre + length b)" for pre post
    using assms(1) d n t by (subst decode_any.simps) (simp add: decode_bytes_def Let_def)
  moreover have "span_read (pre @ (ds @ '':'' @ b) @ post) (?at pre, ?at pre + length b) = b" for pre post
    by (simp add: span_read_def sub_def)
  ultimately show ?thesis by (auto simp: read_any_def ends_def)
qed

subsection \<open>Lists\<close>

lemma nth_here: "s \<noteq> [] \<Longrightarrow> (pre @ s @ post) ! length pre = hd s"
  by (cases s) (simp_all add: nth_append)

lemma loops_stop:
  assumes "length buf \<le> i \<or> buf ! i = CHR ''e''"
  shows "decode_list_loop buf i ret = Ok (ret, i + 1)" "decode_dict_loop buf i isKey key m = Ok (m, i + 1)"
  using assms by (auto simp: decode_list_loop_eq [of buf i] decode_dict_loop_eq [of buf i])

lemma stops_at: "stops post \<Longrightarrow> length (pre @ post) \<le> length pre \<or> (pre @ post) ! length pre = CHR ''e''"
  by (cases post) (auto simp: stops_def)

lemma read_nil: "read_items [] [] False"
  using loops_stop(1) [OF stops_at] by (auto simp: read_items_def ends_def)

lemma read_cons:
  assumes "read_any x s False" "read_items xs s' c" "s \<noteq> []" "hd s \<noteq> CHR ''e''"
  shows "read_items (x # xs) (s @ s') c"
  unfolding read_items_def
proof (intro allI impI)
  fix pre post ret assume post: "c \<longrightarrow> post = []" "stops post"
  let ?buf = "pre @ (s @ s') @ post"
  obtain v where v: "decode_any ?buf (length pre) = Ok (v, length pre + length s)" "map_any (span_read ?buf) v = x"
    using read_anyE [OF assms(1), of "s' @ post" pre] by (auto simp: ends_def)
  obtain vs off where vs: "decode_list_loop ?buf (length (pre @ s)) (ret @ [v]) = Ok ((ret @ [v]) @ vs, off + 1)"
    "map (map_any (span_read ?buf)) vs = xs" "ends ?buf (length (pre @ s)) s' c off"
    using read_itemsE [OF assms(2) post, of "pre @ s" "ret @ [v]"] by auto
  have "decode_list_loop ?buf (length pre) ret = Ok (ret @ v # vs, off + 1)"
    using v(1) vs(1) assms(3,4) nth_here [OF assms(3), of pre "s' @ post"] by (subst decode_list_loop_eq) simp
  moreover have "map (map_any (span_read ?buf)) (v # vs) = x # xs" "ends ?buf (length pre) (s @ s') c off"
    using v(2) vs(2,3) by (auto simp: ends_def split: if_splits)
  ultimately show "\<exists>vs off. decode_list_loop ?buf (length pre) ret = Ok (ret @ vs, off + 1)
      \<and> map (map_any (span_read ?buf)) vs = x # xs \<and> ends ?buf (length pre) (s @ s') c off" by (intro exI conjI)
qed

lemma read_last_cut:
  assumes "read_any x s True" "s \<noteq> []" "hd s \<noteq> CHR ''e''"
  shows "read_items [x] s True"
  unfolding read_items_def
proof (intro allI impI)
  fix pre post :: bytes and ret assume "True \<longrightarrow> post = []"
  then have post: "post = []" by simp
  obtain v off where v: "decode_any (pre @ s @ post) (length pre) = Ok (v, off)" "map_any (span_read (pre @ s @ post)) v = x"
    "length (pre @ s @ post) \<le> off"
    using read_anyE [OF assms(1), of post pre] post by (auto simp: ends_def)
  have "decode_list_loop (pre @ s @ post) (length pre) ret = Ok (ret @ [v], off + 1)"
    using v(1,3) assms(2,3) nth_here [OF assms(2), of pre post] by (subst decode_list_loop_eq) (simp add: loops_stop)
  then show "\<exists>vs off. decode_list_loop (pre @ s @ post) (length pre) ret = Ok (ret @ vs, off + 1)
      \<and> map (map_any (span_read (pre @ s @ post))) vs = [x] \<and> ends (pre @ s @ post) (length pre) s True off"
    using v(2,3) by (intro exI [of _ "[v]"]) (auto simp: ends_def)
qed

lemma read_list:
  assumes "read_items xs s c"
  shows "\<not> c \<Longrightarrow> read_any (AList xs) (''l'' @ s @ ''e'') False" "read_any (AList xs) (''l'' @ s) True"
proof -
  have d: "decode_any ((pre @ ''l'') @ s @ post) (length pre) = Ok (AList vs, off)"
    if "decode_list_loop ((pre @ ''l'') @ s @ post) (length (pre @ ''l'')) [] = Ok ([] @ vs, off)" for pre post vs off
    using that by (subst decode_any.simps) simp
  show "read_any (AList xs) (''l'' @ s @ ''e'') False" if nc: "\<not> c"
    unfolding read_any_def
  proof (intro allI impI)
    fix pre post
    obtain vs off where vs: "decode_list_loop ((pre @ ''l'') @ s @ CHR ''e'' # post) (length (pre @ ''l'')) [] = Ok ([] @ vs, off + 1)"
      "map (map_any (span_read ((pre @ ''l'') @ s @ CHR ''e'' # post))) vs = xs" "off = length (pre @ ''l'') + length s"
      by (rule read_itemsE [OF assms, of "CHR ''e'' # post" "pre @ ''l''" "[]"]) (use nc in \<open>simp_all add: stops_def ends_def\<close>)
    then show "\<exists>v off. decode_any (pre @ (''l'' @ s @ ''e'') @ post) (length pre) = Ok (v, off)
        \<and> map_any (span_read (pre @ (''l'' @ s @ ''e'') @ post)) v = AList xs
        \<and> ends (pre @ (''l'' @ s @ ''e'') @ post) (length pre) (''l'' @ s @ ''e'') False off"
      using d [OF vs(1)] by (intro exI [of _ "AList vs"] exI [of _ "off + 1"]) (simp add: ends_def)
  qed
  show "read_any (AList xs) (''l'' @ s) True"
    unfolding read_any_def
  proof (intro allI impI)
    fix pre post :: bytes assume "True \<longrightarrow> post = []"
    then have post: "post = []" by simp
    obtain vs off where vs: "decode_list_loop ((pre @ ''l'') @ s @ []) (length (pre @ ''l'')) [] = Ok ([] @ vs, off + 1)"
      "map (map_any (span_read ((pre @ ''l'') @ s @ []))) vs = xs" "ends ((pre @ ''l'') @ s @ []) (length (pre @ ''l'')) s c off"
      using read_itemsE [OF assms, of "[]" "pre @ ''l''" "[]"] by (auto simp: stops_def)
    then show "\<exists>v off. decode_any (pre @ (''l'' @ s) @ post) (length pre) = Ok (v, off)
        \<and> map_any (span_read (pre @ (''l'' @ s) @ post)) v = AList xs
        \<and> ends (pre @ (''l'' @ s) @ post) (length pre) (''l'' @ s) True off"
      using d [OF vs(1)] post by (intro exI [of _ "AList vs"] exI [of _ "off + 1"]) (auto simp: ends_def split: if_splits)
  qed
qed

subsection \<open>Dictionaries\<close>

text \<open>A key is read and the loop waits for its value.\<close>

lemma read_key:
  assumes "read_any (ABytes k) s False" "s \<noteq> []" "hd s \<noteq> CHR ''e''"
  shows "decode_dict_loop (pre @ s @ post) (length pre) True key ret = decode_dict_loop (pre @ s @ post) (length (pre @ s)) False k ret"
proof -
  obtain v where v: "decode_any (pre @ s @ post) (length pre) = Ok (v, length (pre @ s))" "map_any (span_read (pre @ s @ post)) v = ABytes k"
    using read_anyE [OF assms(1), of post pre] by (auto simp: ends_def)
  then obtain b where "v = ABytes b" "span_read (pre @ s @ post) b = k" by (cases v) auto
  with v(1) assms(2,3) nth_here [OF assms(2), of pre post] show ?thesis by (subst decode_dict_loop_eq) simp
qed

text \<open>A value is read and stored under the key.\<close>

lemma read_value:
  assumes "read_any w s c" "s \<noteq> []" "hd s \<noteq> CHR ''e''" "c \<longrightarrow> post = []"
  obtains v off where "decode_dict_loop (pre @ s @ post) (length pre) False key ret = decode_dict_loop (pre @ s @ post) off True key (put key v ret)"
    "map_any (span_read (pre @ s @ post)) v = w" "ends (pre @ s @ post) (length pre) s c off"
proof -
  obtain v off where v: "decode_any (pre @ s @ post) (length pre) = Ok (v, off)" "map_any (span_read (pre @ s @ post)) v = w"
    "ends (pre @ s @ post) (length pre) s c off"
    by (rule read_anyE [OF assms(1,4)])
  have "decode_dict_loop (pre @ s @ post) (length pre) False key ret = decode_dict_loop (pre @ s @ post) off True key (put key v ret)"
    using v(1) assms(2,3) nth_here [OF assms(2), of pre post] by (subst decode_dict_loop_eq) simp
  then show thesis using v(2,3) by (rule that)
qed

lemma read_none: "read_entries [] [] False"
  using loops_stop(2) [OF stops_at] by (auto simp: read_entries_def ends_def)

lemma read_dangling:
  assumes "read_any (ABytes k) s False" "s \<noteq> []" "hd s \<noteq> CHR ''e''"
  shows "read_entries [] s False"
  using read_key [OF assms] loops_stop(2) [OF stops_at, of _ "_ @ s"] by (auto simp: read_entries_def ends_def)

lemma read_entry:
  assumes key: "read_any (ABytes k) s False" "s \<noteq> []" "hd s \<noteq> CHR ''e''"
    and val: "read_any w s' False" "s' \<noteq> []" "hd s' \<noteq> CHR ''e''" and rest: "read_entries kvs s'' c"
  shows "read_entries ((k, w) # kvs) (s @ s' @ s'') c"
  unfolding read_entries_def
proof (intro allI impI)
  fix pre post key' ret assume post: "c \<longrightarrow> post = []" "stops post"
  let ?buf = "pre @ (s @ s' @ s'') @ post"
  have 1: "decode_dict_loop ?buf (length pre) True key' ret = decode_dict_loop ?buf (length (pre @ s)) False k ret"
    using read_key [OF key, of pre "s' @ s'' @ post"] by simp
  obtain v where v: "decode_dict_loop ?buf (length (pre @ s)) False k ret = decode_dict_loop ?buf (length (pre @ s @ s')) True k (put k v ret)"
    "map_any (span_read ?buf) v = w"
    using read_value [OF val, of "s'' @ post" "pre @ s" k ret] by (auto simp: ends_def add.assoc)
  obtain vs off where vs: "decode_dict_loop ?buf (length (pre @ s @ s')) True k (put k v ret) = Ok (put_all vs (put k v ret), off + 1)"
    "map (map_prod id (map_any (span_read ?buf))) vs = kvs" "ends ?buf (length (pre @ s @ s')) s'' c off"
    using read_entriesE [OF rest post, of "pre @ s @ s'" k "put k v ret"] by auto
  have "decode_dict_loop ?buf (length pre) True key' ret = Ok (put_all ((k, v) # vs) ret, off + 1)"
    using 1 v(1) vs(1) by simp
  moreover have "map (map_prod id (map_any (span_read ?buf))) ((k, v) # vs) = (k, w) # kvs" using v(2) vs(2) by simp
  moreover have "ends ?buf (length pre) (s @ s' @ s'') c off" using vs(3) by (auto simp: ends_def split: if_splits)
  ultimately show "\<exists>vs off. decode_dict_loop ?buf (length pre) True key' ret = Ok (put_all vs ret, off + 1)
      \<and> map (map_prod id (map_any (span_read ?buf))) vs = (k, w) # kvs \<and> ends ?buf (length pre) (s @ s' @ s'') c off"
    by (intro exI conjI)
qed

lemma read_entry_cut:
  assumes key: "read_any (ABytes k) s False" "s \<noteq> []" "hd s \<noteq> CHR ''e''"
    and val: "read_any w s' True" "s' \<noteq> []" "hd s' \<noteq> CHR ''e''"
  shows "read_entries [(k, w)] (s @ s') True"
  unfolding read_entries_def
proof (intro allI impI)
  fix pre post key' ret assume "True \<longrightarrow> post = ([] :: bytes)"
  then have post: "post = []" by simp
  let ?buf = "pre @ (s @ s') @ post"
  have 1: "decode_dict_loop ?buf (length pre) True key' ret = decode_dict_loop ?buf (length (pre @ s)) False k ret"
    using read_key [OF key, of pre "s' @ post"] by simp
  obtain v off where v: "decode_dict_loop ?buf (length (pre @ s)) False k ret = decode_dict_loop ?buf off True k (put k v ret)"
    "map_any (span_read ?buf) v = w" "length ?buf \<le> off"
    by (rule read_value [OF val, of post "pre @ s" k ret]) (use post in \<open>simp_all add: ends_def\<close>)
  have "decode_dict_loop ?buf (length pre) True key' ret = Ok (put_all [(k, v)] ret, off + 1)"
    using 1 v(1,3) by (simp add: loops_stop)
  then show "\<exists>vs off. decode_dict_loop ?buf (length pre) True key' ret = Ok (put_all vs ret, off + 1)
      \<and> map (map_prod id (map_any (span_read ?buf))) vs = [(k, w)] \<and> ends ?buf (length pre) (s @ s') True off"
    using v(2,3) by (intro exI [of _ "[(k, v)]"] exI [of _ off]) (simp add: ends_def)
qed

lemma read_dict:
  assumes "read_entries kvs s c"
  shows "\<not> c \<Longrightarrow> read_any (AMap (put_all kvs [])) (''d'' @ s @ ''e'') False" "read_any (AMap (put_all kvs [])) (''d'' @ s) True"
proof -
  have d: "decode_any ((pre @ ''d'') @ s @ post) (length pre) = Ok (AMap vs, off)"
    if "decode_dict_loop ((pre @ ''d'') @ s @ post) (length (pre @ ''d'')) True [] [] = Ok (vs, off)" for pre post vs off
    using that by (subst decode_any.simps) simp
  have m: "map_any f (AMap (put_all vs [])) = AMap (put_all (map (map_prod id (map_any f)) vs) [])" for f and vs :: "(string \<times> span any) list"
    by (simp add: map_any_AMap map_put_all)
  show "read_any (AMap (put_all kvs [])) (''d'' @ s @ ''e'') False" if nc: "\<not> c"
    unfolding read_any_def
  proof (intro allI impI)
    fix pre post
    let ?buf = "(pre @ ''d'') @ s @ CHR ''e'' # post"
    obtain vs off where vs: "decode_dict_loop ?buf (length (pre @ ''d'')) True [] [] = Ok (put_all vs [], off + 1)"
      "map (map_prod id (map_any (span_read ?buf))) vs = kvs" "off = length (pre @ ''d'') + length s"
      by (rule read_entriesE [OF assms, of "CHR ''e'' # post" "pre @ ''d''" "[]" "[]"]) (use nc in \<open>simp_all add: stops_def ends_def\<close>)
    then show "\<exists>v off. decode_any (pre @ (''d'' @ s @ ''e'') @ post) (length pre) = Ok (v, off)
        \<and> map_any (span_read (pre @ (''d'' @ s @ ''e'') @ post)) v = AMap (put_all kvs [])
        \<and> ends (pre @ (''d'' @ s @ ''e'') @ post) (length pre) (''d'' @ s @ ''e'') False off"
      using d [OF vs(1)] m [of "span_read ?buf" vs]
      by (intro exI [of _ "AMap (put_all vs [])"] exI [of _ "off + 1"]) (simp add: ends_def)
  qed
  show "read_any (AMap (put_all kvs [])) (''d'' @ s) True"
    unfolding read_any_def
  proof (intro allI impI)
    fix pre post :: bytes assume "True \<longrightarrow> post = []"
    then have post: "post = []" by simp
    let ?buf = "(pre @ ''d'') @ s @ []"
    obtain vs off where vs: "decode_dict_loop ?buf (length (pre @ ''d'')) True [] [] = Ok (put_all vs [], off + 1)"
      "map (map_prod id (map_any (span_read ?buf))) vs = kvs" "ends ?buf (length (pre @ ''d'')) s c off"
      by (rule read_entriesE [OF assms, of "[]" "pre @ ''d''" "[]" "[]"]) (simp_all add: stops_def)
    then show "\<exists>v off. decode_any (pre @ (''d'' @ s) @ post) (length pre) = Ok (v, off)
        \<and> map_any (span_read (pre @ (''d'' @ s) @ post)) v = AMap (put_all kvs [])
        \<and> ends (pre @ (''d'' @ s) @ post) (length pre) (''d'' @ s) True off"
      using d [OF vs(1)] m [of "span_read ?buf" vs] post
      by (intro exI [of _ "AMap (put_all vs [])"] exI [of _ "off + 1"]) (auto simp: ends_def split: if_splits)
  qed
qed

lemma written_read:
  "written w s c \<Longrightarrow> read_any w s c"
  "written_items xs t d \<Longrightarrow> read_items xs t d"
  "written_entries kvs u e \<Longrightarrow> read_entries kvs u e"
proof (induction rule: written_written_items_written_entries.inducts)
  case (w_list xs s)
  show ?case by (rule read_list(1) [OF w_list.IH]) simp
next
  case (w_dict kvs s)
  show ?case by (rule read_dict(1) [OF w_dict.IH]) simp
qed (blast intro: read_int read_bytes read_list(2) read_dict(2) read_nil read_cons read_last_cut read_none
    read_entry read_entry_cut read_dangling dest: written_head(1))+

section \<open>Everything that is read is a text of the grammar\<close>

lemma decode_int_written:
  assumes "decode_int buf pos = Ok (k, off)" "pos < length buf" "buf ! pos = CHR ''i''"
  shows "\<exists>s c post. drop pos buf = s @ post \<and> written (AInt k) s c \<and> (c \<longrightarrow> post = []) \<and> ends buf pos s c off"
proof -
  define ds post where "ds = takeWhile (\<lambda>c. c \<noteq> CHR ''e'') (drop (pos + 1) buf)"
    and "post = dropWhile (\<lambda>c. c \<noteq> CHR ''e'') (drop (pos + 1) buf)"
  note def = this
  have k: "atoi ds = Ok k" "off = pos + 1 + length ds + 1"
    using assms(1,2) by (auto simp: decode_int_def Let_def obind_eq_Ok ds_def split: if_splits)
  have e: "CHR ''e'' \<notin> set ds" by (auto simp: ds_def dest: set_takeWhileD)
  have "drop (pos + 1) buf = ds @ post" by (simp add: def)
  then have buf: "drop pos buf = ''i'' @ ds @ post" using assms(2,3) by (simp add: Cons_nth_drop_Suc [symmetric])
  show ?thesis
  proof (cases post)
    case Nil
    have "length buf - pos = 1 + length ds" using arg_cong [OF buf, of length] Nil by simp
    with k(2) have "ends buf pos (''i'' @ ds) True off" by (simp add: ends_def)
    then show ?thesis using buf Nil w_int_cut [OF k(1) e] by (intro exI [of _ "''i'' @ ds"] exI [of _ True] exI [of _ "[]"]) simp
  next
    case (Cons c post')
    then have "c = CHR ''e''"
      using hd_dropWhile [of "\<lambda>c. c \<noteq> CHR ''e''" "drop (pos + 1) buf"] unfolding post_def by simp
    then show ?thesis using buf Cons w_int [OF k(1) e] k(2)
      by (intro exI [of _ "''i'' @ ds @ ''e''"] exI [of _ False] exI [of _ post']) (simp add: ends_def)
  qed
qed

lemma decode_bytes_written:
  assumes "decode_bytes buf pos = Ok (b, off)" "pos < length buf" "is_digit (buf ! pos)"
  shows "\<exists>s post. drop pos buf = s @ post \<and> written (ABytes (span_read buf b)) s False \<and> off = pos + length s"
proof -
  define ds post where "ds = takeWhile (\<lambda>c. c \<noteq> CHR '':'') (drop pos buf)"
    and "post = dropWhile (\<lambda>c. c \<noteq> CHR '':'') (drop pos buf)"
  note def = this
  have buf: "drop pos buf = ds @ post" by (simp add: def)
  obtain l where l: "atoi ds = Ok l" "int (pos + length ds) + l + 1 \<le> int (length buf)" "0 \<le> l"
    "b = (pos + length ds + 1, pos + length ds + nat l + 1)" "off = pos + length ds + nat l + 1"
    using assms(1,2) unfolding decode_bytes_def Let_def ds_def by (fastforce simp: obind_eq_Ok split: if_split_asm)
  have len: "length buf = pos + length ds + length post" using arg_cong [OF buf, of length] assms(2) by simp
  with l(2,3) have "post \<noteq> []" by auto
  then obtain rest where post: "post = CHR '':'' # rest"
    using hd_dropWhile [of "\<lambda>c. c \<noteq> CHR '':''" "drop pos buf"] unfolding post_def by (metis (full_types) list.collapse)
  have n: "nat l \<le> length rest" using len l(2,3) post by simp
  have drp: "drop (pos + length ds + 1) buf = rest"
    using arg_cong [OF buf, of "drop (length ds + 1)"] post by (simp add: add.commute)
  have sp: "span_read buf b = take (nat l) rest" using l(4) drp by (simp add: span_read_def sub_def)
  obtain ds' where ds': "ds = buf ! pos # ds'"
    using takeWhile_nonempty_head [of "drop pos buf" "\<lambda>c. c \<noteq> CHR '':''"] assms(2,3) digit_not_special
    by (auto simp: ds_def hd_drop_conv_nth)
  have "CHR '':'' \<notin> set ds" by (auto simp: ds_def dest: set_takeWhileD)
  then have "written (ABytes (take (nat l) rest)) (ds @ '':'' @ take (nat l) rest) False"
    by (intro w_bytes) (use l(1,3) n ds' assms(3) in simp_all)
  then show ?thesis using buf post sp l(5) n
    by (intro exI [of _ "ds @ '':'' @ take (nat l) rest"] exI [of _ "drop (nat l) rest"]) simp
qed

text \<open>What follows a position up to which a text was read.\<close>

lemma drop_behind: "drop pos buf = s @ post \<Longrightarrow> drop (pos + length s) buf = post"
  by (metis append_eq_conv_conj drop_drop add.commute)

lemma drop_stops: "\<not> (i < length buf \<and> buf ! i \<noteq> CHR ''e'') \<Longrightarrow> stops (drop i buf)"
  by (cases "i < length buf") (auto simp: stops_def hd_drop_conv_nth)

lemma ends_append: "ends buf (pos + length s) s' c off \<longleftrightarrow> ends buf pos (s @ s') c off"
  by (simp add: ends_def add.assoc)

definition from_any :: "bytes \<Rightarrow> nat \<Rightarrow> bytes any \<Rightarrow> nat \<Rightarrow> bool" where
  "from_any buf pos w off \<longleftrightarrow>
     (\<exists>s c post. drop pos buf = s @ post \<and> written w s c \<and> (c \<longrightarrow> post = []) \<and> ends buf pos s c off)"

definition from_items :: "bytes \<Rightarrow> nat \<Rightarrow> bytes any list \<Rightarrow> nat \<Rightarrow> bool" where
  "from_items buf pos ws off \<longleftrightarrow>
     (\<exists>s c post. drop pos buf = s @ post \<and> written_items ws s c \<and> (c \<longrightarrow> post = []) \<and> stops post \<and> ends buf pos s c off)"

text \<open>\<open>ks\<close> is the text of a key that waits for its value.\<close>

definition from_entries :: "bytes \<Rightarrow> nat \<Rightarrow> bytes \<Rightarrow> (string \<times> bytes any) list \<Rightarrow> nat \<Rightarrow> bool" where
  "from_entries buf pos ks ws off \<longleftrightarrow>
     (\<exists>s c post. drop pos buf = s @ post \<and> written_entries ws (ks @ s) c \<and> (c \<longrightarrow> post = []) \<and> stops post \<and> ends buf pos s c off)"

lemma from_items_cons:
  assumes "from_any buf i w off" "from_items buf off ws off'" "length buf \<le> off \<longrightarrow> ws = [] \<and> off' = off"
  shows "from_items buf i (w # ws) off'"
proof -
  obtain s c post where s: "drop i buf = s @ post" "written w s c" "c \<longrightarrow> post = []" "ends buf i s c off"
    using assms(1) by (auto simp: from_any_def)
  show ?thesis
  proof (cases c)
    case True
    with s assms(3) w_last_cut [of w s] show ?thesis
      by (auto simp: from_items_def ends_def stops_def intro!: exI [of _ s] exI [of _ True])
  next
    case False
    then have off: "off = i + length s" using s(4) by (simp add: ends_def)
    obtain s' c' post' where r: "drop off buf = s' @ post'" "written_items ws s' c'" "c' \<longrightarrow> post' = []" "stops post'" "ends buf off s' c' off'"
      using assms(2) by (auto simp: from_items_def)
    have "drop i buf = (s @ s') @ post'" using drop_behind [OF s(1)] off r(1) s(1) by simp
    moreover have "written_items (w # ws) (s @ s') c'" using w_cons [of w s ws s' c'] s(2) r(2) False by simp
    moreover have "ends buf i (s @ s') c' off'" using r(5) unfolding off ends_append .
    ultimately show ?thesis using r(3,4) unfolding from_items_def by blast
  qed
qed

lemma from_any_key:
  assumes "from_any buf i (ABytes k) off"
  obtains ks where "written (ABytes k) ks False" "off = i + length ks" "drop i buf = ks @ drop off buf"
proof -
  obtain s c post where s: "drop i buf = s @ post" "written (ABytes k) s c" "ends buf i s c off"
    using assms by (auto simp: from_any_def)
  have "\<not> c" by (rule written_key [OF s(2)])
  with s drop_behind [OF s(1)] show thesis by (intro that [of s]) (auto simp: ends_def)
qed

lemma from_entries_key:
  assumes "drop i buf = ks @ drop (i + length ks) buf" "from_entries buf (i + length ks) ks ws off'"
  shows "from_entries buf i [] ws off'"
proof -
  obtain s c post where s: "drop (i + length ks) buf = s @ post" "written_entries ws (ks @ s) c" "c \<longrightarrow> post = []" "stops post"
    "ends buf i (ks @ s) c off'"
    using assms(2) by (auto simp: from_entries_def ends_append)
  have "drop i buf = (ks @ s) @ post" using assms(1) unfolding s(1) by simp
  with s(2-5) show ?thesis unfolding from_entries_def by (intro exI [of _ "ks @ s"] exI [of _ c] exI [of _ post]) simp
qed

lemma from_entries_value:
  assumes "from_any buf i w off" "from_entries buf off [] ws off'" "length buf \<le> off \<longrightarrow> ws = [] \<and> off' = off"
    and "written (ABytes k) ks False"
  shows "from_entries buf i ks ((k, w) # ws) off'"
proof -
  obtain s c post where s: "drop i buf = s @ post" "written w s c" "c \<longrightarrow> post = []" "ends buf i s c off"
    using assms(1) by (auto simp: from_any_def)
  show ?thesis
  proof (cases c)
    case True
    with s assms(3) w_entry_cut [OF assms(4), of w s] show ?thesis
      by (auto simp: from_entries_def ends_def stops_def intro!: exI [of _ s] exI [of _ True])
  next
    case False
    then have off: "off = i + length s" using s(4) by (simp add: ends_def)
    obtain s' c' post' where r: "drop off buf = s' @ post'" "written_entries ws s' c'" "c' \<longrightarrow> post' = []" "stops post'" "ends buf off s' c' off'"
      using assms(2) by (auto simp: from_entries_def)
    have "drop i buf = (s @ s') @ post'" using drop_behind [OF s(1)] off r(1) s(1) by simp
    moreover have "written_entries ((k, w) # ws) (ks @ s @ s') c'" using w_entry [OF assms(4) _ r(2), of w s] s(2) False by simp
    moreover have "ends buf i (s @ s') c' off'" using r(5) unfolding off ends_append .
    ultimately show ?thesis using r(3,4) unfolding from_entries_def by blast
  qed
qed

text \<open>A bracket: the loop's text with the bracket that opens it, and the one that closes it if there is one.\<close>

lemma from_bracket:
  assumes "pos < length buf" "buf ! pos = b" "drop (pos + 1) buf = s @ post" "c \<longrightarrow> post = []" "stops post" "ends buf (pos + 1) s c off"
    and "\<not> c \<Longrightarrow> written w (b # s @ ''e'') False" "written w (b # s) True"
  shows "from_any buf pos w (off + 1)"
proof -
  have buf: "drop pos buf = b # s @ post" using assms(1-3) by (simp add: Cons_nth_drop_Suc [symmetric])
  show ?thesis
  proof (cases post)
    case Nil
    have "length buf \<le> off" using assms(6) arg_cong [OF buf, of length] Nil by (auto simp: ends_def split: if_splits)
    then show ?thesis using buf Nil assms(8) unfolding from_any_def
      by (intro exI [of _ "b # s"] exI [of _ True] exI [of _ "[]"]) (simp add: ends_def)
  next
    case (Cons e post')
    with assms(4,5) have "\<not> c" "e = CHR ''e''" by (auto simp: stops_def)
    then show ?thesis using buf Cons assms(6,7) unfolding from_any_def
      by (intro exI [of _ "b # s @ ''e''"] exI [of _ False] exI [of _ post']) (simp add: ends_def)
  qed
qed

lemma from_list:
  assumes "pos < length buf" "buf ! pos = CHR ''l''" "from_items buf (pos + 1) ws e"
  shows "from_any buf pos (AList ws) (e + 1)"
proof -
  obtain s c post where s: "drop (pos + 1) buf = s @ post" "written_items ws s c" "c \<longrightarrow> post = []" "stops post" "ends buf (pos + 1) s c e"
    using assms(3) by (auto simp: from_items_def)
  show ?thesis
    by (rule from_bracket [OF assms(1,2) s(1,3-5)]) (use w_list [of ws s] w_list_cut [OF s(2)] s(2) in auto)
qed

lemma from_dict:
  assumes "pos < length buf" "buf ! pos = CHR ''d''" "from_entries buf (pos + 1) [] ws e"
  shows "from_any buf pos (AMap (put_all ws [])) (e + 1)"
proof -
  obtain s c post where s: "drop (pos + 1) buf = s @ post" "written_entries ws s c" "c \<longrightarrow> post = []" "stops post" "ends buf (pos + 1) s c e"
    using assms(3) by (auto simp: from_entries_def)
  show ?thesis
    by (rule from_bracket [OF assms(1,2) s(1,3-5)]) (use w_dict [of ws s] w_dict_cut [OF s(2)] s(2) in auto)
qed

text \<open>The loops stop where they are.\<close>

lemma from_stop:
  assumes "\<not> (i < length buf \<and> buf ! i \<noteq> CHR ''e'')"
  shows "from_items buf i [] i" "if isKey then ks = [] else written (ABytes key) ks False \<Longrightarrow> from_entries buf i ks [] i"
  using drop_stops [OF assms] w_nil w_none w_dangling [of key ks] unfolding from_items_def from_entries_def
  by (intro exI [of _ "[]"] exI [of _ False] exI [of _ "drop i buf"]; auto simp: ends_def split: if_splits)+

lemma decode_from:
  "decode_any buf pos = Ok (v, off) \<Longrightarrow> from_any buf pos (map_any (span_read buf) v) off"
  "decode_list_loop buf i ret = Ok (xs, off') \<Longrightarrow>
     \<exists>vs e. xs = ret @ vs \<and> off' = e + 1 \<and> from_items buf i (map (map_any (span_read buf)) vs) e \<and> (length buf \<le> i \<longrightarrow> vs = [] \<and> e = i)"
  "decode_dict_loop buf j isKey key m = Ok (m', off'') \<Longrightarrow> (if isKey then ks = [] else written (ABytes key) ks False) \<Longrightarrow>
     \<exists>vs e. m' = put_all vs m \<and> off'' = e + 1 \<and> from_entries buf j ks (map (map_prod id (map_any (span_read buf))) vs) e
       \<and> (length buf \<le> j \<longrightarrow> vs = [] \<and> e = j)"
proof (induction buf pos and buf i ret and buf j isKey key m arbitrary: v off and xs off' and m' off'' ks
    rule: decode_any_decode_list_loop_decode_dict_loop.induct)
  case (1 buf pos)
  let ?rd = "map_any (span_read buf)"
  have pos: "pos < length buf" using "1.prems" by (subst (asm) decode_any.simps) (auto split: if_splits)
  consider (int) k where "buf ! pos = CHR ''i''" "decode_int buf pos = Ok (k, off)" "v = AInt k"
    | (bytes) b where "is_digit (buf ! pos)" "decode_bytes buf pos = Ok (b, off)" "v = ABytes b"
    | (list) xs where "buf ! pos \<noteq> CHR ''i''" "\<not> is_digit (buf ! pos)" "buf ! pos = CHR ''l''"
        "decode_list_loop buf (pos + 1) [] = Ok (xs, off)" "v = AList xs"
    | (dict) m where "buf ! pos \<noteq> CHR ''i''" "\<not> is_digit (buf ! pos)" "buf ! pos \<noteq> CHR ''l''" "buf ! pos = CHR ''d''"
        "decode_dict_loop buf (pos + 1) True [] [] = Ok (m, off)" "v = AMap m"
    using "1.prems" by (subst (asm) decode_any.simps) (auto simp: obind_eq_Ok split: if_splits)
  then show ?case
  proof cases
    case int
    then show ?thesis using decode_int_written [OF int(2) pos int(1)] by (simp add: from_any_def)
  next
    case bytes
    then show ?thesis using decode_bytes_written [OF bytes(2) pos bytes(1)] by (auto simp: from_any_def ends_def)
  next
    case list
    obtain vs e where vs: "xs = [] @ vs" "off = e + 1" "from_items buf (pos + 1) (map ?rd vs) e"
      using "1.IH"(1) [OF _ list(1-4)] pos by auto
    have "from_any buf pos (AList (map ?rd vs)) (e + 1)" by (rule from_list [OF pos list(3) vs(3)])
    then show ?thesis using vs list(5) by simp
  next
    case dict
    let ?ws = "map (map_prod id ?rd)"
    obtain vs e where vs: "m = put_all vs []" "off = e + 1" "from_entries buf (pos + 1) [] (?ws vs) e"
      using "1.IH"(2) [OF _ dict(1-5), of "[]"] pos unfolding if_True not_le by blast
    have "from_any buf pos (AMap (put_all (?ws vs) [])) (e + 1)" by (rule from_dict [OF pos dict(4) vs(3)])
    then show ?thesis using vs dict(6) by (simp add: map_any_AMap map_put_all)
  qed
next
  case (2 buf i ret)
  let ?rd = "map_any (span_read buf)"
  show ?case
  proof (cases "i < length buf \<and> buf ! i \<noteq> CHR ''e''")
    case True
    with "2.prems" obtain item off where d: "decode_any buf i = Ok (item, off)" "i < off"
         "decode_list_loop buf off (ret @ [item]) = Ok (xs, off')"
      by (subst (asm) decode_list_loop.simps) (auto split: if_splits outcome.splits)
    obtain vs e where vs: "xs = (ret @ [item]) @ vs" "off' = e + 1" "from_items buf off (map ?rd vs) e" "length buf \<le> off \<longrightarrow> vs = [] \<and> e = off"
      using "2.IH"(2) [OF True d(1) refl d(2,3)] by blast
    have "from_items buf i (?rd item # map ?rd vs) e"
      by (rule from_items_cons [OF "2.IH"(1) [OF True d(1)] vs(3)]) (use vs(4) in simp)
    then show ?thesis using vs(1,2) True by (intro exI [of _ "item # vs"] exI [of _ e]) simp
  next
    case False
    with "2.prems" from_stop(1) [OF False] show ?thesis by (subst (asm) decode_list_loop.simps) auto
  qed
next
  case (3 buf i isKey key ret)
  let ?rd = "map_any (span_read buf)" let ?ws = "map (map_prod id ?rd)"
  show ?case
  proof (cases "i < length buf \<and> buf ! i \<noteq> CHR ''e''")
    case True
    with "3.prems"(1) obtain item off where d: "decode_any buf i = Ok (item, off)" "i < off"
      by (subst (asm) decode_dict_loop.simps) (auto split: if_splits outcome.splits)
    have item: "from_any buf i (?rd item) off" by (rule "3.IH"(1) [OF True d(1)])
    show ?thesis
    proof (cases isKey)
      case k: True
      with "3.prems" True d obtain b where
        b: "item = ABytes b" "decode_dict_loop buf off False (span_read buf b) ret = Ok (m', off'')" "ks = []"
        by (subst (asm) decode_dict_loop.simps) (auto split: any.splits)
      obtain t where t: "written (ABytes (span_read buf b)) t False" "off = i + length t" "drop i buf = t @ drop off buf"
        by (rule from_any_key [of buf i "span_read buf b" off]) (use item b(1) in simp_all)
      obtain vs e where vs: "m' = put_all vs ret" "off'' = e + 1" "from_entries buf off t (?ws vs) e"
        using "3.IH"(2) [OF True d(1) refl d(2) k b(1,2), of t] t(1) unfolding if_False by blast
      have "from_entries buf i ks (?ws vs) e" unfolding b(3)
        by (rule from_entries_key [of i buf t, OF t(3) [unfolded t(2)] vs(3) [unfolded t(2)]])
      with vs(1,2) True show ?thesis unfolding not_le [symmetric] by blast
    next
      case k: False
      with "3.prems"(1) True d have l: "decode_dict_loop buf off True key (put key item ret) = Ok (m', off'')"
        by (subst (asm) decode_dict_loop.simps) auto
      obtain vs e where vs: "m' = put_all vs (put key item ret)" "off'' = e + 1" "from_entries buf off [] (?ws vs) e" "length buf \<le> off \<longrightarrow> vs = [] \<and> e = off"
        using "3.IH"(3) [OF True d(1) refl d(2) k l, of "[]"] unfolding if_True by blast
      have "from_entries buf i ks ((key, ?rd item) # ?ws vs) e"
        by (rule from_entries_value [OF item vs(3)]) (use vs(4) "3.prems"(2) k in auto)
      then show ?thesis using vs(1,2) True by (intro exI [of _ "(key, item) # vs"] exI [of _ e]) (simp add: id_def)
    qed
  next
    case False
    with "3.prems"(1) from_stop(2) [OF False "3.prems"(2)] show ?thesis
      by (subst (asm) decode_dict_loop.simps) (auto intro!: exI [of _ "[]"])
  qed
qed

section \<open>The decoder and the grammar\<close>

lemma bdecode_written:
  "(\<exists>v. bdecode buf = Ok v \<and> map_any (span_read buf) v = w)
     \<longleftrightarrow> (\<exists>s c post. buf = s @ post \<and> written w s c \<and> (c \<longrightarrow> post = []))"
proof
  assume "\<exists>v. bdecode buf = Ok v \<and> map_any (span_read buf) v = w"
  then obtain v off where "decode_any buf 0 = Ok (v, off)" "map_any (span_read buf) v = w"
    by (auto simp: bdecode_def obind_eq_Ok)
  then have "from_any buf 0 w off" using decode_from(1) by blast
  then show "\<exists>s c post. buf = s @ post \<and> written w s c \<and> (c \<longrightarrow> post = [])" by (auto simp: from_any_def)
next
  assume "\<exists>s c post. buf = s @ post \<and> written w s c \<and> (c \<longrightarrow> post = [])"
  then obtain s c post where s: "buf = s @ post" "written w s c" "c \<longrightarrow> post = []" by blast
  obtain v off where "decode_any (s @ post) 0 = Ok (v, off)" "map_any (span_read (s @ post)) v = w"
    by (rule read_anyE [OF written_read(1) [OF s(2)] s(3), of "[]"]) simp
  then show "\<exists>v. bdecode buf = Ok v \<and> map_any (span_read buf) v = w" using s(1) by (simp add: bdecode_def)
qed

text \<open>So the grammar is unambiguous: a text has one value, whether or not its end is taken as cut.\<close>

lemma written_unambiguous:
  assumes "written w s c" "written w' s c'"
  shows "w = w'"
proof -
  have "\<exists>v. bdecode s = Ok v \<and> map_any (span_read s) v = u" if "written u s d" for u d
    unfolding bdecode_written using that by (intro exI [of _ s] exI [of _ d] exI [of _ "[]"]) simp
  from this [OF assms(1)] this [OF assms(2)] show ?thesis by auto
qed

text \<open>The canonical text of a value is one of its texts.\<close>

lemma itoa_written: "is_int64 (int (length b)) \<Longrightarrow> written (ABytes b) (itoa (int (length b)) @ '':'' @ b) False"
  using itoa_len_digit by (intro w_bytes) (simp_all add: atoi_itoa)

lemma benc_written: "encodable rd v \<Longrightarrow> written (norm_any rd v) (benc rd v) False"
proof (induction v)
  case (AInt k)
  then show ?case using w_int [OF atoi_itoa, of k] by simp
next
  case (AList xs)
  then have "list_all (\<lambda>v. written (norm_any rd v) (benc rd v) False) xs" by (auto simp: list_all_iff)
  then have "written_items (map (norm_any rd) xs) (concat (map (benc rd) xs)) False"
    by (induction xs) (auto intro: w_nil w_cons)
  from w_list [OF this] show ?case by simp
next
  case (AMap m)
  then have el: "list_all (\<lambda>(k, v). written (norm_any rd v) (benc rd v) False \<and> is_int64 (int (length k))) m"
    by (fastforce simp: list_all_iff)
  have e: "written_entries (map (map_prod id (norm_any rd)) m) (concat (map (entry_text rd) m)) False"
    using el
  proof (induction m)
    case (Cons e m)
    then show ?case using w_entry [OF itoa_written, of "fst e" "norm_any rd (snd e)" "benc rd (snd e)"]
      by (cases e) (simp add: id_def)
  qed (simp add: w_none)
  have "map_wf (map (map_prod id (norm_any rd)) m)" using AMap.prems by (simp add: map_wf_def comp_def)
  from w_dict [OF e] put_all_entries [OF this] show ?case unfolding benc_AMap by simp
qed (use itoa_written in simp_all)

section \<open>Properties\<close>

text \<open>
  Property C7. The decoder and the grammar agree: a buffer is decoded to a value exactly if it begins with a
  text of the value, which may lack closing brackets only if the buffer ends with it. So the decoder
  accepts no other text, gives every text the value of the grammar, and ignores what follows it.
\<close>

theorem bdecode_accepts_grammar:
  "(\<exists>v. bdecode buf = Ok v \<and> map_any (span_read buf) v = w)
     \<longleftrightarrow> (\<exists>s c post. buf = s @ post \<and> written w s c \<and> (c \<longrightarrow> post = []))"
  by (rule bdecode_written)

text \<open>A dictionary without its closing bracket, and with a key that has no value.\<close>

theorem bdecode_accepts_grammar_witness:
  "(\<exists>v. bdecode ''d1:ai7e1:b'' = Ok v \<and> map_any (span_read ''d1:ai7e1:b'') v = AMap [(''a'', AInt 7)])"
proof -
  have d: "atoi ''1'' = Ok (int (length ''x''))" "atoi ''7'' = Ok 7" for x :: char by code_simp+
  have k: "written (ABytes ''a'') ''1:a'' False" "written (ABytes ''b'') ''1:b'' False"
    using w_bytes [of "''1''" "''a''"] w_bytes [of "''1''" "''b''"] d(1) by (simp_all add: is_digit_def)
  have v: "written (AInt 7) ''i7e'' False" using w_int [OF d(2)] by simp
  have "written_entries [(''a'', AInt 7)] ''1:ai7e1:b'' False" using w_entry [OF k(1) v w_dangling [OF k(2)]] by simp
  from w_dict_cut [OF this] have "written (AMap [(''a'', AInt 7)]) ''d1:ai7e1:b'' True" by simp
  then show ?thesis unfolding bdecode_accepts_grammar by blast
qed

end
