(* ===== verification/Lrw_Cache.thy ===== *)
theory Lrw_Cache
  imports Go_Map Step_System
begin

text \<open>
  \<^verbatim>\<open>common/util/cache.go\<close>, the expiring cache \<^verbatim>\<open>LRWCache\<close>, and \<^verbatim>\<open>common/util/channel.go\<close>. The cache
  pairs a map with a bounded channel of tokens: storing a key sends one token, deleting a present key
  receives one. The lemmas show that in blocking mode the tokens always cover the entries, so that a
  delete never waits and the cache is a table with at-most-once removal; and that an eviction in
  non-blocking mode consumes a token too many, so that a later delete waits for a token while it
  holds the lock.
\<close>

section \<open>State\<close>

record 'v cache_entry =
  entry_timer :: nat
  entry_value :: 'v

text \<open>
  \<open>c_timers\<close> and \<open>c_next_timer\<close> stand for the Go runtime: the armed timers with the key their
  callback deletes, and the next fresh timer. The context of the source is stored and never read.
\<close>

record ('k, 'v) lrw =
  c_ttl :: int
  c_max_size :: nat
  c_tokens :: "'k list"
  c_data :: "('k \<times> 'v cache_entry) list"
  c_blocking :: bool
  c_timers :: "(nat \<times> 'k) list"
  c_next_timer :: nat

definition new_lrw_cache :: "int \<Rightarrow> nat \<Rightarrow> bool \<Rightarrow> ('k, 'v) lrw" where
  "new_lrw_cache ttlSeconds maxSize blocking =
     \<lparr>c_ttl = ttlSeconds, c_max_size = maxSize, c_tokens = [], c_data = [], c_blocking = blocking,
      c_timers = [], c_next_timer = 0\<rparr>"

section \<open>Operations\<close>

text \<open>
  An operation that waits on a channel returns \<^const>\<open>None\<close>: it cannot proceed until another goroutine
  sends or receives.
\<close>

definition cache_delete :: "'k \<Rightarrow> ('k, 'v) lrw \<Rightarrow> ('k, 'v) lrw option" where
  "cache_delete key c =
     (case map_of (c_data c) key of
        None \<Rightarrow> Some c
      | Some entry \<Rightarrow>
          (case c_tokens c of
             [] \<Rightarrow> None
           | t # ts \<Rightarrow>
               Some (c\<lparr>c_timers := filter (\<lambda>t. fst t \<noteq> entry_timer entry) (c_timers c),
                       c_data := del key (c_data c),
                       c_tokens := ts\<rparr>)))"

definition evict :: "('k, 'v) lrw \<Rightarrow> ('k, 'v) lrw option" where
  "evict c =
     (if \<not> c_blocking c \<and> length (c_tokens c) = c_max_size c
      then case c_tokens c of
             [] \<Rightarrow> None
           | t # ts \<Rightarrow> cache_delete t (c\<lparr>c_tokens := ts\<rparr>)
      else Some c)"

definition push_token :: "'k \<Rightarrow> ('k, 'v) lrw \<Rightarrow> ('k, 'v) lrw option" where
  "push_token key c =
     (if length (c_tokens c) < c_max_size c then Some (c\<lparr>c_tokens := c_tokens c @ [key]\<rparr>) else None)"

definition store_entry :: "'k::linorder \<Rightarrow> 'v \<Rightarrow> ('k, 'v) lrw \<Rightarrow> ('k, 'v) lrw" where
  "store_entry key value c =
     c\<lparr>c_data := put key \<lparr>entry_timer = c_next_timer c, entry_value = value\<rparr> (c_data c),
       c_timers := c_timers c @ [(c_next_timer c, key)],
       c_next_timer := Suc (c_next_timer c)\<rparr>"

definition cache_set :: "'k::linorder \<Rightarrow> 'v \<Rightarrow> ('k, 'v) lrw \<Rightarrow> ('k, 'v) lrw option" where
  "cache_set key value c =
     Option.bind (evict c) (\<lambda>c. Option.bind (push_token key c) (\<lambda>c. Some (store_entry key value c)))"

definition cache_get :: "('k, 'v) lrw \<Rightarrow> 'k \<Rightarrow> 'v option" where
  "cache_get c key = map_option entry_value (map_of (c_data c) key)"

definition cache_get_and_remove :: "'k \<Rightarrow> ('k, 'v) lrw \<Rightarrow> ('v option \<times> ('k, 'v) lrw) option" where
  "cache_get_and_remove key c = map_option (\<lambda>c'. (cache_get c key, c')) (cache_delete key c)"

text \<open>The callback of a timer: a stopped timer is no longer armed and does nothing.\<close>

definition expire :: "nat \<Rightarrow> ('k, 'v) lrw \<Rightarrow> ('k, 'v) lrw option" where
  "expire i c =
     (case map_of (c_timers c) i of
        None \<Rightarrow> Some c
      | Some key \<Rightarrow> cache_delete key (c\<lparr>c_timers := filter (\<lambda>t. fst t \<noteq> i) (c_timers c)\<rparr>))"

text \<open>\<^verbatim>\<open>EmptyChannel\<close>: receive until the channel's length is 0.\<close>

fun empty_channel :: "'a list \<Rightarrow> 'a list" where
  "empty_channel ch = (if length ch > 0 then empty_channel (tl ch) else ch)"

declare empty_channel.simps [simp del]

section \<open>Sequences of operations and interleavings\<close>

datatype ('k, 'v) cache_op = OpSet 'k 'v | OpRemove 'k | OpExpire nat

fun cache_step :: "('k::linorder, 'v) cache_op \<Rightarrow> ('k, 'v) lrw \<Rightarrow> ('k, 'v) lrw option" where
  "cache_step (OpSet k v) c = cache_set k v c"
| "cache_step (OpRemove k) c = cache_delete k c"
| "cache_step (OpExpire i) c = expire i c"

fun cache_run :: "('k::linorder, 'v) cache_op list \<Rightarrow> ('k, 'v) lrw \<Rightarrow> ('k, 'v) lrw option" where
  "cache_run [] c = Some c"
| "cache_run (oper # ops) c = Option.bind (cache_step oper c) (cache_run ops)"

text \<open>
  The interleavings of several goroutines on a blocking-mode cache. \<^verbatim>\<open>Set\<close> sends its token before it
  takes the lock: \<open>pushed\<close> are the calls between the two. A timer that has fired waits for the lock:
  \<open>fired\<close> are these callbacks. A rule whose operation would wait is not enabled.
\<close>

record ('k, 'v) cache_sys =
  s_cache :: "('k, 'v) lrw"
  s_pushed :: "('k \<times> 'v) list"
  s_fired :: "'k list"

inductive cache_sys_step :: "('k::linorder, 'v) cache_sys \<Rightarrow> ('k, 'v) cache_sys \<Rightarrow> bool" where
  set_send: "push_token k (s_cache s) = Some c \<Longrightarrow>
     cache_sys_step s (s\<lparr>s_cache := c, s_pushed := s_pushed s @ [(k, v)]\<rparr>)"
| set_store: "(k, v) \<in> set (s_pushed s) \<Longrightarrow>
     cache_sys_step s (s\<lparr>s_cache := store_entry k v (s_cache s), s_pushed := remove1 (k, v) (s_pushed s)\<rparr>)"
| timer_fires: "(i, k) \<in> set (c_timers (s_cache s)) \<Longrightarrow>
     cache_sys_step s (s\<lparr>s_cache := (s_cache s)\<lparr>c_timers := remove1 (i, k) (c_timers (s_cache s))\<rparr>,
                         s_fired := s_fired s @ [k]\<rparr>)"
| callback: "k \<in> set (s_fired s) \<Longrightarrow> cache_delete k (s_cache s) = Some c \<Longrightarrow>
     cache_sys_step s (s\<lparr>s_cache := c, s_fired := remove1 k (s_fired s)\<rparr>)"
| removal: "cache_delete k (s_cache s) = Some c \<Longrightarrow>
     cache_sys_step s (s\<lparr>s_cache := c\<rparr>)"

definition cache_start :: "int \<Rightarrow> nat \<Rightarrow> ('k, 'v) cache_sys \<Rightarrow> bool" where
  "cache_start ttl n s \<longleftrightarrow> s = \<lparr>s_cache = new_lrw_cache ttl n True, s_pushed = [], s_fired = []\<rparr>"

inductive_cases cache_sys_stepE: "cache_sys_step s t"

section \<open>Lemmas\<close>

lemma length_del: "map_wf m \<Longrightarrow> map_of m k = Some v \<Longrightarrow> Suc (length (del k m)) = length m"
proof (induction m)
  case (Cons e m)
  show ?case
  proof (cases "fst e = k")
    case True
    with Cons.prems(1) have "del k m = m" by (auto simp: del_def filter_id_conv)
    with True show ?thesis by (simp add: del_def)
  next
    case False
    with Cons show ?thesis by (cases e) (simp add: del_def)
  qed
qed simp

lemma length_put: "length (put k v m) \<le> Suc (length m)"
  by (induction m) auto

definition tokens_cover :: "('k::linorder, 'v) lrw \<Rightarrow> bool" where
  "tokens_cover c \<longleftrightarrow> c_blocking c \<and> map_wf (c_data c)
     \<and> length (c_data c) \<le> length (c_tokens c) \<and> length (c_tokens c) \<le> c_max_size c"

lemma tokens_cover_new: "tokens_cover (new_lrw_cache ttl n True)"
  by (simp add: tokens_cover_def new_lrw_cache_def)

lemma cache_delete_total: "tokens_cover c \<Longrightarrow> \<exists>c'. cache_delete k c = Some c'"
  by (cases "c_data c") (auto simp: tokens_cover_def cache_delete_def split: option.split list.split)

lemma cache_delete_cover: "tokens_cover c \<Longrightarrow> cache_delete k c = Some c' \<Longrightarrow> tokens_cover c'"
  by (auto simp: tokens_cover_def cache_delete_def map_wf_del dest!: length_del [rotated, of _ k]
      split: option.splits list.splits)

lemma cache_delete_get:
  "cache_delete k c = Some c' \<Longrightarrow> cache_get c' x = (if x = k then None else cache_get c x)"
  by (auto simp: cache_delete_def cache_get_def split: option.splits list.splits)

lemma tokens_cover_timers [simp]: "tokens_cover (c\<lparr>c_timers := ts\<rparr>) = tokens_cover c"
  by (simp add: tokens_cover_def)

lemma cache_get_timers [simp]: "cache_get (c\<lparr>c_timers := ts\<rparr>) k = cache_get c k"
  by (simp add: cache_get_def)

lemma expire_cover: "tokens_cover c \<Longrightarrow> expire i c = Some c' \<Longrightarrow> tokens_cover c'"
  by (auto simp: expire_def split: option.splits dest: cache_delete_cover [rotated])

lemma expire_get: "expire i c = Some c' \<Longrightarrow> cache_get c' k = Some v \<Longrightarrow> cache_get c k = Some v"
  by (auto simp: expire_def split: option.splits if_splits dest!: cache_delete_get [where x = k])

lemma cache_set_blocking:
  "c_blocking c \<Longrightarrow> cache_set k v c = map_option (store_entry k v) (push_token k c)"
  by (auto simp: cache_set_def evict_def push_token_def)

lemma push_store_cover:
  "tokens_cover c \<Longrightarrow> push_token k c = Some c' \<Longrightarrow> tokens_cover (store_entry k v c')"
  using length_put [of k "\<lparr>entry_timer = c_next_timer c, entry_value = v\<rparr>" "c_data c"]
  by (auto simp: tokens_cover_def push_token_def store_entry_def map_wf_put split: if_splits)

lemma cache_get_store: "cache_get (store_entry k v c) x = (if x = k then Some v else cache_get c x)"
  by (simp add: cache_get_def store_entry_def)

lemma cache_get_push: "push_token k c = Some c' \<Longrightarrow> cache_get c' = cache_get c"
  by (auto simp: push_token_def cache_get_def fun_eq_iff split: if_splits)

lemma empty_channel_empties: "empty_channel ch = []"
  by (induction ch rule: empty_channel.induct) (subst empty_channel.simps, auto)


section \<open>The contract of a table of pending requests\<close>

text \<open>
  What a client such as the UDP tracker relies on when it registers a request under a key and takes
  it out when the answer arrives. \<^const>\<open>None\<close> is a call that has to wait.
\<close>

locale pending_table =
  fixes inv :: "'c \<Rightarrow> bool"
    and lookup :: "'c \<Rightarrow> 'k \<Rightarrow> 'v option"
    and register :: "'k \<Rightarrow> 'v \<Rightarrow> 'c \<Rightarrow> 'c option"
    and withdraw :: "'k \<Rightarrow> 'c \<Rightarrow> ('v option \<times> 'c) option"
  assumes register_inv: "inv c \<Longrightarrow> register k v c = Some c' \<Longrightarrow> inv c'"
    and register_lookup: "inv c \<Longrightarrow> register k v c = Some c' \<Longrightarrow>
          lookup c' x = (if x = k then Some v else lookup c x)"
    and withdraw_total: "inv c \<Longrightarrow> \<exists>r. withdraw k c = Some r"
    and withdraw_result: "inv c \<Longrightarrow> withdraw k c = Some (r, c') \<Longrightarrow> r = lookup c k"
    and withdraw_inv: "inv c \<Longrightarrow> withdraw k c = Some (r, c') \<Longrightarrow> inv c'"
    and withdraw_lookup: "inv c \<Longrightarrow> withdraw k c = Some (r, c') \<Longrightarrow>
          lookup c' x = (if x = k then None else lookup c x)"
begin

text \<open>A registered request is handed out once, and a second withdrawal finds nothing.\<close>

lemma answered_once:
  assumes "inv c" "register k v c = Some c1"
  shows "\<exists>c2 c3. withdraw k c1 = Some (Some v, c2) \<and> withdraw k c2 = Some (None, c3)"
proof -
  have i1: "inv c1" using assms by (rule register_inv)
  then obtain r c2 where w1: "withdraw k c1 = Some (r, c2)" using withdraw_total by fastforce
  have i2: "inv c2" using i1 w1 by (rule withdraw_inv)
  then obtain r' c3 where w2: "withdraw k c2 = Some (r', c3)" using withdraw_total by fastforce
  have "r = Some v" using withdraw_result [OF i1 w1] register_lookup [OF assms, of k] by simp
  moreover have "r' = None" using withdraw_result [OF i2 w2] withdraw_lookup [OF i1 w1, of k] by simp
  ultimately show ?thesis using w1 w2 by blast
qed

lemma unknown_key: "inv c \<Longrightarrow> lookup c k = None \<Longrightarrow> withdraw k c = Some (r, c') \<Longrightarrow> r = None"
  using withdraw_result by fastforce

lemma others_kept:
  "inv c \<Longrightarrow> withdraw k c = Some (r, c') \<Longrightarrow> x \<noteq> k \<Longrightarrow> lookup c' x = lookup c x"
  using withdraw_lookup by fastforce

end

interpretation lrw: pending_table tokens_cover cache_get cache_set cache_get_and_remove
proof unfold_locales
  fix c c' :: "('k::linorder, 'v) lrw" and k x :: 'k and v :: 'v and r :: "'v option"
  assume inv: "tokens_cover c"
  then have b: "c_blocking c" by (simp add: tokens_cover_def)
  show "tokens_cover c'" if "cache_set k v c = Some c'"
    using that inv push_store_cover by (auto simp: cache_set_blocking [OF b])
  show "cache_get c' x = (if x = k then Some v else cache_get c x)" if "cache_set k v c = Some c'"
    using that by (auto simp: cache_set_blocking [OF b] cache_get_store cache_get_push)
  show "\<exists>r. cache_get_and_remove k c = Some r"
    using cache_delete_total [OF inv, of k] by (auto simp: cache_get_and_remove_def)
  show "r = cache_get c k" if "cache_get_and_remove k c = Some (r, c')"
    using that by (auto simp: cache_get_and_remove_def)
  show "tokens_cover c'" if "cache_get_and_remove k c = Some (r, c')"
    using that inv by (auto simp: cache_get_and_remove_def dest: cache_delete_cover)
  show "cache_get c' x = (if x = k then None else cache_get c x)"
    if "cache_get_and_remove k c = Some (r, c')"
    using that by (auto simp: cache_get_and_remove_def cache_delete_get)
qed

section \<open>Blocking mode: the tokens cover the entries under every interleaving\<close>

definition sys_cover :: "nat \<Rightarrow> ('k::linorder, 'v) cache_sys \<Rightarrow> bool" where
  "sys_cover n s \<longleftrightarrow> map_wf (c_data (s_cache s)) \<and> c_max_size (s_cache s) = n
     \<and> length (c_data (s_cache s)) + length (s_pushed s) \<le> length (c_tokens (s_cache s))
     \<and> length (c_tokens (s_cache s)) \<le> n"

lemma sys_cover_delete:
  "sys_cover n s \<Longrightarrow> cache_delete k (s_cache s) = Some c \<Longrightarrow> sys_cover n (s\<lparr>s_cache := c\<rparr>)"
  by (auto simp: sys_cover_def cache_delete_def map_wf_del dest!: length_del [rotated, of _ k]
      split: option.splits list.splits)

lemma sys_cover_step: "cache_sys_step s t \<Longrightarrow> sys_cover n s \<Longrightarrow> sys_cover n t"
proof (induction rule: cache_sys_step.induct)
  case (set_send k s c v)
  then show ?case by (auto simp: sys_cover_def push_token_def split: if_splits)
next
  case (set_store k v s)
  then obtain m where "length (s_pushed s) = Suc m" by (cases "s_pushed s") auto
  with set_store show ?case
    using length_put [of k "\<lparr>entry_timer = c_next_timer (s_cache s), entry_value = v\<rparr>" "c_data (s_cache s)"]
    by (auto simp: sys_cover_def store_entry_def map_wf_put length_remove1)
next
  case (timer_fires i k s)
  then show ?case by (auto simp: sys_cover_def)
next
  case (callback k s c)
  from sys_cover_delete [OF callback.prems callback.hyps(2)] show ?case by (simp add: sys_cover_def)
next
  case (removal k s c)
  from sys_cover_delete [OF removal.prems removal.hyps] show ?case .
qed

interpretation cs: inv_system "cache_start ttl n" cache_sys_step "sys_cover n" for ttl n
  by unfold_locales
    (simp add: cache_start_def sys_cover_def new_lrw_cache_def, rule sys_cover_step)

text \<open>
  Property C21. In blocking mode, in every state that any interleaving of \<^verbatim>\<open>Set\<close>, \<^verbatim>\<open>Delete\<close>,
  \<^verbatim>\<open>GetAndRemove\<close> and timer callbacks can reach, a delete never waits for a token, and the cache never
  holds more entries than its maximum size.
\<close>

theorem blocking_delete_never_waits:
  assumes "reach (cache_start ttl n) cache_sys_step s"
  shows "(\<exists>c. cache_delete k (s_cache s) = Some c) \<and> length (c_data (s_cache s)) \<le> n"
proof -
  from assms have "sys_cover n s" by (rule cs.reach_inv)
  then show ?thesis
    by (cases "c_data (s_cache s)")
      (auto simp: sys_cover_def cache_delete_def split: option.split list.split)
qed

theorem blocking_delete_never_waits_witness:
  "\<exists>s :: (nat, string) cache_sys. reach (cache_start 30 2) cache_sys_step s
     \<and> cache_get (s_cache s) 7 = Some ''x'' \<and> (\<exists>c. cache_delete 7 (s_cache s) = Some c)"
proof -
  let ?s0 = "\<lparr>s_cache = new_lrw_cache 30 2 True, s_pushed = [], s_fired = []\<rparr> :: (nat, string) cache_sys"
  let ?c1 = "(new_lrw_cache 30 2 True)\<lparr>c_tokens := [7]\<rparr> :: (nat, string) lrw"
  let ?s1 = "?s0\<lparr>s_cache := ?c1, s_pushed := [] @ [(7, ''x'')]\<rparr>"
  let ?s2 = "?s1\<lparr>s_cache := store_entry 7 ''x'' ?c1, s_pushed := remove1 (7, ''x'') [(7, ''x'')]\<rparr>"
  have "reach (cache_start 30 2) cache_sys_step ?s0"
    by (rule reach_init) (simp add: cache_start_def)
  moreover have "cache_sys_step ?s0 ?s1"
    using set_send [of 7 ?s0 ?c1 "''x''"] by (simp add: push_token_def new_lrw_cache_def)
  moreover have "cache_sys_step ?s1 ?s2"
    using set_store [of 7 "''x''" ?s1] by simp
  ultimately have r: "reach (cache_start 30 2) cache_sys_step ?s2" by (blast intro: reach_step)
  moreover have "cache_get (s_cache ?s2) 7 = Some ''x''" by (simp add: cache_get_store)
  ultimately show ?thesis using blocking_delete_never_waits [OF r, of 7] by blast
qed


section \<open>Non-blocking mode: an eviction consumes two tokens\<close>

lemma length_put_new: "map_of m k = None \<Longrightarrow> length (put k v m) = Suc (length m)"
  by (induction m) (auto split: if_splits)

lemma cache_set_room:
  assumes "\<not> c_blocking c" "length (c_tokens c) < c_max_size c" "map_of (c_data c) k = None" "map_wf (c_data c)"
  shows "\<exists>c'. cache_set k v c = Some c' \<and> c_tokens c' = c_tokens c @ [k] \<and> length (c_data c') = Suc (length (c_data c))
     \<and> fst ` set (c_data c') = insert k (fst ` set (c_data c)) \<and> map_wf (c_data c')
     \<and> \<not> c_blocking c' \<and> c_max_size c' = c_max_size c"
  using assms
  by (simp add: cache_set_def evict_def push_token_def store_entry_def length_put_new map_wf_put)

lemma cache_sets_room:
  assumes "\<not> c_blocking c" "length (c_tokens c) + length ks \<le> c_max_size c" "map_wf (c_data c)"
    "distinct ks" "set ks \<inter> fst ` set (c_data c) = {}"
  shows "\<exists>c'. cache_run (map (\<lambda>k. OpSet k (f k)) ks) c = Some c' \<and> c_tokens c' = c_tokens c @ ks
     \<and> length (c_data c') = length (c_data c) + length ks
     \<and> fst ` set (c_data c') = set ks \<union> fst ` set (c_data c) \<and> map_wf (c_data c')
     \<and> \<not> c_blocking c' \<and> c_max_size c' = c_max_size c"
  using assms
proof (induction ks arbitrary: c)
  case (Cons k ks)
  have "map_of (c_data c) k = None" using Cons.prems(5) by (auto simp: map_of_eq_None_iff)
  then obtain c1 where c1: "cache_set k (f k) c = Some c1" "c_tokens c1 = c_tokens c @ [k]"
    "length (c_data c1) = Suc (length (c_data c))" "fst ` set (c_data c1) = insert k (fst ` set (c_data c))"
    "map_wf (c_data c1)" "\<not> c_blocking c1" "c_max_size c1 = c_max_size c"
    using cache_set_room [of c k "f k"] Cons.prems by auto
  have "set ks \<inter> fst ` set (c_data c1) = {}" using Cons.prems(4,5) c1(4) by auto
  with Cons.IH [of c1] Cons.prems c1 obtain c2 where
    "cache_run (map (\<lambda>k. OpSet k (f k)) ks) c1 = Some c2" "c_tokens c2 = c_tokens c1 @ ks"
    "length (c_data c2) = length (c_data c1) + length ks"
    "fst ` set (c_data c2) = set ks \<union> fst ` set (c_data c1)" "map_wf (c_data c2)"
    "\<not> c_blocking c2" "c_max_size c2 = c_max_size c1"
    by auto
  with c1 show ?case by auto
qed simp

lemma cache_set_full:
  assumes "\<not> c_blocking c" "c_tokens c = k1 # k2 # ts" "c_max_size c = Suc (Suc (length ts))"
    "map_of (c_data c) k1 = Some e" "map_wf (c_data c)" "map_of (c_data c) k = None"
  shows "\<exists>c'. cache_set k v c = Some c' \<and> c_tokens c' = ts @ [k] \<and> length (c_data c') = length (c_data c)
     \<and> map_wf (c_data c')"
proof -
  have "map_of (del k1 (c_data c)) k = None" using assms(6) by simp
  then show ?thesis
    using assms length_del [OF assms(5,4)]
    by (simp add: cache_set_def evict_def cache_delete_def push_token_def store_entry_def length_put_new
        map_wf_put map_wf_del)
qed

lemma cache_removes_block:
  assumes "map_wf (c_data c)" "distinct ds" "set ds \<subseteq> fst ` set (c_data c)" "length (c_tokens c) < length ds"
  shows "cache_run (map OpRemove ds) c = None"
  using assms
proof (induction ds arbitrary: c)
  case (Cons d ds)
  then obtain e where e: "map_of (c_data c) d = Some e"
    by (cases "map_of (c_data c) d") (auto simp: map_of_eq_None_iff)
  show ?case
  proof (cases "c_tokens c")
    case Nil
    with e show ?thesis by (simp add: cache_delete_def)
  next
    case (Cons t ts)
    let ?c = "c\<lparr>c_timers := filter (\<lambda>t. fst t \<noteq> entry_timer e) (c_timers c),
                c_data := del d (c_data c), c_tokens := ts\<rparr>"
    have "set ds \<subseteq> fst ` set (del d (c_data c))"
      using Cons.prems(2,3) by (force simp: del_def)
    then have "cache_run (map OpRemove ds) ?c = None"
      using Cons.prems local.Cons by (intro Cons.IH) (auto simp: map_wf_del)
    with e local.Cons show ?thesis by (simp add: cache_delete_def)
  qed
qed simp

lemma cache_run_append: "cache_run (a @ b) c = Option.bind (cache_run a c) (cache_run b)"
proof (induction a arbitrary: c)
  case (Cons oper a)
  then show ?case by (cases "cache_step oper c") simp_all
qed simp

lemma card_keys: "map_wf m \<Longrightarrow> card (fst ` set m) = length m"
  using distinct_card [OF map_wf_distinct, of m] by simp



text \<open>
  The cache as a table of pending requests, in blocking mode: a request that \<^verbatim>\<open>Set\<close>
  registered is handed out by the first \<^verbatim>\<open>GetAndRemove\<close> of its key and by no later one, and other
  keys are not affected.
\<close>

lemma get_and_remove_once:
  assumes "tokens_cover c" "cache_set k v c = Some c1"
  shows "\<exists>c2 c3. cache_get_and_remove k c1 = Some (Some v, c2) \<and> cache_get_and_remove k c2 = Some (None, c3)
     \<and> (\<forall>x. x \<noteq> k \<longrightarrow> cache_get c2 x = cache_get c x)"
proof -
  obtain c2 c3 where w: "cache_get_and_remove k c1 = Some (Some v, c2)" "cache_get_and_remove k c2 = Some (None, c3)"
    using lrw.answered_once [OF assms] by blast
  moreover have "cache_get c2 x = cache_get c x" if "x \<noteq> k" for x
    using lrw.others_kept [OF lrw.register_inv [OF assms] w(1) that] lrw.register_lookup [OF assms, of x] that
    by simp
  ultimately show ?thesis by blast
qed

lemma get_and_remove_once_example:
  "\<exists>c1 c2 c3. cache_set (5 :: nat) ''q'' (new_lrw_cache 30 200 True) = Some c1
     \<and> cache_get_and_remove 5 c1 = Some (Some ''q'', c2) \<and> cache_get_and_remove 5 c2 = Some (None, c3)"
proof -
  obtain c1 where c1: "cache_set (5 :: nat) ''q'' (new_lrw_cache 30 200 True) = Some c1"
    by (simp add: cache_set_def evict_def push_token_def new_lrw_cache_def)
  from get_and_remove_once [OF tokens_cover_new c1] c1 show ?thesis by blast
qed

text \<open>
  Overwriting a key does not stop the timer of the value it replaces: when that older
  timer fires, it removes the newer value.
\<close>

lemma stale_timer_removes_new_value:
  assumes "tokens_cover c" "cache_set k v c = Some c1" "cache_set k w c1 = Some c2"
    and "\<forall>t \<in> set (c_timers c). fst t < c_next_timer c"
  shows "cache_get c2 k = Some w \<and> (\<exists>c3. expire (c_next_timer c) c2 = Some c3 \<and> cache_get c3 k = None)"
proof -
  have b: "c_blocking c" "c_blocking c1"
    using assms(1) lrw.register_inv [OF assms(1,2)] by (simp_all add: tokens_cover_def)
  have tm: "c_timers c2 = c_timers c @ [(c_next_timer c, k), (Suc (c_next_timer c), k)]"
    using assms(2,3)
    by (auto simp: cache_set_blocking [OF b(1)] cache_set_blocking [OF b(2)] push_token_def store_entry_def
        split: if_splits)
  have "c_next_timer c \<notin> fst ` set (c_timers c)" using assms(4) by force
  then have t: "map_of (c_timers c2) (c_next_timer c) = Some k"
    by (simp add: tm map_add_def map_of_eq_None_iff [THEN iffD2])
  let ?c2 = "c2\<lparr>c_timers := filter (\<lambda>t. fst t \<noteq> c_next_timer c) (c_timers c2)\<rparr>"
  have i: "tokens_cover c2" by (rule lrw.register_inv [OF lrw.register_inv [OF assms(1,2)] assms(3)])
  then have "tokens_cover ?c2" by (simp add: tokens_cover_def)
  then obtain c3 where "cache_delete k ?c2 = Some c3" using cache_delete_total by blast
  then show ?thesis
    using lrw.register_lookup [OF lrw.register_inv [OF assms(1,2)] assms(3), of k] t
    by (auto simp: expire_def dest: cache_delete_get [where x = k])
qed

lemma stale_timer_removes_new_value_example:
  "\<exists>c1 c2 c3. cache_set (5 :: nat) ''old'' (new_lrw_cache 30 200 True) = Some c1
     \<and> cache_set 5 ''new'' c1 = Some c2 \<and> cache_get c2 5 = Some ''new''
     \<and> expire (c_next_timer (new_lrw_cache 30 200 True :: (nat, string) lrw)) c2 = Some c3 \<and> cache_get c3 5 = None"
proof -
  obtain c1 where c1: "cache_set (5 :: nat) ''old'' (new_lrw_cache 30 200 True) = Some c1"
    by (simp add: cache_set_def evict_def push_token_def new_lrw_cache_def)
  obtain c2 where c2: "cache_set 5 ''new'' c1 = Some c2"
    using c1 by (auto simp: cache_set_def evict_def push_token_def new_lrw_cache_def store_entry_def)
  have tm: "\<forall>t \<in> set (c_timers (new_lrw_cache 30 200 True :: (nat, string) lrw)).
      fst t < c_next_timer (new_lrw_cache 30 200 True :: (nat, string) lrw)"
    by (simp add: new_lrw_cache_def)
  show ?thesis using stale_timer_removes_new_value [OF tokens_cover_new c1 c2 tm] c1 c2 by blast
qed

end
