(* ===== verification/Bloom_Filter.thy ===== *)
theory Bloom_Filter
  imports Go_Binary
begin

text \<open>
  \<^verbatim>\<open>common/util/bloom.go\<close>. The hash (murmur3) and the compressed bitmap (roaring64) are third-party
  packages: the hash is a function parameter, the bitmap a record of its operations with the
  documented behaviour as a hypothesis. The lemmas give the exact meaning of \<^verbatim>\<open>Exists\<close> after any
  sequence of \<^verbatim>\<open>Add\<close>s (in particular, no false negatives) and the round trip through a file.
\<close>

section \<open>The bitmap\<close>

record 'bm bitmap_ops =
  bm_new :: 'bm
  bm_add :: "64 word \<Rightarrow> 'bm \<Rightarrow> 'bm"
  bm_contains :: "'bm \<Rightarrow> 64 word \<Rightarrow> bool"
  bm_write :: "'bm \<Rightarrow> bytes"
  bm_read :: "bytes \<Rightarrow> ('bm \<times> bytes) outcome"

definition bitmap_laws :: "'bm bitmap_ops \<Rightarrow> bool" where
  "bitmap_laws B \<longleftrightarrow>
     (\<forall>x. \<not> bm_contains B (bm_new B) x)
     \<and> (\<forall>x y bm. bm_contains B (bm_add B y bm) x \<longleftrightarrow> x = y \<or> bm_contains B bm x)
     \<and> (\<forall>bm rest. bm_read B (bm_write B bm @ rest) = Ok (bm, rest))"

section \<open>The filter\<close>

record 'bm bloom =
  bf_m :: "64 word"
  bf_n :: "64 word"
  bf_k :: "8 word"
  bf_keys :: 'bm

definition new_bloom_filter :: "'bm bitmap_ops \<Rightarrow> 64 word \<Rightarrow> 'bm bloom" where
  "new_bloom_filter B bits = \<lparr>bf_m = bits, bf_n = 0, bf_k = 7, bf_keys = bm_new B\<rparr>"

text \<open>The locations of a datum: hash it with the byte \<open>i\<close> appended, modulo the filter's size.\<close>

definition get_locations :: "(bytes \<Rightarrow> 64 word) \<Rightarrow> 'bm bloom \<Rightarrow> bytes \<Rightarrow> 64 word list outcome" where
  "get_locations hash f data =
     (if bf_m f = 0 \<and> bf_k f \<noteq> 0 then Panic DivideByZero
      else Ok (map (\<lambda>i. hash (data @ [char_of i]) mod bf_m f) [0..<unat (bf_k f)]))"

definition bloom_add :: "'bm bitmap_ops \<Rightarrow> (bytes \<Rightarrow> 64 word) \<Rightarrow> bytes \<Rightarrow> 'bm bloom \<Rightarrow> 'bm bloom outcome" where
  "bloom_add B hash data f =
     obind (get_locations hash f data) (\<lambda>locations.
       Ok (f\<lparr>bf_keys := fold (bm_add B) locations (bf_keys f), bf_n := bf_n f + 1\<rparr>))"

definition bloom_exists :: "'bm bitmap_ops \<Rightarrow> (bytes \<Rightarrow> 64 word) \<Rightarrow> 'bm bloom \<Rightarrow> bytes \<Rightarrow> bool outcome" where
  "bloom_exists B hash f data =
     obind (get_locations hash f data) (\<lambda>locations.
       Ok (list_all (bm_contains B (bf_keys f)) locations))"

text \<open>
  \<^verbatim>\<open>Save\<close> writes the header and then the bitmap; \<open>wr\<close> is the writer: what was written before, and the
  next bytes, give what is written afterwards or an error.
\<close>

definition bloom_save :: "'bm bitmap_ops \<Rightarrow> (bytes \<Rightarrow> bytes \<Rightarrow> bytes outcome) \<Rightarrow> 'bm bloom \<Rightarrow> bytes \<Rightarrow> bytes outcome" where
  "bloom_save B wr f out =
     obind (wr out (put_uint64 (bf_m f) @ put_uint64 (bf_n f) @ [char_of (unat (bf_k f))])) (\<lambda>out'.
       wr out' (bm_write B (bf_keys f)))"

definition load_bloom_filter :: "'bm bitmap_ops \<Rightarrow> bytes \<Rightarrow> ('bm bloom \<times> bytes) outcome" where
  "load_bloom_filter B r =
     obind (read_full 8 r) (\<lambda>(rawM, r).
     obind (read_full 8 r) (\<lambda>(rawN, r).
     obind (read_full 1 r) (\<lambda>(rawK, r).
     obind (bm_read B r) (\<lambda>(keys, r).
       Ok (\<lparr>bf_m = get_uint64 rawM, bf_n = get_uint64 rawN, bf_k = of_char (rawK ! 0), bf_keys = keys\<rparr>, r)))))"

fun bloom_add_all :: "'bm bitmap_ops \<Rightarrow> (bytes \<Rightarrow> 64 word) \<Rightarrow> bytes list \<Rightarrow> 'bm bloom \<Rightarrow> 'bm bloom outcome" where
  "bloom_add_all B hash [] f = Ok f"
| "bloom_add_all B hash (d # ds) f = obind (bloom_add B hash d f) (bloom_add_all B hash ds)"

section \<open>Lemmas\<close>

definition locs :: "(bytes \<Rightarrow> 64 word) \<Rightarrow> 'bm bloom \<Rightarrow> bytes \<Rightarrow> 64 word set" where
  "locs hash f d = (\<lambda>i. hash (d @ [char_of i]) mod bf_m f) ` {..<unat (bf_k f)}"

lemma bm_contains_fold:
  "bitmap_laws B \<Longrightarrow> bm_contains B (fold (bm_add B) xs bm) x \<longleftrightarrow> x \<in> set xs \<or> bm_contains B bm x"
  by (induction xs arbitrary: bm) (auto simp: bitmap_laws_def)

lemma get_locations_ok:
  "bf_m f \<noteq> 0 \<Longrightarrow> \<exists>xs. get_locations hash f d = Ok xs \<and> set xs = locs hash f d"
  by (auto simp: get_locations_def locs_def lessThan_atLeast0)

lemma bloom_exists_iff:
  "bf_m f \<noteq> 0 \<Longrightarrow> bloom_exists B hash f d = Ok (\<forall>x \<in> locs hash f d. bm_contains B (bf_keys f) x)"
  using get_locations_ok [of f hash d] by (auto simp: bloom_exists_def list_all_iff)

lemma bloom_add_ok:
  assumes "bitmap_laws B" "bf_m f \<noteq> 0"
  shows "\<exists>f'. bloom_add B hash d f = Ok f' \<and> bf_m f' = bf_m f \<and> bf_k f' = bf_k f \<and> bf_n f' = bf_n f + 1
     \<and> (\<forall>x. bm_contains B (bf_keys f') x \<longleftrightarrow> x \<in> locs hash f d \<or> bm_contains B (bf_keys f) x)"
  using get_locations_ok [OF assms(2), of hash d] bm_contains_fold [OF assms(1)]
  by (auto simp: bloom_add_def)

lemma locs_cong: "bf_m f = bf_m g \<Longrightarrow> bf_k f = bf_k g \<Longrightarrow> locs hash f = locs hash g"
  by (auto simp: locs_def fun_eq_iff)

lemma bloom_add_all_ok:
  assumes "bitmap_laws B" "bf_m f \<noteq> 0"
  shows "\<exists>f'. bloom_add_all B hash ds f = Ok f' \<and> bf_m f' = bf_m f \<and> bf_k f' = bf_k f
     \<and> bf_n f' = bf_n f + of_nat (length ds)
     \<and> (\<forall>x. bm_contains B (bf_keys f') x \<longleftrightarrow> (\<exists>d \<in> set ds. x \<in> locs hash f d) \<or> bm_contains B (bf_keys f) x)"
  using assms(2)
proof (induction ds arbitrary: f)
  case (Cons d ds)
  obtain f1 where f1: "bloom_add B hash d f = Ok f1" "bf_m f1 = bf_m f" "bf_k f1 = bf_k f" "bf_n f1 = bf_n f + 1"
    "\<forall>x. bm_contains B (bf_keys f1) x \<longleftrightarrow> x \<in> locs hash f d \<or> bm_contains B (bf_keys f) x"
    using bloom_add_ok [OF assms(1) Cons.prems, of hash d] by blast
  have l: "locs hash f1 = locs hash f" by (rule locs_cong) (simp_all add: f1)
  from Cons.prems f1(2) obtain f2 where "bloom_add_all B hash ds f1 = Ok f2" "bf_m f2 = bf_m f1"
    "bf_k f2 = bf_k f1" "bf_n f2 = bf_n f1 + of_nat (length ds)"
    "\<forall>x. bm_contains B (bf_keys f2) x \<longleftrightarrow> (\<exists>d \<in> set ds. x \<in> locs hash f1 d) \<or> bm_contains B (bf_keys f1) x"
    using Cons.IH [of f1] by auto
  then show ?case using f1 l by (auto simp: algebra_simps)
qed simp

lemma byte_roundtrip: "(of_char (char_of (unat w)) :: 8 word) = (w :: 8 word)"
proof -
  have "(of_char (char_of (unat w)) :: 8 word) = of_nat (of_char (char_of (unat w)))"
    by (rule of_nat_of_char [symmetric])
  also have "\<dots> = w" using unat_bound [of w] by simp
  finally show ?thesis .
qed

text \<open>A concrete bitmap (the list of its members, each marked on the wire) that meets the hypothesis.\<close>

fun lb_read :: "bytes \<Rightarrow> (64 word list \<times> bytes) outcome" where
  "lb_read [] = Err ErrEOF"
| "lb_read (c # r) =
     (if c = CHR ''0'' then Ok ([], r)
      else obind (lb_read (drop 8 r)) (\<lambda>(xs, r'). Ok (get_uint64 (take 8 r) # xs, r')))"

definition list_bitmap :: "64 word list bitmap_ops" where
  "list_bitmap =
     \<lparr>bm_new = [], bm_add = Cons, bm_contains = (\<lambda>bm x. x \<in> set bm),
      bm_write = (\<lambda>bm. concat (map (\<lambda>x. CHR ''1'' # put_uint64 x) bm) @ ''0''),
      bm_read = lb_read\<rparr>"

lemma lb_read_write: "lb_read (concat (map (\<lambda>x. CHR ''1'' # put_uint64 x) bm) @ CHR ''0'' # rest) = Ok (bm, rest)"
  by (induction bm) simp_all

lemma list_bitmap_laws: "bitmap_laws list_bitmap"
  by (simp add: bitmap_laws_def list_bitmap_def lb_read_write)

section \<open>Properties\<close>

text \<open>
  Property C30. After adding any sequence of data to a new filter, \<^verbatim>\<open>Exists\<close> answers true exactly for the
  data all of whose locations are locations of added data; so every added datum is reported as
  present (no false negatives), and the element count is the number of additions modulo \<open>2 ^ 64\<close>.
\<close>

theorem bloom_exists_exact:
  assumes "bitmap_laws B" "bits \<noteq> 0"
  shows "\<exists>f. bloom_add_all B hash ds (new_bloom_filter B bits) = Ok f \<and> bf_n f = of_nat (length ds)
     \<and> (\<forall>d. bloom_exists B hash f d = Ok (locs hash f d \<subseteq> (\<Union>a \<in> set ds. locs hash f a)))
     \<and> (\<forall>d \<in> set ds. bloom_exists B hash f d = Ok True)"
proof -
  let ?f0 = "new_bloom_filter B bits"
  obtain f where f: "bloom_add_all B hash ds ?f0 = Ok f" "bf_m f = bits" "bf_k f = bf_k ?f0"
    "bf_n f = of_nat (length ds)"
    "\<forall>x. bm_contains B (bf_keys f) x \<longleftrightarrow> (\<exists>d \<in> set ds. x \<in> locs hash ?f0 d) \<or> bm_contains B (bf_keys ?f0) x"
    using bloom_add_all_ok [OF assms(1), of ?f0 hash ds] assms(2) by (auto simp: new_bloom_filter_def)
  have l: "locs hash ?f0 = locs hash f" by (rule locs_cong) (simp_all add: f new_bloom_filter_def)
  have "\<not> bm_contains B (bf_keys ?f0) x" for x
    using assms(1) by (simp add: bitmap_laws_def new_bloom_filter_def)
  then have "bloom_exists B hash f d = Ok (locs hash f d \<subseteq> (\<Union>a \<in> set ds. locs hash f a))" for d
    using f(2,5) assms(2) by (auto simp: bloom_exists_iff l)
  with f(1,4) show ?thesis by auto
qed

theorem bloom_exists_exact_witness:
  "\<exists>f. bloom_add_all list_bitmap (\<lambda>d. of_nat (length d)) [''ab'', ''cde''] (new_bloom_filter list_bitmap 1024) = Ok f
     \<and> bloom_exists list_bitmap (\<lambda>d. of_nat (length d)) f ''ab'' = Ok True"
  using bloom_exists_exact [OF list_bitmap_laws, of 1024 "\<lambda>d. of_nat (length d)" "[''ab'', ''cde'']"] by auto

text \<open>
  A filter written by \<^verbatim>\<open>Save\<close> to a writer that accepts all bytes is read back unchanged by
  \<^verbatim>\<open>LoadBloomFilter\<close>, whatever follows in the file.
\<close>

lemma bloom_save_load:
  assumes "bitmap_laws B"
  shows "\<exists>out. bloom_save B (\<lambda>out bs. Ok (out @ bs)) f [] = Ok out
     \<and> load_bloom_filter B (out @ rest) = Ok (f, rest)"
  using assms by (simp add: bloom_save_def load_bloom_filter_def bitmap_laws_def byte_roundtrip)

lemma bloom_save_load_example:
  "\<exists>out. bloom_save list_bitmap (\<lambda>out bs. Ok (out @ bs)) (new_bloom_filter list_bitmap 1024) [] = Ok out
     \<and> load_bloom_filter list_bitmap (out @ ''tail'') = Ok (new_bloom_filter list_bitmap 1024, ''tail'')"
  by (rule bloom_save_load [OF list_bitmap_laws])

end
