(* ===== verification/Executor_Queue.thy ===== *)
theory Executor_Queue
  imports Step_System "HOL-Library.Multiset"
begin

text \<open>
  \<^verbatim>\<open>common/executor/executor.go\<close>: a bounded task channel drained by a fixed number of workers. A worker
  runs the handler under \<^verbatim>\<open>threading.RunSafe\<close>, which recovers from a panic of the handler, so that a
  task ends either way. The lemmas show that no task is lost, duplicated or reordered, and the bounds.
\<close>

section \<open>State and operations\<close>

text \<open>
  \<open>ex_committed\<close> and \<open>ex_started\<close> are the histories of the tasks sent to and received from the
  channel, \<open>ex_finished\<close> counts the handler calls that ended.
\<close>

record 'p executor =
  ex_tasks :: "'p list"
  ex_queue_size :: nat
  ex_workers :: nat
  ex_cancelled :: bool
  ex_running :: "'p multiset"
  ex_idle :: nat
  ex_committed :: "'p list"
  ex_started :: "'p list"
  ex_finished :: "'p multiset"

definition new_executor :: "nat \<Rightarrow> nat \<Rightarrow> 'p executor" where
  "new_executor workers queueSize =
     \<lparr>ex_tasks = [], ex_queue_size = queueSize, ex_workers = workers, ex_cancelled = False,
      ex_running = {#}, ex_idle = 0, ex_committed = [], ex_started = [], ex_finished = {#}\<rparr>"

text \<open>\<^verbatim>\<open>Start\<close> launches the workers; each loops over the channel until the context is cancelled.\<close>

definition executor_start :: "'p executor \<Rightarrow> 'p executor" where
  "executor_start e = e\<lparr>ex_idle := ex_workers e\<rparr>"

definition executor_stop :: "'p executor \<Rightarrow> 'p executor" where
  "executor_stop e = e\<lparr>ex_cancelled := True\<rparr>"

definition queue_size :: "'p executor \<Rightarrow> nat" where
  "queue_size e = length (ex_tasks e)"

text \<open>\<^verbatim>\<open>Commit\<close> sends to the channel: it waits (\<^const>\<open>None\<close>) while the channel is full.\<close>

definition commit :: "'p \<Rightarrow> 'p executor \<Rightarrow> 'p executor option" where
  "commit task e =
     (if length (ex_tasks e) < ex_queue_size e
      then Some (e\<lparr>ex_tasks := ex_tasks e @ [task], ex_committed := ex_committed e @ [task]\<rparr>)
      else None)"

text \<open>One iteration of a worker: receive a task and run the handler on it.\<close>

definition worker_receive :: "'p executor \<Rightarrow> 'p executor option" where
  "worker_receive e =
     (case ex_tasks e of
        [] \<Rightarrow> None
      | task # tasks \<Rightarrow>
          if ex_idle e = 0 then None
          else Some (e\<lparr>ex_tasks := tasks, ex_idle := ex_idle e - 1, ex_running := add_mset task (ex_running e),
                       ex_started := ex_started e @ [task]\<rparr>))"

definition worker_finish :: "'p \<Rightarrow> 'p executor \<Rightarrow> 'p executor option" where
  "worker_finish task e =
     (if task \<in># ex_running e
      then Some (e\<lparr>ex_running := ex_running e - {#task#}, ex_idle := ex_idle e + 1,
                   ex_finished := add_mset task (ex_finished e)\<rparr>)
      else None)"

text \<open>After cancellation an idle worker may leave its loop (the select may still prefer a task).\<close>

definition worker_exit :: "'p executor \<Rightarrow> 'p executor option" where
  "worker_exit e = (if ex_cancelled e \<and> ex_idle e > 0 then Some (e\<lparr>ex_idle := ex_idle e - 1\<rparr>) else None)"

inductive executor_step :: "'p executor \<Rightarrow> 'p executor \<Rightarrow> bool" where
  st_commit: "commit task e = Some e' \<Longrightarrow> executor_step e e'"
| st_receive: "worker_receive e = Some e' \<Longrightarrow> executor_step e e'"
| st_finish: "worker_finish task e = Some e' \<Longrightarrow> executor_step e e'"
| st_exit: "worker_exit e = Some e' \<Longrightarrow> executor_step e e'"
| st_stop: "executor_step e (executor_stop e)"

definition executor_begin :: "nat \<Rightarrow> nat \<Rightarrow> 'p executor \<Rightarrow> bool" where
  "executor_begin workers queueSize e \<longleftrightarrow> e = executor_start (new_executor workers queueSize)"

section \<open>The invariant\<close>

definition executor_inv :: "nat \<Rightarrow> nat \<Rightarrow> 'p executor \<Rightarrow> bool" where
  "executor_inv workers queueSize e \<longleftrightarrow>
     ex_queue_size e = queueSize \<and> ex_committed e = ex_started e @ ex_tasks e
     \<and> mset (ex_started e) = ex_running e + ex_finished e
     \<and> size (ex_running e) + ex_idle e \<le> workers \<and> length (ex_tasks e) \<le> queueSize"

lemmas executor_ops = commit_def worker_receive_def worker_finish_def worker_exit_def executor_stop_def

lemma executor_inv_step: "executor_inv w q e \<Longrightarrow> executor_step e e' \<Longrightarrow> executor_inv w q e'"
  by (rotate_tac, induction rule: executor_step.induct)
    (auto simp: executor_ops executor_inv_def size_Diff_singleton multi_member_split
      split: if_splits list.splits dest!: multi_member_split)

interpretation ex: inv_system "executor_begin w q" executor_step "executor_inv w q" for w q
  by unfold_locales
    (simp add: executor_begin_def executor_start_def new_executor_def executor_inv_def,
     rule executor_inv_step)

text \<open>
  Property C28. In every reachable state of an executor, the tasks were received in the order they were
  committed, every committed task is finished, running or queued exactly once, at most the configured
  number of handlers run and the queue does not exceed its size.
\<close>

theorem executor_fifo_no_loss:
  assumes "reach (executor_begin workers queueSize) executor_step e"
  shows "ex_committed e = ex_started e @ ex_tasks e
     \<and> mset (ex_committed e) = ex_finished e + ex_running e + mset (ex_tasks e)
     \<and> size (ex_running e) \<le> workers \<and> queue_size e \<le> queueSize"
  using ex.reach_inv [OF assms] by (auto simp: executor_inv_def queue_size_def ac_simps)

theorem executor_fifo_no_loss_witness:
  "\<exists>e :: string executor. reach (executor_begin 1 2) executor_step e
     \<and> ex_committed e = [''a'', ''b''] \<and> ex_started e = [''a''] \<and> size (ex_running e) \<le> 1"
proof -
  let ?e0 = "executor_start (new_executor 1 2) :: string executor"
  let ?e1 = "?e0\<lparr>ex_tasks := [''a''], ex_committed := [''a'']\<rparr>"
  let ?e2 = "?e1\<lparr>ex_tasks := [''a'', ''b''], ex_committed := [''a'', ''b'']\<rparr>"
  let ?e3 = "?e2\<lparr>ex_tasks := [''b''], ex_idle := 0, ex_running := {#''a''#}, ex_started := [''a'']\<rparr>"
  note defs = executor_ops executor_start_def new_executor_def
  have "reach (executor_begin 1 2) executor_step ?e0" by (rule reach_init) (simp add: executor_begin_def)
  moreover have "executor_step ?e0 ?e1" by (rule st_commit [of "''a''"]) (simp add: defs)
  moreover have "executor_step ?e1 ?e2" by (rule st_commit [of "''b''"]) (simp add: defs)
  moreover have "executor_step ?e2 ?e3" by (rule st_receive) (simp add: defs)
  ultimately have r: "reach (executor_begin 1 2) executor_step ?e3" by (blast intro: reach_step)
  from executor_fifo_no_loss [OF r] r show ?thesis by auto
qed

end
