(* ===== verification/Dht_Krpc.thy ===== *)
theory Dht_Krpc
  imports Bencode Go_Binary Go_Slice
begin

text \<open>
  Package \<^verbatim>\<open>common/dht\<close>: KRPC packets (\<^verbatim>\<open>krpc.go\<close>), nodes and their messages (\<^verbatim>\<open>node.go\<close>), the peer
  queries (\<^verbatim>\<open>peer.go\<close>) and transactions (\<^verbatim>\<open>transaction.go\<close>). A decoded packet holds slices of its
  receive buffer, and \<^verbatim>\<open>GetNeighbourID\<close> appends to such a slice, so byte slices live in a store.
\<close>

section \<open>\<open>krpc.go\<close>\<close>

text \<open>A UDP address: the bytes of the IP address (4 or 16) and the port.\<close>

record udp_addr =
  ip :: bytes
  port :: nat

record packet =
  p_buf :: slice
  p_data :: "(string \<times> slice any) list"
  p_addr :: "udp_addr option"

text \<open>A nil slice has capacity 0; a nil \<^verbatim>\<open>[]byte\<close> that is stored as \<^verbatim>\<open>any\<close> keeps its slice type.\<close>

definition nil_slice :: slice where
  "nil_slice = \<lparr>sl_arr = 0, sl_off = 0, sl_len = 0, sl_cap = 0\<rparr>"

definition any_of_slice :: "slice option \<Rightarrow> slice any" where
  "any_of_slice s = ABytes (case s of None \<Rightarrow> nil_slice | Some s \<Rightarrow> s)"

definition new_packet :: packet where
  "new_packet = \<lparr>p_buf = nil_slice, p_data = [], p_addr = None\<rparr>"

definition new_packet_from_buffer :: "slice \<Rightarrow> packet" where
  "new_packet_from_buffer buf = \<lparr>p_buf = buf, p_data = [], p_addr = None\<rparr>"

text \<open>The slice of the packet buffer that a decoder result stands for.\<close>

definition window :: "slice \<Rightarrow> span \<Rightarrow> slice" where
  "window buf s = buf\<lparr>sl_off := sl_off buf + fst s, sl_len := snd s - fst s, sl_cap := sl_cap buf - fst s\<rparr>"

definition packet_decode :: "store \<Rightarrow> packet \<Rightarrow> packet outcome" where
  "packet_decode h p =
     obind (bdecode (sl_read h (p_buf p))) (\<lambda>dict.
       case map_any (window (p_buf p)) dict of
         AMap m \<Rightarrow> Ok (p\<lparr>p_data := m\<rparr>)
       | _ \<Rightarrow> Err (Errorf ''illegal packet''))"

definition packet_encode :: "store \<Rightarrow> packet \<Rightarrow> (string \<times> store \<times> packet) outcome" where
  "packet_encode h p =
     obind (bencode (sl_read h) (AMap (p_data p))) (\<lambda>ret.
       let (h', b) = alloc h ret in Ok (ret, h', p\<lparr>p_buf := b\<rparr>))"

definition packet_set :: "string \<Rightarrow> slice any \<Rightarrow> packet \<Rightarrow> packet" where
  "packet_set key value p = p\<lparr>p_data := put key value (p_data p)\<rparr>"

definition set_t :: "slice option \<Rightarrow> packet \<Rightarrow> packet" where
  "set_t tid p = packet_set ''t'' (any_of_slice tid) p"

definition set_y :: "string \<Rightarrow> packet \<Rightarrow> packet" where
  "set_y y p = packet_set ''y'' (AString y) p"

definition set_v :: "string \<Rightarrow> packet \<Rightarrow> packet" where
  "set_v v p = packet_set ''v'' (AString v) p"

definition set_error :: "int \<Rightarrow> string \<Rightarrow> packet \<Rightarrow> packet" where
  "set_error code msg p = packet_set ''e'' (AList [AInt code, AString msg]) p"

definition get_t :: "packet \<Rightarrow> slice option outcome" where
  "get_t p =
     (case map_of (p_data p) ''t'' of
        None \<Rightarrow> Ok None
      | Some (ABytes b) \<Rightarrow> Ok (Some b)
      | Some _ \<Rightarrow> Panic BadTypeAssertion)"

definition get_y :: "store \<Rightarrow> packet \<Rightarrow> string outcome" where
  "get_y h p =
     (case map_of (p_data p) ''y'' of
        None \<Rightarrow> Ok []
      | Some (ABytes b) \<Rightarrow> Ok (sl_read h b)
      | Some _ \<Rightarrow> Panic BadTypeAssertion)"

definition get_q :: "store \<Rightarrow> packet \<Rightarrow> string outcome" where
  "get_q h p =
     (case map_of (p_data p) ''q'' of
        None \<Rightarrow> Ok []
      | Some (ABytes b) \<Rightarrow> Ok (sl_read h b)
      | Some _ \<Rightarrow> Panic BadTypeAssertion)"

definition packet_get :: "packet \<Rightarrow> string \<Rightarrow> slice any option" where
  "packet_get p key = map_of (p_data p) key"

definition packet_size :: "packet \<Rightarrow> nat" where
  "packet_size p = sl_len (p_buf p)"

definition new_empty_response_packet :: "slice \<Rightarrow> packet" where
  "new_empty_response_packet nodeID =
     packet_set ''r'' (AMap (put_all [(''id'', ABytes nodeID)] [])) (set_y ''r'' new_packet)"

section \<open>\<open>node.go\<close>\<close>

definition raw_node_length :: nat where
  "raw_node_length = 26"

record node =
  node_raw_ip :: slice
  node_raw_port :: slice
  node_addr :: udp_addr
  node_id :: slice

text \<open>\<open>rnd\<close> are the 20 bytes the random source delivers; \<open>sha1\<close> is the hash function.\<close>

definition generate_node_id :: "(bytes \<Rightarrow> bytes) \<Rightarrow> bytes \<Rightarrow> bytes" where
  "generate_node_id sha1 rnd = sha1 rnd"

text \<open>\<^verbatim>\<open>append(target[:10], nodeID[10:]...)\<close>.\<close>

definition get_neighbour_id :: "store \<Rightarrow> slice \<Rightarrow> slice \<Rightarrow> (store \<times> slice) outcome" where
  "get_neighbour_id h target nodeID =
     obind (reslice target 0 10) (\<lambda>head.
     obind (if 10 \<le> sl_len nodeID then reslice nodeID 10 (sl_len nodeID) else Panic SliceOutOfRange) (\<lambda>tail.
       Ok (append_slice h head (sl_read h tail))))"

definition new_node_from_raw :: "store \<Rightarrow> slice \<Rightarrow> node outcome" where
  "new_node_from_raw h raw =
     obind (reslice raw 0 20) (\<lambda>nodeID.
     obind (reslice raw 20 24) (\<lambda>rawIP.
     obind (reslice raw 24 26) (\<lambda>rawPort.
       Ok \<lparr>node_raw_ip = rawIP, node_raw_port = rawPort,
           node_addr = \<lparr>ip = sl_read h rawIP, port = unat (get_uint16 (sl_read h rawPort))\<rparr>,
           node_id = nodeID\<rparr>)))"

definition new_ping_request :: "slice \<Rightarrow> packet" where
  "new_ping_request nodeID =
     packet_set ''a'' (AMap (put_all [(''id'', ABytes nodeID)] []))
       (packet_set ''q'' (AString ''ping'') (set_y ''q'' new_packet))"

definition new_ping_response :: "slice \<Rightarrow> packet" where
  "new_ping_response nodeID =
     packet_set ''r'' (AMap (put_all [(''id'', ABytes nodeID)] [])) (set_y ''r'' new_packet)"

definition ping_response_node_id :: "packet \<Rightarrow> slice option outcome" where
  "ping_response_node_id p =
     (case packet_get p ''r'' of
        Some (AMap m) \<Rightarrow>
          (case map_of m ''id'' of Some (ABytes b) \<Rightarrow> Ok (Some b) | _ \<Rightarrow> Panic BadTypeAssertion)
      | _ \<Rightarrow> Ok None)"

text \<open>A ping response from a received packet is the packet with its own accessors.\<close>

definition new_ping_response_from_packet :: "packet \<Rightarrow> packet" where
  "new_ping_response_from_packet pkt = pkt"

definition ping_response_tid :: "packet \<Rightarrow> slice option outcome" where
  "ping_response_tid r = get_t r"

definition new_find_node_request :: "slice \<Rightarrow> slice \<Rightarrow> packet" where
  "new_find_node_request nodeID target =
     packet_set ''a'' (AMap (put_all [(''id'', ABytes nodeID), (''target'', ABytes target)] []))
       (packet_set ''q'' (AString ''find_node'') (set_y ''q'' new_packet))"

record find_node_response =
  fnr_tid :: "slice option"
  fnr_target_node_id :: slice
  fnr_nodes :: "node list"

text \<open>The loop \<^verbatim>\<open>for i := 0; (i+1)*rawNodeLength < len(rawNodes); i++\<close>.\<close>

function nodes_loop :: "store \<Rightarrow> slice \<Rightarrow> nat \<Rightarrow> node list \<Rightarrow> node list outcome" where
  "nodes_loop h rawNodes i nodes =
     (if (i + 1) * raw_node_length < sl_len rawNodes
      then case obind (reslice rawNodes (i * raw_node_length) ((i + 1) * raw_node_length)) (new_node_from_raw h) of
             Ok node \<Rightarrow> nodes_loop h rawNodes (i + 1) (nodes @ [node])
           | Err e \<Rightarrow> Err e
           | Panic p \<Rightarrow> Panic p
      else Ok nodes)"
  by pat_completeness auto
termination
  by (relation "measure (\<lambda>(h, rawNodes, i, nodes). sl_len rawNodes - i)") (auto simp: raw_node_length_def)

declare nodes_loop.simps [simp del]

definition map_bytes :: "(string \<times> slice any) list \<Rightarrow> string \<Rightarrow> slice outcome" where
  "map_bytes m k = (case map_of m k of Some (ABytes b) \<Rightarrow> Ok b | _ \<Rightarrow> Panic BadTypeAssertion)"

definition new_find_node_response :: "store \<Rightarrow> packet \<Rightarrow> find_node_response outcome" where
  "new_find_node_response h p =
     obind (get_t p) (\<lambda>tid.
       case packet_get p ''r'' of
         Some (AMap m) \<Rightarrow>
           obind (map_bytes m ''id'') (\<lambda>targetNodeID.
           obind (map_bytes m ''nodes'') (\<lambda>rawNodes.
           obind (nodes_loop h rawNodes 0 []) (\<lambda>nodes.
             Ok \<lparr>fnr_tid = tid, fnr_target_node_id = targetNodeID, fnr_nodes = nodes\<rparr>)))
       | _ \<Rightarrow> Err (Errorf ''illegal packet Data structure''))"

section \<open>\<open>peer.go\<close>\<close>

definition gp_node_id :: "packet \<Rightarrow> slice option" where
  "gp_node_id p = must_get_bytes (p_data p) ''a.id''"

definition gp_raw_info_hash :: "packet \<Rightarrow> slice option" where
  "gp_raw_info_hash p = must_get_bytes (p_data p) ''a.info_hash''"

definition gp_info_hash :: "packet \<Rightarrow> slice option" where
  "gp_info_hash p =
     (case gp_raw_info_hash p of
        None \<Rightarrow> None
      | Some raw \<Rightarrow> if sl_len raw < 20 then None else Some (raw\<lparr>sl_len := 20\<rparr>))"

text \<open>\<^verbatim>\<open>GetPeersRequest.Token\<close> reads the info hash, like \<^verbatim>\<open>InfoHash\<close>.\<close>

definition gp_token :: "packet \<Rightarrow> slice option" where
  "gp_token p =
     (case gp_raw_info_hash p of
        None \<Rightarrow> None
      | Some raw \<Rightarrow> if sl_len raw < 20 then None else Some (raw\<lparr>sl_len := 20\<rparr>))"

definition new_get_peers_response :: "slice \<Rightarrow> slice option \<Rightarrow> packet" where
  "new_get_peers_response nodeID token =
     packet_set ''r''
       (AMap (put_all [(''id'', ABytes nodeID), (''nodes'', AString ''''), (''token'', any_of_slice token)] []))
       (set_y ''r'' new_packet)"

definition ap_node_id :: "packet \<Rightarrow> slice option" where
  "ap_node_id p = must_get_bytes (p_data p) ''a.id''"

definition ap_info_hash :: "packet \<Rightarrow> slice option" where
  "ap_info_hash p = must_get_bytes (p_data p) ''a.info_hash''"

definition ap_implied_port :: "packet \<Rightarrow> int" where
  "ap_implied_port p = fst (get_int (p_data p) ''a.implied_port'')"

definition ap_port :: "packet \<Rightarrow> int" where
  "ap_port p = fst (get_int (p_data p) ''a.port'')"

definition ap_token :: "packet \<Rightarrow> slice option" where
  "ap_token p = must_get_bytes (p_data p) ''a.token''"

definition ap_name :: "store \<Rightarrow> packet \<Rightarrow> string" where
  "ap_name h p = fst (get_string (sl_read h) (p_data p) ''a.name'')"

section \<open>\<open>transaction.go\<close>\<close>

record transaction_context =
  tx_tid :: bytes
  tx_query_type :: string
  tx_created_at :: int

type_synonym transaction_storage = "(string \<times> transaction_context) list"

definition tx_add :: "transaction_context \<Rightarrow> transaction_storage \<Rightarrow> transaction_storage" where
  "tx_add ctx s = put (tx_tid ctx) ctx s"

definition tx_get :: "transaction_storage \<Rightarrow> bytes \<Rightarrow> transaction_context option" where
  "tx_get s tid = map_of s tid"

record transaction_manager =
  tm_next :: "32 word"

definition next_transaction_id :: "transaction_manager \<Rightarrow> bytes \<times> transaction_manager" where
  "next_transaction_id tm = (put_uint32 (tm_next tm), tm\<lparr>tm_next := tm_next tm + 1\<rparr>)"

fun transaction_ids :: "nat \<Rightarrow> transaction_manager \<Rightarrow> bytes list" where
  "transaction_ids 0 tm = []"
| "transaction_ids (Suc n) tm = (let (tid, tm') = next_transaction_id tm in tid # transaction_ids n tm')"


section \<open>Decoded packets hold windows of their buffer\<close>

lemma any_ok_set: "any_ok ok v \<Longrightarrow> b \<in> set_any v \<Longrightarrow> ok b"
  by (induction v) (fastforce simp: list_all_iff)+

lemma window_reslice:
  "span_ok (sl_read h buf) s \<Longrightarrow> slice_wf h buf \<Longrightarrow> reslice buf (fst s) (snd s) = Ok (window buf s)"
  by (auto simp: span_ok_def length_sl_read reslice_def window_def slice_wf_def)

lemma window_read: "span_ok (sl_read h buf) s \<Longrightarrow> slice_wf h buf \<Longrightarrow>
    sl_read h (window buf s) = span_read (sl_read h buf) s"
  using reslice_read [OF _ window_reslice] by (simp add: span_read_def span_ok_def length_sl_read)

lemma window_wf: "span_ok (sl_read h buf) s \<Longrightarrow> slice_wf h buf \<Longrightarrow> slice_wf h (window buf s)"
  using reslice_wf [OF _ window_reslice] by blast

lemma map_window_read:
  assumes "any_ok (span_ok (sl_read h buf)) v" "slice_wf h buf"
  shows "map_any (sl_read h) (map_any (window buf) v) = map_any (span_read (sl_read h buf)) v"
proof -
  have "map_any (sl_read h \<circ> window buf) v = map_any (span_read (sl_read h buf)) v"
    using assms by (intro any.map_cong refl) (auto dest: any_ok_set window_read)
  then show ?thesis by (simp add: any.map_comp)
qed

lemma bdecode_ok: "bdecode buf = Ok v \<Longrightarrow> any_ok (span_ok buf) v"
  by (auto simp: bdecode_def obind_eq_Ok dest: decode_any_ok(1))

lemma bdecode_benc:
  assumes "encodable rd v"
  obtains w where "bdecode (benc rd v) = Ok w" "map_any (span_read (benc rd v)) w = norm_any rd v"
    "any_ok (span_ok (benc rd v)) w"
proof -
  obtain w where w: "decode_any ([] @ benc rd v @ []) (length ([] :: bytes)) = Ok (w, length ([] :: bytes) + length (benc rd v))"
    "map_any (span_read ([] @ benc rd v @ [])) w = norm_any rd v"
    by (rule reads_backE [OF encodable_reads_back [OF assms]])
  then have "bdecode (benc rd v) = Ok w" by (simp add: bdecode_def)
  with w(2) that bdecode_ok show ?thesis by auto
qed

section \<open>Compact node information\<close>

text \<open>What 26 bytes of \<^verbatim>\<open>nodes\<close> mean: node id, IPv4 address, port.\<close>

definition parse_node :: "bytes \<Rightarrow> bytes \<times> udp_addr" where
  "parse_node b = (sub b 0 20, \<lparr>ip = sub b 20 24, port = be_val (sub b 24 26)\<rparr>)"

definition view_node :: "store \<Rightarrow> node \<Rightarrow> bytes \<times> udp_addr" where
  "view_node h n = (sl_read h (node_id n), node_addr n)"

lemma unat_get_uint16: "length bs = 2 \<Longrightarrow> unat (get_uint16 bs) = be_val bs"
  using be_val_less [of bs] by (simp add: get_uint16_def unat_of_nat)

lemma new_node_from_raw_ok:
  assumes "slice_wf h raw" "sl_len raw = raw_node_length"
  shows "\<exists>n. new_node_from_raw h raw = Ok n \<and> view_node h n = parse_node (sl_read h raw)"
proof -
  have c: "26 \<le> sl_cap raw" using assms by (simp add: slice_wf_def raw_node_length_def)
  let ?r = "\<lambda>lo hi. raw\<lparr>sl_off := sl_off raw + lo, sl_len := hi - lo, sl_cap := sl_cap raw - lo\<rparr>"
  have r: "reslice raw lo hi = Ok (?r lo hi)" if "lo \<le> hi" "hi \<le> 26" for lo hi
    using that c by (simp add: reslice_def)
  have rd: "sl_read h (?r lo hi) = sub (sl_read h raw) lo hi" if "lo \<le> hi" "hi \<le> 26" for lo hi
    using reslice_read [OF assms(1) r [OF that]] that assms(2) by (simp add: raw_node_length_def)
  have "length (sub (sl_read h raw) 24 26) = 2"
    using length_sl_read [OF assms(1)] assms(2) by (simp add: raw_node_length_def)
  then show ?thesis
    using rd [of 0 20] rd [of 20 24] rd [of 24 26]
    by (simp add: new_node_from_raw_def r view_node_def parse_node_def unat_get_uint16)
qed

lemma node_count: "(i + 1) * 26 < n \<longleftrightarrow> i < (n - 1) div 26" for n :: nat
  by auto

lemma nodes_loop_ok:
  assumes "slice_wf h rawNodes"
  shows "\<exists>ns. nodes_loop h rawNodes i nodes = Ok (nodes @ ns) \<and>
     map (view_node h) ns =
       map (\<lambda>k. parse_node (sub (sl_read h rawNodes) (k * 26) ((k + 1) * 26))) [i..<(sl_len rawNodes - 1) div 26]"
  using assms
proof (induction h rawNodes i nodes rule: nodes_loop.induct)
  case (1 h rawNodes i nodes)
  let ?e = "(sl_len rawNodes - 1) div 26"
  show ?case
  proof (cases "(i + 1) * raw_node_length < sl_len rawNodes")
    case True
    then have lt: "i < ?e" by (simp add: node_count [symmetric] raw_node_length_def)
    have b: "(i + 1) * 26 \<le> sl_len rawNodes" using True by (simp add: raw_node_length_def)
    then obtain raw where raw: "reslice rawNodes (i * raw_node_length) ((i + 1) * raw_node_length) = Ok raw"
      using "1.prems" by (simp add: reslice_def raw_node_length_def slice_wf_def)
    have w: "slice_wf h raw" and l: "sl_len raw = raw_node_length"
      and rd: "sl_read h raw = sub (sl_read h rawNodes) (i * 26) ((i + 1) * 26)"
      using reslice_wf [OF "1.prems" raw] reslice_read [OF "1.prems" raw] raw b
      by (auto simp: reslice_def raw_node_length_def split: if_splits)
    obtain n where n: "new_node_from_raw h raw = Ok n" "view_node h n = parse_node (sl_read h raw)"
      using new_node_from_raw_ok [OF w l] by blast
    have o: "obind (reslice rawNodes (i * raw_node_length) ((i + 1) * raw_node_length)) (new_node_from_raw h) = Ok n"
      using raw n(1) by simp
    from "1.IH" [OF True o "1.prems"] obtain ns where
      ns: "nodes_loop h rawNodes (i + 1) (nodes @ [n]) = Ok ((nodes @ [n]) @ ns)"
        "map (view_node h) ns =
           map (\<lambda>k. parse_node (sub (sl_read h rawNodes) (k * 26) ((k + 1) * 26))) [i + 1..<?e]"
      by blast
    have "nodes_loop h rawNodes i nodes = Ok (nodes @ (n # ns))"
      using True o ns(1) by (subst nodes_loop.simps) simp
    moreover have "[i..<?e] = i # [i + 1..<?e]" using lt by (simp add: upt_conv_Cons)
    ultimately show ?thesis using ns(2) n(2) rd by (intro exI [of _ "n # ns"]) simp
  next
    case False
    then have "?e \<le> i" by (simp add: node_count [symmetric] raw_node_length_def not_less)
    with False show ?thesis by (subst nodes_loop.simps) simp
  qed
qed

section \<open>Neighbour identifiers\<close>

lemma get_neighbour_id_ok:
  assumes "slice_wf h target" "slice_wf h nodeID" "10 \<le> sl_len target" "10 \<le> sl_len nodeID"
  shows "\<exists>h' s. get_neighbour_id h target nodeID = Ok (h', s)
     \<and> sl_read h' s = take 10 (sl_read h target) @ drop 10 (sl_read h nodeID)
     \<and> slice_wf h' s \<and> (\<forall>u. slice_wf h u \<longrightarrow> slice_wf h' u)"
proof -
  have cap: "sl_len target \<le> sl_cap target" "sl_len nodeID \<le> sl_cap nodeID"
    using assms by (auto simp: slice_wf_def)
  obtain hd where hd: "reslice target 0 10 = Ok hd"
    using assms(3) cap by (simp add: reslice_def)
  obtain tl where tl: "reslice nodeID 10 (sl_len nodeID) = Ok tl"
    using assms(4) cap by (simp add: reslice_def)
  obtain h' s where a: "append_slice h hd (sl_read h tl) = (h', s)" by fastforce
  have w: "slice_wf h hd" by (rule reslice_wf [OF assms(1) hd])
  have "sl_read h hd = take 10 (sl_read h target)"
    using reslice_read [OF assms(1) hd assms(3)] by (simp add: sub_def)
  moreover have "sl_read h tl = drop 10 (sl_read h nodeID)"
    using reslice_read [OF assms(2) tl] length_sl_read [OF assms(2)] by (simp add: sub_def)
  ultimately show ?thesis
    using hd tl a assms(4) append_slice_read [OF w a] append_slice_wf [OF w a]
    by (auto simp: get_neighbour_id_def)
qed

text \<open>The result shares the array of the target when the target's capacity suffices.\<close>

lemma get_neighbour_id_in_place:
  assumes "get_neighbour_id h target nodeID = Ok (h', s)" "10 \<le> sl_len nodeID" "slice_wf h nodeID"
    "sl_len nodeID \<le> sl_cap target"
  shows "s = target\<lparr>sl_len := sl_len nodeID\<rparr>"
proof -
  obtain tl where tl: "reslice nodeID 10 (sl_len nodeID) = Ok tl"
    using assms(2,3) by (simp add: reslice_def slice_wf_def)
  have "length (sl_read h tl) = sl_len nodeID - 10"
    using length_sl_read [OF reslice_wf [OF assms(3) tl]] tl by (auto simp: reslice_def split: if_splits)
  then show ?thesis
    using assms tl
    by (auto simp: get_neighbour_id_def obind_eq_Ok reslice_def append_slice_def split: if_splits)
qed


text \<open>Only the bytes behind the tenth of the target are written.\<close>

lemma get_neighbour_id_frame:
  assumes "get_neighbour_id h target nodeID = Ok (h', s)" "slice_wf h target" "slice_wf h nodeID" "slice_wf h u"
    and "sl_arr u \<noteq> sl_arr target \<or> sl_off u + sl_len u \<le> sl_off target + 10 \<or> sl_off target + sl_len nodeID \<le> sl_off u"
  shows "sl_read h' u = sl_read h u"
proof -
  obtain hd tl where *: "reslice target 0 10 = Ok hd" "10 \<le> sl_len nodeID" "reslice nodeID 10 (sl_len nodeID) = Ok tl"
    "append_slice h hd (sl_read h tl) = (h', s)"
    using assms(1) by (auto simp: get_neighbour_id_def obind_eq_Ok split: if_splits)
  have "length (sl_read h tl) = sl_len nodeID - 10"
    using length_sl_read [OF reslice_wf [OF assms(3) *(3)]] *(3) by (auto simp: reslice_def split: if_splits)
  moreover have "sl_arr hd = sl_arr target" "sl_off hd = sl_off target" "sl_len hd = 10"
    using *(1) by (auto simp: reslice_def split: if_splits)
  ultimately show ?thesis
    using append_slice_frame [OF reslice_wf [OF assms(2) *(1)] assms(4) *(4)] assms(5) *(2) by auto
qed

text \<open>A ping response carries the transaction and the identifier it was made with.\<close>

lemma ping_response_read:
  "ping_response_tid (new_ping_response_from_packet (set_t (Some t) (new_ping_response nodeID))) = Ok (Some t)"
  "ping_response_node_id (new_ping_response_from_packet (set_t (Some t) (new_ping_response nodeID))) = Ok (Some nodeID)"
  by (simp_all add: ping_response_tid_def get_t_def ping_response_node_id_def new_ping_response_from_packet_def set_t_def
      new_ping_response_def packet_get_def packet_set_def set_y_def new_packet_def any_of_slice_def less_char_def)

section \<open>Properties\<close>

text \<open>
  Property C22. Packet round trip: a packet whose data has the supported types is encoded without an
  error; a packet received with these bytes decodes to the same data (strings as bytes), held in
  slices of the receive buffer.
\<close>

theorem packet_roundtrip:
  assumes "encodable (sl_read h) (AMap (p_data p))"
  shows "\<exists>ret h' p'. packet_encode h p = Ok (ret, h', p') \<and> packet_size p' = length ret \<and>
     (\<exists>q. packet_decode h' (new_packet_from_buffer (p_buf p')) = Ok q
        \<and> map_any (sl_read h') (AMap (p_data q)) = norm_any (sl_read h) (AMap (p_data p)))"
proof -
  let ?v = "AMap (p_data p)" and ?ret = "benc (sl_read h) (AMap (p_data p))"
  have e: "bencode (sl_read h) ?v = Ok ?ret"
    using encode_any_benc [OF assms, of "[]"] by (simp add: bencode_def)
  obtain h' b where a: "alloc h ?ret = (h', b)" by fastforce
  have rb: "sl_read h' b = ?ret" "slice_wf h' b" by (rule alloc_read [OF a], rule alloc_wf [OF a])
  obtain w where w: "bdecode ?ret = Ok w" "map_any (span_read ?ret) w = norm_any (sl_read h) ?v"
    "any_ok (span_ok ?ret) w"
    by (rule bdecode_benc [OF assms])
  from w(2) obtain m where m: "w = AMap m" by (cases w) auto
  define q where "q = (new_packet_from_buffer b)\<lparr>p_data := map (map_prod id (map_any (window b))) m\<rparr>"
  have "packet_decode h' (new_packet_from_buffer b) = Ok q"
    using w(1) rb(1) by (simp add: packet_decode_def new_packet_from_buffer_def m map_any_AMap q_def)
  moreover have "map_any (sl_read h') (AMap (p_data q)) = norm_any (sl_read h) ?v"
  proof -
    have "AMap (p_data q) = map_any (window b) w" by (simp add: q_def m map_any_AMap)
    moreover have "any_ok (span_ok (sl_read h' b)) w" by (simp only: rb(1) w(3))
    ultimately show ?thesis
      using map_window_read [of h' b w] by (simp only: rb(1) w(2) rb(2))
  qed
  moreover have "packet_encode h p = Ok (?ret, h', p\<lparr>p_buf := b\<rparr>)"
    by (simp only: packet_encode_def e obind.simps a prod.case Let_def)
  moreover have "packet_size (p\<lparr>p_buf := b\<rparr>) = length ?ret"
    using length_sl_read [OF rb(2)] by (simp only: rb(1) packet_size_def) simp
  ultimately show ?thesis by (metis packet.select_convs(1) packet.surjective packet.update_convs(1))
qed

theorem packet_roundtrip_witness:
  "let h = [''abcdefghij0123456789'']; nid = \<lparr>sl_arr = 0, sl_off = 0, sl_len = 20, sl_cap = 20\<rparr>;
       p = new_ping_request nid
   in \<exists>ret h' p' q. packet_encode h p = Ok (ret, h', p')
        \<and> packet_decode h' (new_packet_from_buffer (p_buf p')) = Ok q
        \<and> map_any (sl_read h') (AMap (p_data q)) =
            AMap [(''a'', AMap [(''id'', ABytes ''abcdefghij0123456789'')]), (''q'', ABytes ''ping''), (''y'', ABytes ''q'')]"
proof -
  let ?h = "[''abcdefghij0123456789'']"
  let ?nid = "\<lparr>sl_arr = 0, sl_off = 0, sl_len = 20, sl_cap = 20\<rparr>"
  have d: "p_data (new_ping_request ?nid) =
      [(''a'', AMap [(''id'', ABytes ?nid)]), (''q'', AString ''ping''), (''y'', AString ''q'')]"
    by (simp add: new_ping_request_def set_y_def packet_set_def new_packet_def less_char_def)
  have rd: "sl_read ?h ?nid = ''abcdefghij0123456789''" by (simp add: sl_read_def sub_def)
  have "encodable (sl_read ?h) (AMap (p_data (new_ping_request ?nid)))"
    by (simp add: d rd is_int64_def int64_min_def int64_max_def less_char_def)
  from packet_roundtrip [OF this] show ?thesis by (auto simp: d rd Let_def)
qed

text \<open>
  Property C33. \<^verbatim>\<open>NewFindNodeResponse\<close> returns exactly the first \<open>(len - 1) div 26\<close> compact nodes of
  \<^verbatim>\<open>nodes\<close>, each with the identifier, address and port of its 26 bytes. For a well-formed string of
  \<open>k\<close> nodes (\<open>26 k\<close> bytes) that is all but the last one.
\<close>

theorem find_node_response_nodes:
  assumes "get_t p = Ok tid" "packet_get p ''r'' = Some (AMap m)"
    "map_of m ''id'' = Some (ABytes nid)" "map_of m ''nodes'' = Some (ABytes raw)" "slice_wf h raw"
  shows "\<exists>r. new_find_node_response h p = Ok r \<and> fnr_tid r = tid \<and> fnr_target_node_id r = nid
     \<and> map (view_node h) (fnr_nodes r) =
         map (\<lambda>k. parse_node (sub (sl_read h raw) (k * 26) ((k + 1) * 26))) [0..<(sl_len raw - 1) div 26]"
proof -
  obtain ns where ns: "nodes_loop h raw 0 [] = Ok ([] @ ns)" "map (view_node h) ns =
      map (\<lambda>k. parse_node (sub (sl_read h raw) (k * 26) ((k + 1) * 26))) [0..<(sl_len raw - 1) div 26]"
    using nodes_loop_ok [OF assms(5), of 0 "[]"] by blast
  with assms show ?thesis by (simp add: new_find_node_response_def map_bytes_def)
qed

theorem find_node_response_nodes_witness:
  "\<exists>r. new_find_node_response [replicate 52 CHR ''A'']
         \<lparr>p_buf = nil_slice,
          p_data = [(''r'', AMap [(''id'', ABytes \<lparr>sl_arr = 0, sl_off = 0, sl_len = 20, sl_cap = 52\<rparr>),
                                  (''nodes'', ABytes \<lparr>sl_arr = 0, sl_off = 0, sl_len = 52, sl_cap = 52\<rparr>)])],
          p_addr = None\<rparr> = Ok r \<and> length (fnr_nodes r) = 1"
proof -
  let ?h = "[replicate 52 CHR ''A'']"
  let ?nid = "\<lparr>sl_arr = 0, sl_off = 0, sl_len = 20, sl_cap = 52\<rparr>"
  let ?raw = "\<lparr>sl_arr = 0, sl_off = 0, sl_len = 52, sl_cap = 52\<rparr>"
  let ?p = "\<lparr>p_buf = nil_slice, p_data = [(''r'', AMap [(''id'', ABytes ?nid), (''nodes'', ABytes ?raw)])], p_addr = None\<rparr>"
  have "get_t ?p = Ok None" "packet_get ?p ''r'' = Some (AMap [(''id'', ABytes ?nid), (''nodes'', ABytes ?raw)])"
    "slice_wf ?h ?raw"
    by (simp_all add: get_t_def packet_get_def slice_wf_def)
  from find_node_response_nodes [OF this(1,2) _ _ this(3)] obtain r where
    "new_find_node_response ?h ?p = Ok r"
    "map (view_node ?h) (fnr_nodes r) =
       map (\<lambda>k. parse_node (sub (sl_read ?h ?raw) (k * 26) ((k + 1) * 26))) [0..<(sl_len ?raw - 1) div 26]"
    by auto
  moreover from arg_cong [OF this(2), of length] have "length (fnr_nodes r) = 1"
     by (simp del: upt_Suc)
  ultimately show ?thesis by blast
qed

text \<open>
  \<^verbatim>\<open>GetNeighbourID\<close> returns the first ten bytes of the target followed by our own
  identifier from byte ten on, and, because it appends to a slice of the target, it overwrites the
  target: a 20-byte target with enough capacity reads like the result afterwards.
\<close>

lemma neighbour_id_overwrites_target:
  assumes "slice_wf h target" "slice_wf h nodeID" "sl_len target = 20" "sl_len nodeID = 20"
  shows "\<exists>h' s. get_neighbour_id h target nodeID = Ok (h', s)
     \<and> sl_read h' s = take 10 (sl_read h target) @ drop 10 (sl_read h nodeID)
     \<and> sl_read h' target = sl_read h' s"
proof -
  obtain h' s where s: "get_neighbour_id h target nodeID = Ok (h', s)"
    "sl_read h' s = take 10 (sl_read h target) @ drop 10 (sl_read h nodeID)"
    using get_neighbour_id_ok [OF assms(1,2)] assms(3,4) by fastforce
  have "s = target\<lparr>sl_len := sl_len nodeID\<rparr>"
    by (rule get_neighbour_id_in_place [OF s(1)]) (use assms in \<open>auto simp: slice_wf_def\<close>)
  then have "s = target" using assms(3,4) by simp
  with s show ?thesis by blast
qed

lemma neighbour_id_overwrites_target_example:
  "\<exists>h' s. get_neighbour_id [replicate 20 CHR ''T'', replicate 20 CHR ''N'']
       \<lparr>sl_arr = 0, sl_off = 0, sl_len = 20, sl_cap = 20\<rparr> \<lparr>sl_arr = 1, sl_off = 0, sl_len = 20, sl_cap = 20\<rparr> = Ok (h', s)
     \<and> sl_read h' \<lparr>sl_arr = 0, sl_off = 0, sl_len = 20, sl_cap = 20\<rparr> = replicate 10 CHR ''T'' @ replicate 10 CHR ''N''"
proof -
  let ?h = "[replicate 20 CHR ''T'', replicate 20 CHR ''N'']"
  let ?t = "\<lparr>sl_arr = 0, sl_off = 0, sl_len = 20, sl_cap = 20\<rparr>"
  let ?n = "\<lparr>sl_arr = 1, sl_off = 0, sl_len = 20, sl_cap = 20\<rparr>"
  have "slice_wf ?h ?t" "slice_wf ?h ?n" by (simp_all add: slice_wf_def)
  from neighbour_id_overwrites_target [OF this] show ?thesis by (auto simp: sl_read_def sub_def)
qed

lemma transaction_ids_eq:
  "transaction_ids n tm = map (\<lambda>i. put_uint32 (tm_next tm + of_nat i)) [0..<n]"
proof (induction n arbitrary: tm)
  case (Suc n)
  have "[0..<Suc n] = 0 # map Suc [0..<n]" by (simp add: upt_conv_Cons map_Suc_upt)
  with Suc show ?case by (simp add: next_transaction_id_def algebra_simps comp_def)
qed simp

text \<open>
  Transaction identifiers are 4 bytes long and any \<open>2 ^ 32\<close> consecutive ones are pairwise
  different, whatever the counter's value.
\<close>

lemma transaction_ids_distinct:
  assumes "n \<le> 2 ^ 32"
  shows "distinct (transaction_ids n tm) \<and> (\<forall>tid \<in> set (transaction_ids n tm). length tid = 4)"
proof -
  have "inj_on (\<lambda>i. put_uint32 (tm_next tm + of_nat i)) {0..<n}"
  proof (rule inj_onI)
    fix i j assume ij: "i \<in> {0..<n}" "j \<in> {0..<n}"
      and eq: "put_uint32 (tm_next tm + of_nat i) = put_uint32 (tm_next tm + of_nat j)"
    then have "(of_nat i :: 32 word) = of_nat j" by (simp add: put_uint32_inject)
    then have "unat (of_nat i :: 32 word) = unat (of_nat j :: 32 word)" by simp
    with ij assms show "i = j" by (simp add: unat_of_nat)
  qed
  then show ?thesis by (auto simp: transaction_ids_eq distinct_map)
qed

lemma transaction_ids_distinct_example: "distinct (transaction_ids 1000 \<lparr>tm_next = 4294967295\<rparr>)"
  using transaction_ids_distinct [of 1000 "\<lparr>tm_next = 4294967295\<rparr>"] by simp

end
