(* ===== verification/Net_Addr.thy ===== *)
theory Net_Addr
  imports Dht_Krpc
begin

text \<open>
  The textual form of UDP addresses (\<^verbatim>\<open>net.UDPAddr.String\<close>, \<^verbatim>\<open>net.IP.String\<close>), which the crawler uses as
  the key of the nodes it has seen and as the address of a peer. The lemmas show that the text of an
  IPv4 address determines the address, so that no two nodes share a key.
\<close>

section \<open>Printing\<close>

fun join :: "string \<Rightarrow> string list \<Rightarrow> string" where
  "join sep [] = []"
| "join sep [s] = s"
| "join sep (s # t # ss) = s @ sep @ join sep (t # ss)"

definition ipv4_string :: "bytes \<Rightarrow> string" where
  "ipv4_string b = join ''.'' (map (\<lambda>c. nat_str (of_char c)) b)"

text \<open>A group of an IPv6 address: at most four hexadecimal digits without leading zeros.\<close>

fun hex_str :: "nat \<Rightarrow> string" where
  "hex_str n = (if n < 16 then [hex_digit n] else hex_str (n div 16) @ [hex_digit (n mod 16)])"

declare hex_str.simps [simp del]

fun groups :: "bytes \<Rightarrow> nat list" where
  "groups (a # b # r) = (of_char a * 256 + of_char b) # groups r"
| "groups _ = []"

definition zero_run :: "nat list \<Rightarrow> nat" where
  "zero_run gs = length (takeWhile (\<lambda>g. g = 0) gs)"

text \<open>The first longest run of at least two zero groups: its position and length.\<close>

fun best_run :: "nat \<Rightarrow> nat list \<Rightarrow> (nat \<times> nat) option \<Rightarrow> (nat \<times> nat) option" where
  "best_run i [] best = best"
| "best_run i (g # gs) best =
     (let l = zero_run (g # gs)
      in best_run (i + 1) gs
           (if 2 \<le> l \<and> (case best of None \<Rightarrow> True | Some (_, m) \<Rightarrow> m < l) then Some (i, l) else best))"

definition ipv6_string :: "bytes \<Rightarrow> string" where
  "ipv6_string b =
     (let gs = groups b
      in case best_run 0 gs None of
           None \<Rightarrow> join '':'' (map hex_str gs)
         | Some (i, l) \<Rightarrow>
             join '':'' (map hex_str (take i gs)) @ ''::'' @ join '':'' (map hex_str (drop (i + l) gs)))"

definition v4_mapped :: "bytes \<Rightarrow> bool" where
  "v4_mapped b \<longleftrightarrow> length b = 16 \<and> take 12 b = replicate 10 (char_of (0 :: nat)) @ replicate 2 (char_of (255 :: nat))"

definition ip_string :: "bytes \<Rightarrow> string" where
  "ip_string b =
     (if length b = 4 then ipv4_string b
      else if v4_mapped b then ipv4_string (drop 12 b)
      else if length b = 16 then ipv6_string b
      else if b = [] then ''<nil>''
      else ''?'' @ hex_encode b)"

definition udp_addr_string :: "udp_addr \<Rightarrow> string" where
  "udp_addr_string a =
     (let host = ip_string (ip a)
      in (if CHR '':'' \<in> set host then ''['' @ host @ '']'' else host) @ '':'' @ nat_str (port a))"

text \<open>\<^verbatim>\<open>IP.IsUnspecified\<close>: \<^verbatim>\<open>0.0.0.0\<close> in either form, or \<^verbatim>\<open>::\<close>.\<close>

definition is_unspecified :: "bytes \<Rightarrow> bool" where
  "is_unspecified b \<longleftrightarrow>
     (length b = 4 \<or> length b = 16) \<and> (list_all (\<lambda>c. c = char_of (0 :: nat)) b
       \<or> v4_mapped b \<and> list_all (\<lambda>c. c = char_of (0 :: nat)) (drop 12 b))"

text \<open>Whether \<^verbatim>\<open>netip.ParseAddrPort\<close> accepts the text of an address.\<close>

definition addr_parses :: "udp_addr \<Rightarrow> bool" where
  "addr_parses a \<longleftrightarrow> (length (ip a) = 4 \<or> length (ip a) = 16) \<and> port a < 65536"

section \<open>The text of an IPv4 address determines it\<close>

lemma nat_str_inject: "nat_str m = nat_str n \<longleftrightarrow> m = n"
  by (metis digits_val_nat_str)

lemma split_on_join:
  "ss \<noteq> [] \<Longrightarrow> list_all (\<lambda>s. c \<notin> set s) ss \<Longrightarrow> split_on c (join [c] ss) = ss"
  by (induction "[c]" ss rule: join.induct) (auto simp: split_on_no_sep split_on_append)

lemma ipv4_string_inject:
  assumes "a \<noteq> []" "b \<noteq> []"
  shows "ipv4_string a = ipv4_string b \<longleftrightarrow> a = b"
proof
  assume "ipv4_string a = ipv4_string b"
  have s: "split_on CHR ''.'' (ipv4_string x) = map (\<lambda>c. nat_str (of_char c)) x" if "x \<noteq> []" for x
    using that unfolding ipv4_string_def
    by (intro split_on_join) (auto simp: list_all_iff dest: nat_str_set_digit simp: is_digit_def)
  have "map (\<lambda>c. nat_str (of_char c)) a = map (\<lambda>c. nat_str (of_char c)) b"
    using s [OF assms(1)] s [OF assms(2)] \<open>ipv4_string a = ipv4_string b\<close> by simp
  then show "a = b" by (simp add: inj_map_eq_map inj_def nat_str_inject)
qed simp

lemma ipv4_string_chars: "c \<in> set (ipv4_string b) \<Longrightarrow> is_digit c \<or> c = CHR ''.''"
proof -
  have "c \<in> set (join ''.'' ss) \<Longrightarrow> c = CHR ''.'' \<or> (\<exists>s \<in> set ss. c \<in> set s)" for ss
    by (induction "''.''" ss rule: join.induct) auto
  then show "c \<in> set (ipv4_string b) \<Longrightarrow> is_digit c \<or> c = CHR ''.''"
    by (fastforce simp: ipv4_string_def dest: nat_str_set_digit)
qed

lemma ipv4_no_colon: "CHR '':'' \<notin> set (ipv4_string b)"
  by (auto dest!: ipv4_string_chars simp: is_digit_def)

section \<open>Properties\<close>

text \<open>
  The key under which the crawler remembers a node identifies it: two IPv4 addresses have
  the same text only when address and port agree.
\<close>

lemma node_key_identifies:
  assumes "length (ip a) = 4" "length (ip b) = 4"
  shows "udp_addr_string a = udp_addr_string b \<longleftrightarrow> a = b"
proof
  assume eq: "udp_addr_string a = udp_addr_string b"
  have t: "udp_addr_string x = ipv4_string (ip x) @ CHR '':'' # nat_str (port x)" if "length (ip x) = 4" for x
    using that by (simp add: udp_addr_string_def ip_string_def ipv4_no_colon)
  have "ipv4_string (ip a) = ipv4_string (ip b) \<and> nat_str (port a) = nat_str (port b)"
    using eq t [OF assms(1)] t [OF assms(2)] ipv4_no_colon [of "ip a"] ipv4_no_colon [of "ip b"]
    by (metis append_eq_conv_conj takeWhile_neq_append list.inject same_append_eq)
  moreover have "ip a \<noteq> []" "ip b \<noteq> []" using assms by auto
  ultimately have "ip a = ip b" "port a = port b" by (simp_all add: ipv4_string_inject nat_str_inject)
  then show "a = b" by (cases a; cases b) simp
qed simp

lemma node_key_identifies_example:
  "udp_addr_string \<lparr>ip = map char_of [1, 2, 3, 4 :: nat], port = 80\<rparr> \<noteq> udp_addr_string \<lparr>ip = map char_of [1, 2, 3, 4 :: nat], port = 81\<rparr>"
  using node_key_identifies [of "\<lparr>ip = map char_of [1, 2, 3, 4 :: nat], port = 80\<rparr>" "\<lparr>ip = map char_of [1, 2, 3, 4 :: nat], port = 81\<rparr>"]
  by simp

end
