(* ===== verification/Dht_Print.thy ===== *)
theory Dht_Print
  imports Dht_Krpc Net_Addr "HOL-Library.Multiset"
begin

text \<open>
  The text form of a packet, \<^verbatim>\<open>String\<close> in \<^verbatim>\<open>common/dht/krpc.go\<close>. The entries of a map are printed in the order
  in which \<^verbatim>\<open>range\<close> visits them, which Go leaves open: the model prints a list of entries in its order, and
  the lemmas show that another order permutes the characters and nothing else. They also show that no
  string of a received packet is printed in hexadecimal: the decoder returns byte slices, which the
  switch prints as they are.
\<close>

section \<open>Printing\<close>

text \<open>\<^verbatim>\<open>%X\<close> of a string: the hexadecimal digits in upper case.\<close>

definition upper_digit :: "char \<Rightarrow> char" where
  "upper_digit c = (if CHR ''a'' \<le> c then char_of (of_char c - 32 :: nat) else c)"

definition hex_upper :: "bytes \<Rightarrow> string" where
  "hex_upper s = map upper_digit (hex_encode s)"

definition newline :: string where
  "newline = [char_of (10 :: nat)]"

definition indent :: "string \<Rightarrow> string" where
  "indent prefix = prefix @ ''  ''"

text \<open>\<open>rd\<close> reads a slice; \<open>other\<close> is what \<^verbatim>\<open>%s\<close> makes of a value of any other dynamic type.\<close>

function (sequential)
    print_any :: "('b \<Rightarrow> bytes) \<Rightarrow> string \<Rightarrow> 'b any \<Rightarrow> string \<Rightarrow> string"
  and print_map :: "('b \<Rightarrow> bytes) \<Rightarrow> string \<Rightarrow> (string \<times> 'b any) list \<Rightarrow> string \<Rightarrow> string"
  and print_list :: "('b \<Rightarrow> bytes) \<Rightarrow> string \<Rightarrow> 'b any list \<Rightarrow> string \<Rightarrow> string"
where
  "print_any rd other (AString s) prefix = hex_upper s @ newline"
| "print_any rd other (AMap m) prefix = ''{'' @ newline @ print_map rd other m (indent prefix) @ prefix @ ''}'' @ newline"
| "print_any rd other (AList xs) prefix = ''['' @ newline @ print_list rd other xs (indent prefix)"
| "print_any rd other (AInt k) prefix = itoa k @ newline"
| "print_any rd other (ABytes b) prefix = rd b @ newline"
| "print_any rd other AOther prefix = other @ newline"
| "print_map rd other [] prefix = []"
| "print_map rd other ((k, v) # m) prefix = prefix @ k @ '': '' @ print_any rd other v (indent prefix) @ print_map rd other m prefix"
| "print_list rd other [] prefix = []"
| "print_list rd other (e # xs) prefix = print_any rd other e prefix @ print_list rd other xs prefix"
  by pat_completeness auto
termination
  by (relation "measures
      [\<lambda>x. case x of Inl (rd, other, v, p) \<Rightarrow> size v
          | Inr (Inl (rd, other, m, p)) \<Rightarrow> size (AMap m) | Inr (Inr (rd, other, xs, p)) \<Rightarrow> size (AList xs),
       \<lambda>x. case x of Inl _ \<Rightarrow> 1 | Inr _ \<Rightarrow> 0]") auto

definition packet_string :: "store \<Rightarrow> string \<Rightarrow> packet \<Rightarrow> string" where
  "packet_string h other p = print_map (sl_read h) other (p_data p) []"

text \<open>
  \<^verbatim>\<open>Print\<close> of a node (\<^verbatim>\<open>node.go\<close>): it reads the address from the raw bytes of the node, four of the address and
  two of the port.
\<close>

definition node_get_ip :: "store \<Rightarrow> node \<Rightarrow> bytes outcome" where
  "node_get_ip h n = (if sl_len (node_raw_ip n) < 4 then Panic IndexOutOfRange else Ok (take 4 (sl_read h (node_raw_ip n))))"

definition node_get_port :: "store \<Rightarrow> node \<Rightarrow> nat outcome" where
  "node_get_port h n =
     (if sl_len (node_raw_port n) < 2 then Panic IndexOutOfRange else Ok (unat (get_uint16 (take 2 (sl_read h (node_raw_port n))))))"

definition node_print :: "store \<Rightarrow> node \<Rightarrow> string outcome" where
  "node_print h n =
     obind (node_get_ip h n) (\<lambda>a. obind (node_get_port h n) (\<lambda>p.
       Ok (''ID: '' @ hex_encode (sl_read h (node_id n)) @ newline @ ''IP: '' @ ip_string a @ newline
           @ ''Port: '' @ itoa (int p) @ newline @ newline)))"

section \<open>Lemmas\<close>

lemma print_map_concat:
  "print_map rd other m prefix = concat (map (\<lambda>e. prefix @ fst e @ '': '' @ print_any rd other (snd e) (indent prefix)) m)"
  by (induction m) auto

text \<open>Another order of the entries permutes the text.\<close>

lemma print_map_order:
  assumes "mset m = mset m'"
  shows "mset (print_map rd other m prefix) = mset (print_map rd other m' prefix)"
proof -
  have "image_mset (\<lambda>e. mset (prefix @ fst e @ '': '' @ print_any rd other (snd e) (indent prefix))) (mset m)
      = image_mset (\<lambda>e. mset (prefix @ fst e @ '': '' @ print_any rd other (snd e) (indent prefix))) (mset m')"
    using assms by simp
  then show ?thesis by (simp add: print_map_concat mset_concat sum_mset_sum_list [symmetric] image_mset.compositionality o_def)
qed

text \<open>The values a decoder returns hold no Go strings.\<close>

primrec no_strings :: "'b any \<Rightarrow> bool" where
  "no_strings (AInt k) = True"
| "no_strings (AString s) = False"
| "no_strings (ABytes b) = True"
| "no_strings (AList xs) = list_all id (map no_strings xs)"
| "no_strings (AMap m) = list_all (\<lambda>e. snd e) (map (map_prod id no_strings) m)"
| "no_strings AOther = True"

lemma no_strings_put: "no_strings (AMap m) \<Longrightarrow> no_strings v \<Longrightarrow> no_strings (AMap (put k v m))"
  using set_put_subset [of k v m] by (auto simp: list_all_iff dest!: subsetD)

lemma decode_no_strings:
  "decode_any buf pos = Ok (v, off) \<Longrightarrow> no_strings v"
  "decode_list_loop buf i ret = Ok (xs, off') \<Longrightarrow> no_strings (AList ret) \<Longrightarrow> no_strings (AList xs)"
  "decode_dict_loop buf j isKey key m = Ok (m', off'') \<Longrightarrow> no_strings (AMap m) \<Longrightarrow> no_strings (AMap m')"
proof (induction buf pos and buf i ret and buf j isKey key m arbitrary: v off and xs off' and m' off''
    rule: decode_any_decode_list_loop_decode_dict_loop.induct)
  case (1 buf pos)
  from "1.prems" show ?case
    by (subst (asm) decode_any.simps) (auto simp: obind_eq_Ok split: if_splits dest: "1.IH"(1) "1.IH"(2))
next
  case (2 buf i ret)
  from "2.prems" "2.IH"(1) [OF conjI] "2.IH"(2) [OF conjI _ refl] show ?case
    by (subst (asm) decode_list_loop.simps) (auto split: if_splits outcome.splits)
next
  case (3 buf i isKey key ret)
  show ?case
  proof (cases "i < length buf \<and> buf ! i \<noteq> CHR ''e'' \<and> \<not> isKey")
    case True
    with "3.prems"(1) obtain item off where d: "decode_any buf i = Ok (item, off)" "i < off"
      "decode_dict_loop buf off True key (put key item ret) = Ok (m', off'')"
      by (subst (asm) decode_dict_loop.simps) (auto split: if_splits outcome.splits)
    with True "3.IH"(1) "3.prems"(2) have "no_strings (AMap (put key item ret))" by (blast intro: no_strings_put)
    with "3.IH"(3) d True show ?thesis by blast
  next
    case False
    with "3.prems" "3.IH"(2) [OF conjI _ refl] show ?thesis
      by (subst (asm) decode_dict_loop.simps) (auto split: if_splits outcome.splits any.splits simp del: no_strings.simps)
  qed
qed

lemma no_strings_map_any [simp]: "no_strings (map_any f v) = no_strings v"
  by (induction v) (auto simp: list_all_iff)

lemma received_packet_no_strings:
  assumes "packet_decode h p = Ok q"
  shows "no_strings (AMap (p_data q))"
proof -
  obtain w where w: "bdecode (sl_read h (p_buf p)) = Ok w"
    "(case map_any (window (p_buf p)) w of AMap m \<Rightarrow> Ok (p\<lparr>p_data := m\<rparr>) | _ \<Rightarrow> Err (Errorf ''illegal packet'')) = Ok q"
    using assms by (auto simp: packet_decode_def obind_eq_Ok)
  have m: "map_any (window (p_buf p)) w = AMap (p_data q)"
    using w(2) by (cases "map_any (window (p_buf p)) w") auto
  have "no_strings w" using w(1) by (auto simp: bdecode_def obind_eq_Ok dest: decode_no_strings(1))
  then show ?thesis using m no_strings_map_any by metis
qed

text \<open>A node made from its raw form is printed with the address it holds; a bootstrap node has no raw form, and printing it panics.\<close>

lemma raw_node_printed:
  assumes "new_node_from_raw h raw = Ok n" "slice_wf h raw"
  shows "node_print h n = Ok (''ID: '' @ hex_encode (sl_read h (node_id n)) @ newline @ ''IP: '' @ ip_string (ip (node_addr n)) @ newline
           @ ''Port: '' @ itoa (int (port (node_addr n))) @ newline @ newline)"
proof -
  have n: "sl_len (node_raw_ip n) = 4" "sl_len (node_raw_port n) = 2" "slice_wf h (node_raw_ip n)" "slice_wf h (node_raw_port n)"
    "ip (node_addr n) = sl_read h (node_raw_ip n)" "port (node_addr n) = unat (get_uint16 (sl_read h (node_raw_port n)))"
    using assms by (auto simp: new_node_from_raw_def obind_eq_Ok reslice_def slice_wf_def split: if_splits)
  have "length (sl_read h (node_raw_ip n)) = 4" "length (sl_read h (node_raw_port n)) = 2"
    using n(1-4) by (simp_all add: length_sl_read)
  with n show ?thesis by (simp add: node_print_def node_get_ip_def node_get_port_def)
qed

lemma bootstrap_node_print_panics: "node_raw_ip n = nil_slice \<Longrightarrow> node_print h n = Panic IndexOutOfRange"
  by (simp add: node_print_def node_get_ip_def nil_slice_def)

end
