(* ===== verification/Bittorrent_Peer.thy ===== *)
theory Bittorrent_Peer
  imports Bencode Go_Binary
begin

text \<open>
  \<^verbatim>\<open>common/bittorrent/core.go\<close>: the client that connects to a peer and fetches the metadata of a
  torrent with the extension protocol. The state is the connection (the bytes the peer will still
  send, the bytes written so far) and the traffic counters. The lemmas show that what is returned
  always has the requested hash, that a peer that follows the protocol is answered with its metadata
  whatever the order of its pieces and whatever other messages it mixes in, and that the traffic
  counters add up.
\<close>

section \<open>State\<close>

text \<open>
  A connection: \<open>cn_in\<close> is what the peer sends before it closes the connection or lets a read
  deadline pass; \<open>cn_budget\<close> is the number of writes that succeed before one fails, if any fails.
\<close>

record conn =
  cn_in :: bytes
  cn_out :: bytes
  cn_budget :: "nat option"

record ext_handshake_result =
  metadata_size :: int
  ut_metadata :: int
  num_pieces :: int

record piece =
  pc_data :: bytes
  pc_id :: int

text \<open>
  The dialers are code outside the repository: a function from the address to a connection or an
  error. The metric callback is outside too: \<open>bt_metrics\<close> lists the calls made to it.
\<close>

record bit_torrent =
  bt_proxy :: "(string \<Rightarrow> conn outcome) option"
  bt_addr :: string
  bt_conn :: "conn option"
  bt_info_hash :: bytes
  bt_node_id :: bytes
  bt_metric_func :: bool
  bt_metrics :: "(string \<times> nat) list"

definition bt_protocol :: bytes where
  "bt_protocol = ''BitTorrent protocol''"

definition bt_reserved :: bytes where
  "bt_reserved = map char_of [0, 0, 0, 0, 0, 0x10, 0, 0x01 :: nat]"

definition piece_length :: nat where
  "piece_length = 2 ^ 14"

definition max_metadata_size :: int where
  "max_metadata_size = 10000000"

definition ext_handshake_id :: char where
  "ext_handshake_id = char_of (0 :: nat)"

definition bt_msg_id :: char where
  "bt_msg_id = char_of (20 :: nat)"

definition new_bit_torrent :: "bytes \<Rightarrow> bytes \<Rightarrow> string \<Rightarrow> bit_torrent" where
  "new_bit_torrent nodeID infoHash addr =
     \<lparr>bt_proxy = None, bt_addr = addr, bt_conn = None, bt_info_hash = infoHash, bt_node_id = nodeID,
      bt_metric_func = False, bt_metrics = []\<rparr>"

section \<open>Connection\<close>

definition set_traffic_metric_func :: "bit_torrent \<Rightarrow> bit_torrent" where
  "set_traffic_metric_func bt = bt\<lparr>bt_metric_func := True\<rparr>"

definition traffic_metric :: "string \<Rightarrow> nat \<Rightarrow> bit_torrent \<Rightarrow> bit_torrent" where
  "traffic_metric label len bt =
     (if bt_metric_func bt then bt\<lparr>bt_metrics := bt_metrics bt @ [(label, len)]\<rparr> else bt)"

definition bt_start :: "(string \<Rightarrow> conn outcome) \<Rightarrow> bit_torrent \<Rightarrow> bit_torrent outcome" where
  "bt_start dial bt =
     (case bt_proxy bt of
        Some proxyDial \<Rightarrow> obind (proxyDial (bt_addr bt)) (\<lambda>c. Ok (bt\<lparr>bt_conn := Some c\<rparr>))
      | None \<Rightarrow> obind (dial (bt_addr bt)) (\<lambda>c. Ok (bt\<lparr>bt_conn := Some c\<rparr>)))"

definition bt_stop :: "(conn \<Rightarrow> unit outcome) \<Rightarrow> bit_torrent \<Rightarrow> unit outcome" where
  "bt_stop closeConn bt =
     (case bt_conn bt of None \<Rightarrow> Panic NilDereference | Some c \<Rightarrow> closeConn c)"

definition bt_write :: "bytes \<Rightarrow> bit_torrent \<Rightarrow> bit_torrent outcome" where
  "bt_write data bt =
     (case bt_conn bt of
        None \<Rightarrow> Panic NilDereference
      | Some c \<Rightarrow>
          (case cn_budget c of
             Some 0 \<Rightarrow> Err ErrIO
           | b \<Rightarrow> Ok (bt\<lparr>bt_conn := Some (c\<lparr>cn_out := cn_out c @ data,
                                          cn_budget := map_option (\<lambda>k. k - 1) b\<rparr>)\<rparr>)))"

definition bt_read :: "nat \<Rightarrow> bit_torrent \<Rightarrow> (bytes \<times> bit_torrent) outcome" where
  "bt_read n bt =
     (case bt_conn bt of
        None \<Rightarrow> Panic NilDereference
      | Some c \<Rightarrow> obind (read_full n (cn_in c)) (\<lambda>(data, r).
          Ok (data, bt\<lparr>bt_conn := Some (c\<lparr>cn_in := r\<rparr>)\<rparr>)))"

definition send_message :: "bytes \<Rightarrow> bit_torrent \<Rightarrow> bit_torrent outcome" where
  "send_message msg bt =
     (let lenB = put_uint32 (word_of_nat (length msg))
      in obind (bt_write lenB bt) (\<lambda>bt.
           let bt = traffic_metric ''out_bt_message_header'' (length lenB) bt
           in bt_write msg bt))"

definition read_message :: "bit_torrent \<Rightarrow> (bytes \<times> bit_torrent) outcome" where
  "read_message bt =
     obind (bt_read 4 bt) (\<lambda>(msgLengthB, bt).
       let bt = traffic_metric ''in_bt_message_header'' (length msgLengthB) bt;
           msgLength = get_uint32 msgLengthB
       in bt_read (unat msgLength) bt)"

text \<open>The bytes still to be read: the measure of the loop that skips messages.\<close>

definition bt_left :: "bit_torrent \<Rightarrow> nat" where
  "bt_left bt = (case bt_conn bt of None \<Rightarrow> 0 | Some c \<Rightarrow> length (cn_in c))"

lemma bt_left_metric [simp]: "bt_left (traffic_metric l n bt) = bt_left bt"
  by (simp add: traffic_metric_def bt_left_def)

lemma bt_read_left: "bt_read n bt = Ok (d, bt') \<Longrightarrow> bt_left bt = n + bt_left bt'"
  by (auto simp: bt_read_def bt_left_def obind_eq_Ok read_full_Ok split: option.splits)

lemma read_message_left: "read_message bt = Ok (m, bt') \<Longrightarrow> bt_left bt' < bt_left bt"
  by (auto simp: read_message_def Let_def obind_eq_Ok dest!: bt_read_left)

function (sequential) read_ext_message :: "bit_torrent \<Rightarrow> (bytes \<times> bit_torrent) outcome" where
  "read_ext_message bt =
     (case read_message bt of
        Ok (msg, bt') \<Rightarrow>
          if length msg = 0 then read_ext_message bt'
          else let bt'' = traffic_metric ''in_bt_ext_message_header'' 1 bt'
               in if hd msg = bt_msg_id then Ok (tl msg, bt'') else read_ext_message bt''
      | Err e \<Rightarrow> Err e
      | Panic p \<Rightarrow> Panic p)"
  by pat_completeness auto
termination
  by (relation "measure bt_left") (auto dest: read_message_left)

declare read_ext_message.simps [simp del]

section \<open>Handshakes\<close>

text \<open>\<open>peerID\<close> is the random identifier that \<^verbatim>\<open>dht.GenerateNodeID\<close> returns.\<close>

definition handshake :: "bytes \<Rightarrow> bit_torrent \<Rightarrow> bit_torrent outcome" where
  "handshake peerID bt =
     (let pkt = [char_of (length bt_protocol)] @ bt_protocol @ bt_reserved @ bt_info_hash bt @ peerID
      in obind (bt_write pkt bt) (\<lambda>bt.
         let bt = traffic_metric ''out_bt_handshake'' (length pkt) bt
         in obind (bt_read 1 bt) (\<lambda>(pLength, bt).
            let n = of_char (hd pLength);
                dataLen = n + 48
            in obind (bt_read dataLen bt) (\<lambda>(data, bt).
               let bt = traffic_metric ''in_bt_handshake'' (length data + length pLength) bt
               in if take n data \<noteq> bt_protocol then Err (Errorf ''not bt protocol'')
                  else let data = drop n data
                       in if bit (of_char (data ! 5) :: nat) 4 then Ok bt
                          else Err (Errorf ''handshake failed'')))))"

text \<open>
  \<^verbatim>\<open>math.Ceil(float64(size) / float64(pieceLength))\<close>. The division is exact below \<open>2^53\<close>; the only
  sizes beyond it that reach this point are negative, where the float is rounded but not positive
  either, so that no piece is requested.
\<close>

definition ceil_pieces :: "int \<Rightarrow> int" where
  "ceil_pieces k = - ((- k) div int piece_length)"

definition ext_handshake :: "bit_torrent \<Rightarrow> (ext_handshake_result \<times> bit_torrent) outcome" where
  "ext_handshake bt =
     obind (bencode id (AMap (put_all [(''m'', AMap (put_all [(''ut_metadata'', AInt 1)] []))] []))) (\<lambda>p.
     let msg = [bt_msg_id, ext_handshake_id] @ p
     in obind (send_message msg bt) (\<lambda>bt.
        let bt = traffic_metric ''out_bt_ext_handshake'' (length msg) bt
        in obind (read_ext_message bt) (\<lambda>(msg, bt).
           let bt = traffic_metric ''in_bt_ext_handshake'' (length msg) bt
           in if msg = [] then Panic IndexOutOfRange
              else if hd msg \<noteq> char_of (0 :: nat)
                then Err (Errorf ''protocol error: should be ext handshake'')
              else obind (bdecode_dict (tl msg)) (\<lambda>(ext, _).
                let (metadataSize, ok1) = get_int ext ''metadata_size'';
                    (utMetadata, ok2) = get_int ext ''m.ut_metadata''
                in if \<not> ok1 \<or> \<not> ok2 \<or> max_metadata_size < metadataSize
                   then Err (Errorf ''protocol error: illegal format'')
                   else Ok (\<lparr>metadata_size = metadataSize, ut_metadata = utMetadata,
                             num_pieces = ceil_pieces metadataSize\<rparr>, bt)))))"

section \<open>Pieces\<close>

definition byte_of_int :: "int \<Rightarrow> char" where
  "byte_of_int k = char_of (nat (k mod 256))"

definition request_piece :: "ext_handshake_result \<Rightarrow> int \<Rightarrow> bit_torrent \<Rightarrow> bit_torrent outcome" where
  "request_piece ext piece bt =
     obind (bencode id (AMap (put_all [(''msg_type'', AInt 0), (''piece'', AInt piece)] []))) (\<lambda>p.
     let msg = [bt_msg_id, byte_of_int (ut_metadata ext)] @ p
     in obind (send_message msg bt) (\<lambda>bt.
        Ok (traffic_metric ''out_bt_request_piece'' (length msg) bt)))"

definition read_piece :: "bit_torrent \<Rightarrow> (piece \<times> bit_torrent) outcome" where
  "read_piece bt =
     obind (read_ext_message bt) (\<lambda>(msg, bt).
       let bt = traffic_metric ''in_bt_piece'' (length msg) bt
       in if msg = [] then Panic IndexOutOfRange
          else if hd msg = char_of (0 :: nat)
            then Err (Errorf ''protocol error: should not be ext handshake'')
          else obind (bdecode_dict (tl msg)) (\<lambda>(dict, pos).
            if length msg < pos + 1 then Panic SliceOutOfRange
            else let trailer = drop (pos + 1) msg;
                     (msgType, _) = get_int dict ''msg_type''
                 in if msgType \<noteq> 1 then Err (Errorf ''protocol error: wrong msg_type'')
                    else if piece_length < length trailer
                      then Err (Errorf ''protocol error: piece too long'')
                    else let (id, _) = get_int dict ''piece''
                         in Ok (\<lparr>pc_data = trailer, pc_id = id\<rparr>, bt)))"

text \<open>The two loops of \<^verbatim>\<open>requestPieces\<close>, over the number of iterations left.\<close>

primrec request_loop :: "ext_handshake_result \<Rightarrow> nat \<Rightarrow> int \<Rightarrow> bit_torrent \<Rightarrow> bit_torrent outcome" where
  "request_loop ext 0 i bt = Ok bt"
| "request_loop ext (Suc n) i bt = obind (request_piece ext i bt) (request_loop ext n (i + 1))"

primrec read_loop :: "nat \<Rightarrow> piece list \<Rightarrow> bit_torrent \<Rightarrow> (piece list \<times> bit_torrent) outcome" where
  "read_loop 0 pieces bt = Ok (pieces, bt)"
| "read_loop (Suc n) pieces bt =
     obind (read_piece bt) (\<lambda>(piece, bt). read_loop n (pieces @ [piece]) bt)"

definition request_pieces :: "ext_handshake_result \<Rightarrow> bit_torrent \<Rightarrow> (piece list \<times> bit_torrent) outcome" where
  "request_pieces ext bt =
     obind (request_loop ext (nat (num_pieces ext)) 0 bt) (read_loop (nat (num_pieces ext)) [])"

section \<open>\<open>GetMetadata\<close>\<close>

text \<open>\<^verbatim>\<open>copy(raw[off:], data)\<close>: as many bytes as fit are overwritten from \<open>off\<close> on.\<close>

definition copy_at :: "bytes \<Rightarrow> nat \<Rightarrow> bytes \<Rightarrow> bytes" where
  "copy_at raw off data =
     (let d = take (length raw - off) data in take off raw @ d @ drop (off + length d) raw)"

fun assemble :: "bytes \<Rightarrow> piece list \<Rightarrow> bytes outcome" where
  "assemble raw [] = Ok raw"
| "assemble raw (pc # pieces) =
     (let off = wrap64 (pc_id pc * int piece_length)
      in if off < 0 \<or> int (length raw) < off then Panic SliceOutOfRange
         else assemble (copy_at raw (nat off) (pc_data pc)) pieces)"

definition get_metadata_body ::
    "(bytes \<Rightarrow> bytes) \<Rightarrow> bytes \<Rightarrow> bit_torrent \<Rightarrow> ((string \<times> bytes any) list \<times> bit_torrent) outcome" where
  "get_metadata_body sha1 peerID bt =
     obind (handshake peerID bt) (\<lambda>bt.
     obind (ext_handshake bt) (\<lambda>(ext, bt).
     obind (request_pieces ext bt) (\<lambda>(pieces, bt).
       if metadata_size ext < 0 then Panic MakeOutOfRange
       else obind (assemble (replicate (nat (metadata_size ext)) (char_of (0 :: nat))) pieces) (\<lambda>rawMetadata.
         if bt_info_hash bt \<noteq> sha1 rawMetadata then Err (Errorf ''corrupt torrent'')
         else obind (bdecode_dict rawMetadata) (\<lambda>(metadata, _).
           Ok (map (map_prod id (map_any (span_read rawMetadata))) metadata, bt))))))"

text \<open>The deferred function turns a panic into an error.\<close>

definition get_metadata ::
    "(bytes \<Rightarrow> bytes) \<Rightarrow> bytes \<Rightarrow> bit_torrent \<Rightarrow> ((string \<times> bytes any) list \<times> bit_torrent) outcome" where
  "get_metadata sha1 peerID bt =
     (case get_metadata_body sha1 peerID bt of
        Panic p \<Rightarrow> Err (Errorf ''panic'')
      | r \<Rightarrow> r)"

section \<open>Framing\<close>

definition frame :: "bytes \<Rightarrow> bytes" where
  "frame m = put_uint32 (word_of_nat (length m)) @ m"

definition read_frame :: "bytes \<Rightarrow> (bytes \<times> bytes) outcome" where
  "read_frame r = obind (read_full 4 r) (\<lambda>(b, r). read_full (unat (get_uint32 b)) r)"

interpretation bm: codec frame read_frame "\<lambda>m. length m < 2 ^ 32"
  by unfold_locales (simp add: frame_def read_frame_def unat_of_nat_less)

section \<open>What the operations do on a working connection\<close>

text \<open>
  A client for the hash \<open>ih\<close> whose peer will still send \<open>inp\<close>, which has written \<open>out\<close>, and whose
  writes succeed.
\<close>

definition conn_at :: "bytes \<Rightarrow> bytes \<Rightarrow> bytes \<Rightarrow> bit_torrent \<Rightarrow> bool" where
  "conn_at ih inp out bt \<longleftrightarrow> bt_info_hash bt = ih
     \<and> bt_conn bt = Some \<lparr>cn_in = inp, cn_out = out, cn_budget = None\<rparr>"

lemma conn_at_metric [simp]: "conn_at ih inp out (traffic_metric l n bt) = conn_at ih inp out bt"
  by (simp add: conn_at_def traffic_metric_def)

lemma conn_at_write:
  assumes "conn_at ih inp out bt"
  obtains bt' where "bt_write d bt = Ok bt'" "conn_at ih inp (out @ d) bt'"
  using assms by (auto simp: conn_at_def bt_write_def)

lemma conn_at_read:
  assumes "conn_at ih (d @ inp) out bt" "length d = n"
  obtains bt' where "bt_read n bt = Ok (d, bt')" "conn_at ih inp out bt'"
  using assms by (auto simp: conn_at_def bt_read_def)

lemma conn_at_send:
  assumes "conn_at ih inp out bt"
  obtains bt' where "send_message m bt = Ok bt'" "conn_at ih inp (out @ frame m) bt'"
proof -
  let ?l = "put_uint32 (word_of_nat (length m))"
  obtain b1 where 1: "bt_write ?l bt = Ok b1" "conn_at ih inp (out @ ?l) b1"
    by (rule conn_at_write [OF assms])
  then have "conn_at ih inp (out @ ?l) (traffic_metric ''out_bt_message_header'' 4 b1)" by simp
  then obtain b2 where "bt_write m (traffic_metric ''out_bt_message_header'' 4 b1) = Ok b2"
      "conn_at ih inp ((out @ ?l) @ m) b2"
    by (rule conn_at_write)
  with 1 show thesis by (intro that [of b2]) (simp_all add: send_message_def frame_def)
qed

lemma conn_at_read_message:
  assumes "conn_at ih (frame m @ inp) out bt" "length m < 2 ^ 32"
  obtains bt' where "read_message bt = Ok (m, bt')" "conn_at ih inp out bt'"
proof -
  let ?l = "put_uint32 (word_of_nat (length m))"
  obtain b1 where 1: "bt_read 4 bt = Ok (?l, b1)" "conn_at ih (m @ inp) out b1"
    using assms(1) by (auto simp: frame_def intro: conn_at_read [of ih ?l "m @ inp"])
  then have "conn_at ih (m @ inp) out (traffic_metric ''in_bt_message_header'' 4 b1)" by simp
  then obtain b2 where "bt_read (length m) (traffic_metric ''in_bt_message_header'' 4 b1) = Ok (m, b2)"
      "conn_at ih inp out b2"
    by (rule conn_at_read) simp
  with 1 assms(2) show thesis
    by (intro that [of b2]) (simp_all add: read_message_def unat_of_nat_less)
qed

text \<open>Messages that are not extended ones: keep-alives and messages with another identifier.\<close>

definition is_noise :: "bytes \<Rightarrow> bool" where
  "is_noise m \<longleftrightarrow> length m < 2 ^ 32 \<and> (m = [] \<or> hd m \<noteq> bt_msg_id)"

lemma conn_at_read_ext:
  assumes "conn_at ih (concat (map frame ns) @ frame (bt_msg_id # m) @ inp) out bt"
    "list_all is_noise ns" "length m + 1 < 2 ^ 32"
  obtains bt' where "read_ext_message bt = Ok (m, bt')" "conn_at ih inp out bt'"
  using assms
proof (induction ns arbitrary: bt thesis)
  case Nil
  then obtain b where "read_message bt = Ok (bt_msg_id # m, b)" "conn_at ih inp out b"
    by (auto intro: conn_at_read_message [of ih "bt_msg_id # m"])
  then show ?case
    by (intro Nil(1) [of "traffic_metric ''in_bt_ext_message_header'' 1 b"])
      (simp_all add: read_ext_message.simps [of bt])
next
  case (Cons n ns)
  obtain b where b: "read_message bt = Ok (n, b)"
      "conn_at ih (concat (map frame ns) @ frame (bt_msg_id # m) @ inp) out b"
    using Cons.prems(2,3) by (auto simp: is_noise_def intro: conn_at_read_message [of ih n])
  let ?b = "if n = [] then b else traffic_metric ''in_bt_ext_message_header'' 1 b"
  obtain bt' where "read_ext_message ?b = Ok (m, bt')" "conn_at ih inp out bt'"
    using b(2) Cons.prems(3,4) by (auto intro: Cons.IH [of ?b])
  with b(1) Cons.prems(3) show ?case
    by (intro Cons.prems(1) [of bt']) (auto simp: read_ext_message.simps [of bt] is_noise_def)
qed

section \<open>A peer that follows the protocol\<close>

text \<open>
  The handshake of a peer that supports extensions, its answer to our extension handshake, and its
  answer to the request of piece \<open>i\<close>: any dictionaries with the entries the protocol asks for.
\<close>

definition our_handshake :: "bytes \<Rightarrow> bytes \<Rightarrow> bytes" where
  "our_handshake ih peerID = char_of (19 :: nat) # bt_protocol @ bt_reserved @ ih @ peerID"

definition peer_handshake :: "bytes \<Rightarrow> bool" where
  "peer_handshake hs \<longleftrightarrow> (\<exists>tail. hs = char_of (19 :: nat) # bt_protocol @ tail \<and> length tail = 48
     \<and> bit (of_char (tail ! 5) :: nat) 4)"

definition peer_ext_handshake :: "nat \<Rightarrow> bytes \<Rightarrow> bool" where
  "peer_ext_handshake n m \<longleftrightarrow> (\<exists>d ut. m = ext_handshake_id # benc id (AMap d) \<and> length m + 1 < 2 ^ 32
     \<and> encodable id (AMap d) \<and> get_int d ''metadata_size'' = (int n, True)
     \<and> get_int d ''m.ut_metadata'' = (ut, True))"

definition chunk :: "bytes \<Rightarrow> nat \<Rightarrow> bytes" where
  "chunk raw i = take piece_length (drop (i * piece_length) raw)"

definition peer_piece :: "bytes \<Rightarrow> nat \<Rightarrow> bytes \<Rightarrow> bool" where
  "peer_piece raw i m \<longleftrightarrow> (\<exists>c d. m = c # benc id (AMap d) @ chunk raw i \<and> c \<noteq> char_of (0 :: nat)
     \<and> length m + 1 < 2 ^ 32 \<and> encodable id (AMap d)
     \<and> get_int d ''msg_type'' = (1, True) \<and> get_int d ''piece'' = (int i, True))"

lemma conn_at_handshake:
  assumes "conn_at ih (hs @ inp) out bt" "peer_handshake hs"
  obtains bt' where "handshake peerID bt = Ok bt'" "conn_at ih inp (out @ our_handshake ih peerID) bt'"
proof -
  obtain tail where tail: "hs = [char_of (19 :: nat)] @ bt_protocol @ tail" "length tail = 48"
    "bit (of_char (tail ! 5) :: nat) 4"
    using assms(2) by (auto simp: peer_handshake_def)
  have l: "length bt_protocol = 19" by (simp add: bt_protocol_def)
  have ih: "bt_info_hash bt = ih" using assms(1) by (simp add: conn_at_def)
  let ?m = "\<lambda>b. traffic_metric ''out_bt_handshake'' (length (our_handshake ih peerID)) b"
  obtain b1 where b1: "bt_write (our_handshake ih peerID) bt = Ok b1"
      "conn_at ih (hs @ inp) (out @ our_handshake ih peerID) b1"
    by (rule conn_at_write [OF assms(1)])
  then have "conn_at ih ([char_of (19 :: nat)] @ (bt_protocol @ tail) @ inp) (out @ our_handshake ih peerID) (?m b1)"
    by (simp add: tail(1))
  then obtain b2 where b2: "bt_read 1 (?m b1) = Ok ([char_of (19 :: nat)], b2)"
      "conn_at ih ((bt_protocol @ tail) @ inp) (out @ our_handshake ih peerID) b2"
    by (rule conn_at_read [where n = 1]) simp_all
  obtain b3 where b3: "bt_read 67 b2 = Ok (bt_protocol @ tail, b3)"
      "conn_at ih inp (out @ our_handshake ih peerID) b3"
    by (rule conn_at_read [OF b2(2)]) (simp add: l tail(2))
  have "handshake peerID bt = Ok (traffic_metric ''in_bt_handshake'' 68 b3)"
    using b1(1) b2(1) b3(1) tail(2,3)
    by (simp add: handshake_def ih our_handshake_def Let_def l)
  moreover have "conn_at ih inp (out @ our_handshake ih peerID) (traffic_metric ''in_bt_handshake'' 68 b3)"
    using b3(2) by simp
  ultimately show thesis by (rule that)
qed

definition our_ext_handshake :: bytes where
  "our_ext_handshake =
     bt_msg_id # ext_handshake_id # benc id (AMap [(''m'', AMap [(''ut_metadata'', AInt 1)])] :: bytes any)"

definition our_request :: "int \<Rightarrow> nat \<Rightarrow> bytes" where
  "our_request ut i =
     bt_msg_id # byte_of_int ut # benc id (AMap [(''msg_type'', AInt 0), (''piece'', AInt (int i))] :: bytes any)"

lemma small_int64: "0 \<le> k \<Longrightarrow> k < 2 ^ 63 \<Longrightarrow> is_int64 k"
  by (simp add: is_int64_def int64_min_def int64_max_def)

lemma bencode_ext_handshake:
  "bencode id (AMap (put_all [(''m'', AMap (put_all [(''ut_metadata'', AInt 1)] []))] []) :: bytes any)
     = Ok (tl (tl our_ext_handshake))"
  by (subst bencode_benc) (simp_all add: put_all_def our_ext_handshake_def small_int64)

lemma bencode_request:
  assumes "int i < 2 ^ 63"
  shows "bencode id (AMap (put_all [(''msg_type'', AInt 0), (''piece'', AInt (int i))] []) :: bytes any)
     = Ok (tl (tl (our_request ut i)))"
  using assms
  by (subst bencode_benc) (simp_all add: put_all_def our_request_def small_int64 less_char_def)

lemma conn_at_ext_handshake:
  assumes "conn_at ih (concat (map frame ns) @ frame (bt_msg_id # m) @ inp) out bt"
    "list_all is_noise ns" "peer_ext_handshake n m" "int n \<le> max_metadata_size"
  obtains bt' ut where "conn_at ih inp (out @ frame our_ext_handshake) bt'"
    "ext_handshake bt = Ok (\<lparr>metadata_size = int n, ut_metadata = ut, num_pieces = ceil_pieces (int n)\<rparr>, bt')"
proof -
  obtain d ut where d: "m = ext_handshake_id # benc id (AMap d)" "encodable id (AMap d)" "length m + 1 < 2 ^ 32"
    "get_int d ''metadata_size'' = (int n, True)" "get_int d ''m.ut_metadata'' = (ut, True)"
    using assms(3) by (auto simp: peer_ext_handshake_def)
  obtain b1 where b1: "send_message our_ext_handshake bt = Ok b1"
      "conn_at ih (concat (map frame ns) @ frame (bt_msg_id # m) @ inp) (out @ frame our_ext_handshake) b1"
    by (rule conn_at_send [OF assms(1)])
  let ?m = "traffic_metric ''out_bt_ext_handshake'' (length our_ext_handshake)"
  have "conn_at ih (concat (map frame ns) @ frame (bt_msg_id # m) @ inp) (out @ frame our_ext_handshake) (?m b1)"
    using b1(2) by simp
  then obtain b2 where b2: "read_ext_message (?m b1) = Ok (m, b2)" "conn_at ih inp (out @ frame our_ext_handshake) b2"
    by (rule conn_at_read_ext) (use assms(2) d(3) in auto)
  obtain dm where dm: "bdecode_dict (benc id (AMap d) @ []) = Ok (dm, length (benc id (AMap d)))"
    "\<And>key. get_int dm key = get_int d key"
    by (rule bdecode_dict_benc [OF d(2), of "[]"]) (rule that)
  have msg: "[bt_msg_id, ext_handshake_id] @ tl (tl our_ext_handshake) = our_ext_handshake"
    by (simp add: our_ext_handshake_def)
  have "ext_handshake bt = Ok (\<lparr>metadata_size = int n, ut_metadata = ut, num_pieces = ceil_pieces (int n)\<rparr>,
      traffic_metric ''in_bt_ext_handshake'' (length m) b2)"
    unfolding ext_handshake_def bencode_ext_handshake obind.simps Let_def msg b1(1) b2(1) prod.case
    using dm assms(4) by (simp add: d(1,4,5) ext_handshake_id_def del: benc.simps)
  with b2(2) show thesis by (intro that) simp_all
qed

lemma conn_at_request_loop:
  assumes "conn_at ih inp out bt" "int (i + k) < 2 ^ 63"
  obtains bt' where "request_loop ext k (int i) bt = Ok bt'"
    "conn_at ih inp (out @ concat (map (\<lambda>j. frame (our_request (ut_metadata ext) j)) [i..<i + k])) bt'"
  using assms
proof (induction k arbitrary: i out bt thesis)
  case (Suc k)
  let ?r = "our_request (ut_metadata ext) i"
  obtain b1 where b1: "send_message ?r bt = Ok b1" "conn_at ih inp (out @ frame ?r) b1"
    by (rule conn_at_send [OF Suc.prems(2)])
  let ?b = "traffic_metric ''out_bt_request_piece'' (length ?r) b1"
  have msg: "[bt_msg_id, byte_of_int (ut_metadata ext)] @ tl (tl ?r) = ?r" by (simp add: our_request_def)
  have "int i < 2 ^ 63" using Suc.prems(3) by simp
  then have r: "request_piece ext (int i) bt = Ok ?b"
    unfolding request_piece_def
    by (simp only: bencode_request [where ut = "ut_metadata ext"] obind.simps Let_def msg b1(1))
  have "conn_at ih inp (out @ frame ?r) ?b" "int (Suc i + k) < 2 ^ 63" using b1(2) Suc.prems(3) by simp_all
  then obtain bt' where "request_loop ext k (int (Suc i)) ?b = Ok bt'" "conn_at ih inp
      ((out @ frame ?r) @ concat (map (\<lambda>j. frame (our_request (ut_metadata ext) j)) [Suc i..<Suc i + k])) bt'"
    by (rule Suc.IH [rotated])
  with r show ?case
    by (intro Suc.prems(1) [of bt']) (simp_all add: upt_conv_Cons add.commute del: upt_Suc)
qed simp

lemma conn_at_read_piece:
  assumes "conn_at ih (concat (map frame ns) @ frame (bt_msg_id # m) @ inp) out bt"
    "list_all is_noise ns" "peer_piece raw i m"
  obtains bt' where "read_piece bt = Ok (\<lparr>pc_data = chunk raw i, pc_id = int i\<rparr>, bt')" "conn_at ih inp out bt'"
proof -
  obtain c d where d: "m = c # benc id (AMap d) @ chunk raw i" "c \<noteq> char_of (0 :: nat)" "length m + 1 < 2 ^ 32"
    "encodable id (AMap d)" "get_int d ''msg_type'' = (1, True)" "get_int d ''piece'' = (int i, True)"
    using assms(3) by (auto simp: peer_piece_def)
  obtain b where b: "read_ext_message bt = Ok (m, b)" "conn_at ih inp out b"
    by (rule conn_at_read_ext [OF assms(1)]) (use assms(2) d(3) in auto)
  obtain dm where dm: "bdecode_dict (benc id (AMap d) @ chunk raw i) = Ok (dm, length (benc id (AMap d)))"
    "\<And>key. get_int dm key = get_int d key"
    by (rule bdecode_dict_benc [OF d(4), of "chunk raw i"]) (rule that)
  have "read_piece bt = Ok (\<lparr>pc_data = chunk raw i, pc_id = int i\<rparr>, traffic_metric ''in_bt_piece'' (length m) b)"
    unfolding read_piece_def b(1) obind.simps prod.case Let_def
    using d(2) dm by (simp add: d(1,5,6) chunk_def del: benc.simps)
  with b(2) show thesis by (intro that [of "traffic_metric ''in_bt_piece'' (length m) b"]) simp_all
qed

text \<open>
  A reply is the messages the peer sends first, the piece it then sends, and that message.
\<close>

type_synonym reply = "bytes list \<times> nat \<times> bytes"

definition reply_text :: "reply \<Rightarrow> bytes" where
  "reply_text r = (case r of (ns, i, m) \<Rightarrow> concat (map frame ns) @ frame (bt_msg_id # m))"

definition reply_ok :: "bytes \<Rightarrow> reply \<Rightarrow> bool" where
  "reply_ok raw r = (case r of (ns, i, m) \<Rightarrow> list_all is_noise ns \<and> peer_piece raw i m)"

definition reply_piece :: "bytes \<Rightarrow> reply \<Rightarrow> piece" where
  "reply_piece raw r = (case r of (ns, i, m) \<Rightarrow> \<lparr>pc_data = chunk raw i, pc_id = int i\<rparr>)"

lemma conn_at_read_loop:
  assumes "conn_at ih (concat (map reply_text rs) @ inp) out bt" "list_all (reply_ok raw) rs"
  obtains bt' where "read_loop (length rs) ps bt = Ok (ps @ map (reply_piece raw) rs, bt')" "conn_at ih inp out bt'"
  using assms
proof (induction rs arbitrary: ps bt thesis)
  case (Cons r rs)
  obtain ns i m where r: "r = (ns, i, m)" by (cases r)
  let ?p = "\<lparr>pc_data = chunk raw i, pc_id = int i\<rparr>"
  have "conn_at ih (concat (map frame ns) @ frame (bt_msg_id # m) @ concat (map reply_text rs) @ inp) out bt"
    "list_all is_noise ns" "peer_piece raw i m"
    using Cons.prems(2,3) by (simp_all add: r reply_text_def [of "(ns, i, m)"] reply_ok_def [of _ "(ns, i, m)"])
  then obtain b where b: "read_piece bt = Ok (?p, b)" "conn_at ih (concat (map reply_text rs) @ inp) out b"
    by (rule conn_at_read_piece)
  obtain bt' where "read_loop (length rs) (ps @ [?p]) b = Ok ((ps @ [?p]) @ map (reply_piece raw) rs, bt')"
      "conn_at ih inp out bt'"
    by (rule Cons.IH [of "ps @ [?p]", OF _ b(2)]) (use Cons.prems(3) in auto)
  with b(1) show ?case by (intro Cons.prems(1) [of bt']) (simp_all add: r reply_piece_def)
qed simp

section \<open>Assembling the pieces\<close>

lemma length_copy_at [simp]: "off \<le> length raw \<Longrightarrow> length (copy_at raw off d) = length raw"
  by (simp add: copy_at_def Let_def)

lemma nth_copy_at:
  assumes "off \<le> length raw" "j < length raw"
  shows "copy_at raw off d ! j = (if off \<le> j \<and> j < off + length d then d ! (j - off) else raw ! j)"
  using assms by (auto simp: copy_at_def Let_def nth_append min_def)

lemma assemble_length: "assemble raw ps = Ok raw' \<Longrightarrow> length raw' = length raw"
  by (induction raw ps rule: assemble.induct) (auto simp: Let_def split: if_splits)

lemma wrap64_small: "0 \<le> k \<Longrightarrow> k < 2 ^ 63 \<Longrightarrow> wrap64 k = k"
  by (simp add: wrap64_def)

lemma chunk_window:
  assumes "j < length raw"
  shows "i * piece_length \<le> j \<and> j < i * piece_length + length (chunk raw i) \<longleftrightarrow> j div piece_length = i"
    and "j div piece_length = i \<Longrightarrow> chunk raw i ! (j - i * piece_length) = raw ! j"
proof -
  have p: "0 < piece_length" by (simp add: piece_length_def)
  have d: "j div piece_length = i \<longleftrightarrow> i * piece_length \<le> j \<and> j < i * piece_length + piece_length"
    using div_nat_eqI [of piece_length i j] div_mult_mod_eq [of j piece_length] mod_less_divisor [OF p, of j]
    by (auto simp: mult.commute minus_mult_div_eq_mod [symmetric])
  then show 1: "i * piece_length \<le> j \<and> j < i * piece_length + length (chunk raw i) \<longleftrightarrow> j div piece_length = i"
    using assms by (auto simp: chunk_def)
  show "chunk raw i ! (j - i * piece_length) = raw ! j" if "j div piece_length = i"
  proof -
    from that d have "i * piece_length \<le> j" "j < i * piece_length + piece_length" by blast+
    with assms show ?thesis by (simp add: chunk_def less_diff_conv2 add.commute)
  qed
qed

lemma assemble_chunks:
  assumes "length buf = length raw" "length raw < 2 ^ 32"
    "\<forall>i \<in> set is. i * piece_length \<le> length raw"
  obtains buf' where "assemble buf (map (\<lambda>i. \<lparr>pc_data = chunk raw i, pc_id = int i\<rparr>) is) = Ok buf'"
    "length buf' = length raw"
    "\<forall>j < length raw. buf' ! j = (if j div piece_length \<in> set is then raw ! j else buf ! j)"
  using assms
proof (induction "is" arbitrary: buf thesis)
  case (Cons i "is")
  let ?b = "copy_at buf (i * piece_length) (chunk raw i)"
  have le: "i * piece_length \<le> length raw" using Cons.prems(4) by simp
  then have off: "wrap64 (int i * int piece_length) = int (i * piece_length)"
    using Cons.prems(3) wrap64_small [of "int (i * piece_length)"] by (simp del: of_nat_mult flip: of_nat_mult)
  have b: "length ?b = length raw" using le Cons.prems(2) by simp
  obtain buf' where buf': "assemble ?b (map (\<lambda>i. \<lparr>pc_data = chunk raw i, pc_id = int i\<rparr>) is) = Ok buf'"
    "length buf' = length raw"
    "\<forall>j < length raw. buf' ! j = (if j div piece_length \<in> set is then raw ! j else ?b ! j)"
    by (rule Cons.IH [OF _ b]) (use Cons.prems in auto)
  have "?b ! j = (if j div piece_length = i then raw ! j else buf ! j)" if "j < length raw" for j
    using nth_copy_at [of "i * piece_length" buf j "chunk raw i"] le that Cons.prems(2)
      chunk_window [OF that, of i] by auto
  moreover have "assemble buf (map (\<lambda>i. \<lparr>pc_data = chunk raw i, pc_id = int i\<rparr>) (i # is)) = Ok buf'"
    using le Cons.prems(2) buf'(1)
    by (simp only: list.map assemble.simps piece.select_convs off Let_def nat_int) (simp del: of_nat_mult)
  ultimately show ?case using buf'(2,3) by (intro Cons.prems(1) [of buf']) auto
qed simp

lemma ceil_pieces_nat: "nat (ceil_pieces (int n)) = (n + (piece_length - 1)) div piece_length"
proof -
  have "ceil_pieces (int n) = (int n + (int piece_length - 1)) div int piece_length"
    by (simp add: ceil_pieces_def piece_length_def)
  also have "\<dots> = int ((n + (piece_length - 1)) div piece_length)"
    by (simp add: piece_length_def of_nat_div)
  finally show ?thesis by simp
qed

lemma assemble_all:
  assumes "length raw < 2 ^ 32" "set is = {..<nat (ceil_pieces (int (length raw)))}"
  shows "assemble (replicate (length raw) z) (map (\<lambda>i. \<lparr>pc_data = chunk raw i, pc_id = int i\<rparr>) is) = Ok raw"
proof -
  have "i * piece_length \<le> length raw" if "i \<in> set is" for i
    using that assms(2) by (auto simp: ceil_pieces_nat piece_length_def)
  then obtain buf where buf: "assemble (replicate (length raw) z)
        (map (\<lambda>i. \<lparr>pc_data = chunk raw i, pc_id = int i\<rparr>) is) = Ok buf" "length buf = length raw"
      "\<forall>j < length raw. buf ! j = (if j div piece_length \<in> set is then raw ! j else replicate (length raw) z ! j)"
    using assemble_chunks [of "replicate (length raw) z" raw "is"] assms(1) by auto
  have "j div piece_length \<in> set is" if "j < length raw" for j
    using that assms(2) by (auto simp: ceil_pieces_nat piece_length_def)
  with buf have "buf = raw" by (intro nth_equalityI) auto
  with buf(1) show ?thesis by simp
qed

section \<open>What every operation keeps and counts\<close>

text \<open>
  The bytes written minus the bytes reported to the metric callback under a label that starts with
  \<^verbatim>\<open>out\<close>, and the fields that no operation changes.
\<close>

definition out_written :: "bit_torrent \<Rightarrow> nat" where
  "out_written bt = (case bt_conn bt of None \<Rightarrow> 0 | Some c \<Rightarrow> length (cn_out c))"

definition out_metered :: "bit_torrent \<Rightarrow> nat" where
  "out_metered bt = sum_list (map snd (filter (\<lambda>e. take 3 (fst e) = ''out'') (bt_metrics bt)))"

definition unmetered :: "bit_torrent \<Rightarrow> int" where
  "unmetered bt = int (out_written bt) - int (out_metered bt)"

definition kept :: "bit_torrent \<Rightarrow> bytes \<times> bool" where
  "kept bt = (bt_info_hash bt, bt_metric_func bt)"

lemma metric_effect [simp]:
  "kept (traffic_metric l n bt) = kept bt"
  "unmetered (traffic_metric l n bt) =
     (if snd (kept bt) \<and> take 3 l = ''out'' then unmetered bt - int n else unmetered bt)"
  by (auto simp: kept_def unmetered_def out_written_def out_metered_def traffic_metric_def)

lemma write_effect:
  "bt_write d bt = Ok bt' \<Longrightarrow> kept bt' = kept bt \<and> unmetered bt' = unmetered bt + int (length d)"
  by (auto simp: bt_write_def kept_def unmetered_def out_written_def out_metered_def
      split: option.splits nat.splits)

lemma read_effect: "bt_read n bt = Ok (d, bt') \<Longrightarrow> kept bt' = kept bt \<and> unmetered bt' = unmetered bt"
  by (auto simp: bt_read_def obind_eq_Ok kept_def unmetered_def out_written_def out_metered_def
      split: option.splits)

lemma send_effect:
  "send_message m bt = Ok bt' \<Longrightarrow> kept bt' = kept bt
     \<and> unmetered bt' = unmetered bt + int (length m) + (if snd (kept bt) then 0 else 4)"
  by (auto simp: send_message_def obind_eq_Ok Let_def dest!: write_effect)

lemma read_message_effect:
  "read_message bt = Ok (m, bt') \<Longrightarrow> kept bt' = kept bt \<and> unmetered bt' = unmetered bt"
  by (auto simp: read_message_def obind_eq_Ok Let_def dest!: read_effect)

lemma read_ext_effect:
  "read_ext_message bt = Ok (m, bt') \<Longrightarrow> kept bt' = kept bt \<and> unmetered bt' = unmetered bt"
proof (induction bt rule: read_ext_message.induct)
  case (1 bt)
  from "1.prems" obtain n b where b: "read_message bt = Ok (n, b)"
    by (subst (asm) read_ext_message.simps) (auto split: outcome.splits)
  note e = read_message_effect [OF b]
  show ?case
  proof (cases "n = []")
    case True
    with "1.prems" b have "read_ext_message b = Ok (m, bt')"
      by (subst (asm) read_ext_message.simps) simp
    with "1.IH"(1) [OF b refl] True e show ?thesis by simp
  next
    case False
    with "1.prems" b e show ?thesis
      using "1.IH"(2) [OF b refl _ refl]
      by (subst (asm) read_ext_message.simps) (auto simp: Let_def split: if_splits)
  qed
qed

lemma handshake_effect:
  assumes "handshake peerID bt = Ok bt'"
  shows "kept bt' = kept bt \<and> (snd (kept bt) \<longrightarrow> unmetered bt' = unmetered bt)"
  using assms
  by (auto simp: handshake_def obind_eq_Ok Let_def split: if_splits dest!: write_effect read_effect)

lemma ext_handshake_effect:
  assumes "ext_handshake bt = Ok (ext, bt')"
  shows "kept bt' = kept bt \<and> (snd (kept bt) \<longrightarrow> unmetered bt' = unmetered bt)"
    and "metadata_size ext \<le> max_metadata_size"
  using assms
  by (auto simp: ext_handshake_def obind_eq_Ok Let_def case_prod_unfold split: if_splits
      dest!: send_effect read_ext_effect)

lemma request_loop_effect:
  "request_loop ext n i bt = Ok bt' \<Longrightarrow> kept bt' = kept bt \<and> (snd (kept bt) \<longrightarrow> unmetered bt' = unmetered bt)"
  by (induction n arbitrary: i bt)
    (fastforce simp: request_piece_def obind_eq_Ok Let_def dest!: send_effect)+

lemma read_loop_effect:
  "read_loop n ps bt = Ok (ps', bt') \<Longrightarrow> kept bt' = kept bt \<and> unmetered bt' = unmetered bt"
  by (induction n arbitrary: ps bt)
    (fastforce simp: read_piece_def obind_eq_Ok Let_def split: if_splits prod.splits dest!: read_ext_effect)+

lemma get_metadata_effect:
  assumes "get_metadata sha1 peerID bt = Ok (md, bt')"
  obtains raw d off where "kept bt' = kept bt" "snd (kept bt) \<longrightarrow> unmetered bt' = unmetered bt"
    "sha1 raw = bt_info_hash bt" "int (length raw) \<le> max_metadata_size"
    "bdecode_dict raw = Ok (d, off)" "md = map (map_prod id (map_any (span_read raw))) d"
proof -
  from assms have "get_metadata_body sha1 peerID bt = Ok (md, bt')"
    by (simp add: get_metadata_def split: outcome.splits)
  then obtain b1 ext b2 b3 ps raw d off where *: "handshake peerID bt = Ok b1" "ext_handshake b1 = Ok (ext, b2)"
    "request_loop ext (nat (num_pieces ext)) 0 b2 = Ok b3" "read_loop (nat (num_pieces ext)) [] b3 = Ok (ps, bt')"
    "0 \<le> metadata_size ext" "bt_info_hash bt' = sha1 raw" "bdecode_dict raw = Ok (d, off)"
    "assemble (replicate (nat (metadata_size ext)) (char_of (0 :: nat))) ps = Ok raw"
    "md = map (map_prod id (map_any (span_read raw))) d"
    by (auto simp: get_metadata_body_def request_pieces_def obind_eq_Ok split: if_splits prod.splits)
  note e = handshake_effect [OF *(1)] ext_handshake_effect(1) [OF *(2)] request_loop_effect [OF *(3)]
    read_loop_effect [OF *(4)]
  from assemble_length [OF *(8)] *(5) have "int (length raw) \<le> max_metadata_size"
    using ext_handshake_effect(2) [OF *(2)] by simp
  moreover from e have "bt_info_hash bt' = bt_info_hash bt" by (simp add: kept_def)
  ultimately show thesis using e *(6,7,9) by (intro that [of raw d off]) auto
qed

text \<open>
  The stream of a peer that follows the protocol and has the metadata \<open>raw\<close>: its handshake, any messages, its
  extension handshake, and then as many replies as there are pieces, in any order and with other
  messages between them, that bring every piece.
\<close>

definition honest_stream :: "bytes \<Rightarrow> bytes \<Rightarrow> bytes \<Rightarrow> bool" where
  "honest_stream raw rest inp \<longleftrightarrow>
     (\<exists>hs ns m rs. inp = hs @ concat (map frame ns) @ frame (bt_msg_id # m) @ concat (map reply_text rs) @ rest
        \<and> peer_handshake hs \<and> list_all is_noise ns \<and> peer_ext_handshake (length raw) m \<and> list_all (reply_ok raw) rs
        \<and> length rs = nat (ceil_pieces (int (length raw)))
        \<and> set (map (fst \<circ> snd) rs) = {..<nat (ceil_pieces (int (length raw)))})"

lemma honest_exchange:
  assumes raw: "raw = benc id (AMap info)" "encodable id (AMap info)" "int (length raw) \<le> max_metadata_size"
    and peer: "peer_handshake hs" "list_all is_noise ns" "peer_ext_handshake (length raw) m"
    and replies: "list_all (reply_ok raw) rs" "length rs = n" "set (map (fst \<circ> snd) rs) = {..<n}"
    and n: "n = nat (ceil_pieces (int (length raw)))"
    and bt: "conn_at (sha1 raw)
       (hs @ concat (map frame ns) @ frame (bt_msg_id # m) @ concat (map reply_text rs) @ rest) [] bt"
  shows "\<exists>bt' ut. get_metadata sha1 peerID bt = Ok (map (map_prod id (norm_any id)) info, bt')
     \<and> conn_at (sha1 raw) rest
         (our_handshake (sha1 raw) peerID @ frame our_ext_handshake
           @ concat (map (\<lambda>i. frame (our_request ut i)) [0..<n])) bt'"
proof -
  let ?o = "our_handshake (sha1 raw) peerID"
  have len: "length raw \<le> 10000000" using raw(3) by (simp add: max_metadata_size_def)
  obtain b1 where b1: "handshake peerID bt = Ok b1"
      "conn_at (sha1 raw) (concat (map frame ns) @ frame (bt_msg_id # m) @ concat (map reply_text rs) @ rest) ([] @ ?o) b1"
    by (rule conn_at_handshake [OF bt peer(1)])
  obtain b2 ut where b2: "conn_at (sha1 raw) (concat (map reply_text rs) @ rest) (([] @ ?o) @ frame our_ext_handshake) b2"
      "ext_handshake b1 = Ok (\<lparr>metadata_size = int (length raw), ut_metadata = ut,
         num_pieces = ceil_pieces (int (length raw))\<rparr>, b2)"
    by (rule conn_at_ext_handshake [OF b1(2) peer(2,3) raw(3)])
  let ?ext = "\<lparr>metadata_size = int (length raw), ut_metadata = ut, num_pieces = ceil_pieces (int (length raw))\<rparr>"
  have n63: "int (0 + n) < 2 ^ 63" using len by (simp add: n ceil_pieces_nat piece_length_def)
  obtain b3 where b3: "request_loop ?ext n (int 0) b2 = Ok b3"
      "conn_at (sha1 raw) (concat (map reply_text rs) @ rest) ((([] @ ?o) @ frame our_ext_handshake)
         @ concat (map (\<lambda>i. frame (our_request (ut_metadata ?ext) i)) [0..<0 + n])) b3"
    by (rule conn_at_request_loop [OF b2(1) n63])
  obtain b4 where b4: "read_loop (length rs) [] b3 = Ok ([] @ map (reply_piece raw) rs, b4)"
      "conn_at (sha1 raw) rest ((([] @ ?o) @ frame our_ext_handshake)
         @ concat (map (\<lambda>i. frame (our_request (ut_metadata ?ext) i)) [0..<0 + n])) b4"
    by (rule conn_at_read_loop [OF b3(2) replies(1)])
  have rp: "map (reply_piece raw) rs = map (\<lambda>i. \<lparr>pc_data = chunk raw i, pc_id = int i\<rparr>) (map (fst \<circ> snd) rs)"
    by (simp add: reply_piece_def case_prod_unfold)
  have as: "assemble (replicate (length raw) (char_of (0 :: nat))) (map (reply_piece raw) rs) = Ok raw"
    unfolding rp using len replies(3) n by (intro assemble_all) auto
  obtain dm where dm: "bdecode_dict (benc id (AMap info) @ []) = Ok (dm, length (benc id (AMap info)))"
    "map (map_prod id (map_any (span_read (benc id (AMap info) @ [])))) dm = map (map_prod id (norm_any id)) info"
    by (rule bdecode_dict_benc [OF raw(2), of "[]"]) (rule that)
  have dm': "bdecode_dict raw = Ok (dm, length raw)"
    "map (map_prod id (map_any (span_read raw))) dm = map (map_prod id (norm_any id)) info"
    using dm by (simp_all only: raw(1) append_Nil2)
  have ih: "bt_info_hash b4 = sha1 raw" using b4(2) by (simp add: conn_at_def)
  have "get_metadata sha1 peerID bt = Ok (map (map_prod id (norm_any id)) info, b4)"
    using b1(1) b2(2) b3(1) b4(1) as dm' ih replies(2) n
    by (simp add: get_metadata_def get_metadata_body_def request_pieces_def)
  with b4(2) show ?thesis by auto
qed

lemma honest_stream_metadata:
  assumes "raw = benc id (AMap info)" "encodable id (AMap info)" "int (length raw) \<le> max_metadata_size"
    and "honest_stream raw rest inp" "conn_at (sha1 raw) inp [] bt"
  shows "\<exists>bt' ut. get_metadata sha1 peerID bt = Ok (map (map_prod id (norm_any id)) info, bt')
     \<and> conn_at (sha1 raw) rest
         (our_handshake (sha1 raw) peerID @ frame our_ext_handshake
           @ concat (map (\<lambda>i. frame (our_request ut i)) [0..<nat (ceil_pieces (int (length raw)))])) bt'"
proof -
  obtain hs ns m rs where h: "inp = hs @ concat (map frame ns) @ frame (bt_msg_id # m) @ concat (map reply_text rs) @ rest"
    "peer_handshake hs" "list_all is_noise ns" "peer_ext_handshake (length raw) m" "list_all (reply_ok raw) rs"
    "length rs = nat (ceil_pieces (int (length raw)))" "set (map (fst \<circ> snd) rs) = {..<nat (ceil_pieces (int (length raw)))}"
    using assms(4) unfolding honest_stream_def by blast
  show ?thesis by (rule honest_exchange [where ?sha1.0 = sha1, OF assms(1-3) h(2-7) refl assms(5) [unfolded h(1)]])
qed

text \<open>A peer with a small dictionary that sends a keep-alive and another message in between.\<close>

definition honest_example :: bytes where
  "honest_example =
     (char_of (19 :: nat) # bt_protocol @ bt_reserved @ replicate 40 CHR ''p'')
     @ concat (map frame [[]])
     @ frame (bt_msg_id # ext_handshake_id # benc id (AMap [(''m'', AMap [(''ut_metadata'', AInt 3)]), (''metadata_size'', AInt 11)]))
     @ concat (map reply_text [([''x''], 0, CHR ''a'' # benc id (AMap [(''msg_type'', AInt 1), (''piece'', AInt 0)])
         @ benc id (AMap [(''name'', ABytes ''x'')]))]) @ []"

lemma honest_example_stream: "honest_stream (benc id (AMap [(''name'', ABytes ''x'')])) [] honest_example"
proof -
  let ?info = "[(''name'', ABytes ''x'')] :: (string \<times> bytes any) list"
  let ?raw = "benc id (AMap ?info)"
  let ?hs = "char_of (19 :: nat) # bt_protocol @ bt_reserved @ replicate 40 CHR ''p''"
  let ?d = "[(''m'', AMap [(''ut_metadata'', AInt 3)]), (''metadata_size'', AInt 11)] :: (string \<times> bytes any) list"
  let ?e = "[(''msg_type'', AInt 1), (''piece'', AInt 0)] :: (string \<times> bytes any) list"
  let ?m = "ext_handshake_id # benc id (AMap ?d)"
  let ?r = "CHR ''a'' # benc id (AMap ?e) @ ?raw"
  have len: "length ?raw = 11" "length (benc id (AMap ?d)) < 100" "length (benc id (AMap ?e)) < 100" by code_simp+
  have ch: "chunk ?raw 0 = ?raw" using len(1) by (simp add: chunk_def piece_length_def)
  have enc: "encodable id (AMap ?info)" "encodable id (AMap ?d)" "encodable id (AMap ?e)"
    by (simp_all add: small_int64 less_char_def)
  have hs: "peer_handshake ?hs"
    by (simp add: peer_handshake_def bt_reserved_def) code_simp
  have ints: "get_int ?d ''metadata_size'' = (11, True)" "get_int ?d ''m.ut_metadata'' = (3, True)"
    "get_int ?e ''msg_type'' = (1, True)" "get_int ?e ''piece'' = (0, True)"
    by (simp_all add: get_int_def get_by_path_def)
  have ns: "list_all is_noise [[]]" "list_all is_noise [''x'']"
    by (simp_all add: is_noise_def bt_msg_id_def char_of_def)
  have m: "peer_ext_handshake (length ?raw) ?m"
    unfolding peer_ext_handshake_def len(1) using len(2) enc(2) ints(1,2) by (intro exI [of _ ?d] exI [of _ 3]) simp
  have "peer_piece ?raw 0 ?r"
    unfolding peer_piece_def ch using len(1,3) enc(3) ints(3,4)
    by (intro exI [of _ "CHR ''a''"] exI [of _ ?e]) (simp add: char_of_def)
  then have rs: "list_all (reply_ok ?raw) [([''x''], 0, ?r)]"
    using ns(2) by (simp only: list.pred_inject reply_ok_def prod.case simp_thms)
  have n: "(1 :: nat) = nat (ceil_pieces (int (length ?raw)))"
    unfolding len(1) ceil_pieces_nat by (simp add: piece_length_def)
  have "list_all (reply_ok ?raw) [([''x''], 0, ?r)]" by (rule rs)
  with hs ns(1) m n len(1) show ?thesis
    unfolding honest_stream_def honest_example_def
    by (intro exI [of _ ?hs] exI [of _ "[[]]"] exI [of _ ?m] exI [of _ "[([''x''], 0, ?r)]"]) (auto simp: lessThan_Suc simp del: benc.simps)
qed

lemma honest_example_metadata:
  "encodable id (AMap [(''name'', ABytes ''x'')])" "int (length (benc id (AMap [(''name'', ABytes ''x'')]))) \<le> max_metadata_size"
  by (simp add: small_int64 less_char_def, code_simp)

section \<open>Properties\<close>

text \<open>
  Property C9. A peer that follows the protocol is answered with its metadata: whatever other messages
  it sends in between, in whatever order its pieces arrive (each at least once in as many replies as
  were requested), \<^verbatim>\<open>GetMetadata\<close> returns the dictionary whose bencoding has the requested hash, has
  read exactly these messages, and has sent the handshake, the extension handshake and one request
  for every piece.
\<close>

theorem get_metadata_honest_peer:
  assumes "raw = benc id (AMap info)" "encodable id (AMap info)" "int (length raw) \<le> max_metadata_size"
    and "honest_stream raw rest inp" "conn_at (sha1 raw) inp [] bt"
  shows "\<exists>bt' ut. get_metadata sha1 peerID bt = Ok (map (map_prod id (norm_any id)) info, bt')
     \<and> conn_at (sha1 raw) rest
         (our_handshake (sha1 raw) peerID @ frame our_ext_handshake
           @ concat (map (\<lambda>i. frame (our_request ut i)) [0..<nat (ceil_pieces (int (length raw)))])) bt'"
  by (rule honest_stream_metadata [where ?sha1.0 = sha1, OF assms])

theorem get_metadata_honest_peer_witness:
  "let bt = (new_bit_torrent [] ''hash'' ''peer'')\<lparr>bt_conn := Some \<lparr>cn_in = honest_example, cn_out = [], cn_budget = None\<rparr>\<rparr>
   in \<exists>bt'. get_metadata (\<lambda>_. ''hash'') (replicate 20 CHR ''q'') bt = Ok ([(''name'', ABytes ''x'')], bt')"
proof -
  let ?bt = "(new_bit_torrent [] ''hash'' ''peer'')\<lparr>bt_conn := Some \<lparr>cn_in = honest_example, cn_out = [], cn_budget = None\<rparr>\<rparr>"
  have "conn_at ''hash'' honest_example [] ?bt" by (simp add: conn_at_def new_bit_torrent_def)
  from get_metadata_honest_peer [where ?sha1.0 = "\<lambda>_. ''hash''" and peerID = "replicate 20 CHR ''q''",
      OF refl honest_example_metadata honest_example_stream this]
  show ?thesis by (auto simp: Let_def)
qed

text \<open>
  Property C4. Integrity: whatever the peer sends, metadata is only returned when it is the decoding
  of at most ten million bytes whose hash is the requested one.
\<close>

theorem get_metadata_verified:
  assumes "get_metadata sha1 peerID bt = Ok (metadata, bt')"
  shows "\<exists>raw d off. sha1 raw = bt_info_hash bt \<and> length raw \<le> 10000000
     \<and> bdecode_dict raw = Ok (d, off) \<and> metadata = map (map_prod id (map_any (span_read raw))) d"
  by (rule get_metadata_effect [OF assms]) (auto simp: max_metadata_size_def)

definition tiny_peer :: bit_torrent where
  "tiny_peer = (new_bit_torrent [] ''hash'' ''peer'')\<lparr>bt_metric_func := True, bt_conn := Some
     \<lparr>cn_in = char_of (19 :: nat) # bt_protocol @ bt_reserved @ replicate 40 CHR ''p''
        @ frame (bt_msg_id # ext_handshake_id # ''d1:md11:ut_metadatai3ee13:metadata_sizei0ee''),
      cn_out = [], cn_budget = None\<rparr>\<rparr>"

lemma tiny_peer_ok: "is_ok (get_metadata (\<lambda>_. ''hash'') ''id'' tiny_peer)"
  by code_simp

theorem get_metadata_verified_witness:
  "\<exists>md bt' raw d off. get_metadata (\<lambda>_. ''hash'') ''id'' tiny_peer = Ok (md, bt') \<and> length raw \<le> 10000000
     \<and> bdecode_dict raw = Ok (d, off) \<and> md = map (map_prod id (map_any (span_read raw))) d"
  using tiny_peer_ok get_metadata_verified by (fastforce simp: is_ok_iff)

text \<open>
  When a metric callback is set, a successful \<^verbatim>\<open>GetMetadata\<close> reports under its outgoing
  labels exactly the number of bytes it has written to the connection.
\<close>

lemma get_metadata_traffic:
  assumes "get_metadata sha1 peerID bt = Ok (metadata, bt')" "bt_metric_func bt"
  shows "out_written bt' - out_written bt = out_metered bt' - out_metered bt"
proof -
  have "unmetered bt' = unmetered bt"
    by (rule get_metadata_effect [OF assms(1)]) (use assms(2) in \<open>simp add: kept_def\<close>)
  then show ?thesis by (simp add: unmetered_def)
qed

lemma get_metadata_traffic_example:
  "\<exists>md bt'. get_metadata (\<lambda>_. ''hash'') ''id'' tiny_peer = Ok (md, bt')
     \<and> out_written bt' - out_written tiny_peer = out_metered bt' - out_metered tiny_peer"
proof -
  obtain md bt' where ok: "get_metadata (\<lambda>_. ''hash'') ''id'' tiny_peer = Ok (md, bt')"
    using tiny_peer_ok by (auto simp: is_ok_iff)
  have "bt_metric_func tiny_peer" by (simp add: tiny_peer_def)
  from get_metadata_traffic [OF ok this] ok show ?thesis by blast
qed

end
