(* ===== verification/Udp_Tracker.thy ===== *)
theory Udp_Tracker
  imports Go_Binary Lrw_Cache
begin

text \<open>
  \<^verbatim>\<open>common/bittorrent/tracker\<close>: the UDP tracker client. \<^verbatim>\<open>protocol.go\<close> gives the wire structs, \<^verbatim>\<open>udp.go\<close>
  the client: \<^verbatim>\<open>Scrape\<close> registers a batch of info hashes under a random transaction and sends the
  request, a goroutine receives the responses and hands the results to a channel. The lemmas show the
  wire formats, that a response to a registered request gives one result per hash in order, the
  invariant that no batch is in flight that was not requested, and that a connection established before the first
  scrape leaves the receiving goroutine stuck.
\<close>

section \<open>\<open>protocol.go\<close>: wire structs\<close>

definition protocol_id :: "64 word" where
  "protocol_id = 0x41727101980"

definition action_connect :: "32 word" where
  "action_connect = 0"

definition action_announce :: "32 word" where
  "action_announce = 1"

definition action_scrape :: "32 word" where
  "action_scrape = 2"

definition action_error :: "32 word" where
  "action_error = 3"

record connect_request =
  cq_protocol_id :: "64 word"
  cq_action :: "32 word"
  cq_transaction_id :: "32 word"

record connect_response =
  cr_connection_id :: "64 word"

record tracker_request_header =
  rq_connection_id :: "64 word"
  rq_action :: "32 word"
  rq_transaction_id :: "32 word"

record tracker_response_header =
  rs_action :: "32 word"
  rs_transaction_id :: "32 word"

record scrape_response =
  seeders :: "32 word"
  completed :: "32 word"
  leechers :: "32 word"

record scrape_result =
  sr_info_hash :: bytes
  sr_response :: scrape_response

text \<open>
  \<^verbatim>\<open>binary.Write\<close> writes the fields in order, big-endian; \<^verbatim>\<open>binary.Read\<close> reads as many bytes as the
  struct has and fails when there are fewer.
\<close>

definition write_connect_request :: "connect_request \<Rightarrow> bytes" where
  "write_connect_request q =
     put_uint64 (cq_protocol_id q) @ put_uint32 (cq_action q) @ put_uint32 (cq_transaction_id q)"

definition read_connect_request :: "bytes \<Rightarrow> (connect_request \<times> bytes) outcome" where
  "read_connect_request r = obind (read_full 16 r) (\<lambda>(b, r).
     Ok (\<lparr>cq_protocol_id = get_uint64 (sub b 0 8), cq_action = get_uint32 (sub b 8 12),
          cq_transaction_id = get_uint32 (sub b 12 16)\<rparr>, r))"

definition write_connect_response :: "connect_response \<Rightarrow> bytes" where
  "write_connect_response q = put_uint64 (cr_connection_id q)"

definition read_connect_response :: "bytes \<Rightarrow> (connect_response \<times> bytes) outcome" where
  "read_connect_response r = obind (read_full 8 r) (\<lambda>(b, r).
     Ok (\<lparr>cr_connection_id = get_uint64 (sub b 0 8)\<rparr>, r))"

definition write_request_header :: "tracker_request_header \<Rightarrow> bytes" where
  "write_request_header q =
     put_uint64 (rq_connection_id q) @ put_uint32 (rq_action q) @ put_uint32 (rq_transaction_id q)"

definition read_request_header :: "bytes \<Rightarrow> (tracker_request_header \<times> bytes) outcome" where
  "read_request_header r = obind (read_full 16 r) (\<lambda>(b, r).
     Ok (\<lparr>rq_connection_id = get_uint64 (sub b 0 8), rq_action = get_uint32 (sub b 8 12),
          rq_transaction_id = get_uint32 (sub b 12 16)\<rparr>, r))"

definition write_response_header :: "tracker_response_header \<Rightarrow> bytes" where
  "write_response_header q = put_uint32 (rs_action q) @ put_uint32 (rs_transaction_id q)"

definition read_response_header :: "bytes \<Rightarrow> (tracker_response_header \<times> bytes) outcome" where
  "read_response_header r = obind (read_full 8 r) (\<lambda>(b, r).
     Ok (\<lparr>rs_action = get_uint32 (sub b 0 4), rs_transaction_id = get_uint32 (sub b 4 8)\<rparr>, r))"

definition write_scrape_response :: "scrape_response \<Rightarrow> bytes" where
  "write_scrape_response q = put_uint32 (seeders q) @ put_uint32 (completed q) @ put_uint32 (leechers q)"

definition read_scrape_response :: "bytes \<Rightarrow> (scrape_response \<times> bytes) outcome" where
  "read_scrape_response r = obind (read_full 12 r) (\<lambda>(b, r).
     Ok (\<lparr>seeders = get_uint32 (sub b 0 4), completed = get_uint32 (sub b 4 8),
          leechers = get_uint32 (sub b 8 12)\<rparr>, r))"

section \<open>\<open>udp.go\<close>: state\<close>

text \<open>
  Where a goroutine running \<^verbatim>\<open>receive\<close> is: waiting for a datagram, waiting to send on \<^verbatim>\<open>connected\<close>,
  waiting to send a batch on \<^verbatim>\<open>result\<close>, or returned. Both channels are unbuffered. A goroutine that
  calls \<^verbatim>\<open>Scrape\<close> (the tracker service has two) is idle, waits to receive on \<^verbatim>\<open>connected\<close>, or is about to
  send its request.
\<close>

datatype receiver = Reading | SendingConnected | SendingResult "scrape_result list" | Returned

datatype caller = Idle | AwaitConnected "bytes list" | ReadyToSend "bytes list"

text \<open>
  \<open>tr_conn\<close> is the socket with the datagrams written to it. \<open>tr_delivered\<close> are the batches a consumer
  has taken from \<^verbatim>\<open>Result()\<close>, \<open>tr_requested\<close> the batches \<^verbatim>\<open>Scrape\<close> was called with.
\<close>

record udp_tracker =
  tr_addr :: string
  tr_conn :: "bytes list option"
  tr_connection_id :: "64 word"
  tr_scrape_queue :: "(32 word, bytes list) lrw"
  tr_receivers :: "receiver list"
  tr_callers :: "caller list"
  tr_delivered :: "scrape_result list list"
  tr_requested :: "bytes list list"

record udp_tracker_config =
  conf_addr :: string
  conf_queue_size :: nat
  conf_queue_ttl :: int

definition default_udp_tracker_config :: "string \<Rightarrow> udp_tracker_config" where
  "default_udp_tracker_config addr = \<lparr>conf_addr = addr, conf_queue_size = 100, conf_queue_ttl = 30\<rparr>"

definition new_udp_tracker :: "udp_tracker_config \<Rightarrow> udp_tracker" where
  "new_udp_tracker conf =
     \<lparr>tr_addr = conf_addr conf, tr_conn = None, tr_connection_id = 0,
      tr_scrape_queue = new_lrw_cache (conf_queue_ttl conf) (conf_queue_size conf) True,
      tr_receivers = [], tr_callers = [], tr_delivered = [], tr_requested = []\<rparr>"

section \<open>Operations\<close>

text \<open>
  The results of resolving and dialling (\<open>dial\<close>) and of one write to the socket (\<open>wr\<close>) are arguments,
  as are the random transaction numbers. An operation returns the state and how the call ended, since
  the state changes that precede an error stay.
\<close>

definition disconnect :: "udp_tracker \<Rightarrow> udp_tracker" where
  "disconnect t = (if tr_conn t \<noteq> None then t\<lparr>tr_conn := None, tr_connection_id := 0\<rparr> else t)"

definition tracker_stop :: "udp_tracker \<Rightarrow> udp_tracker" where
  "tracker_stop t = (if tr_conn t \<noteq> None then t\<lparr>tr_conn := None, tr_connection_id := 0\<rparr> else t)"

definition conn_write :: "unit outcome \<Rightarrow> bytes \<Rightarrow> udp_tracker \<Rightarrow> udp_tracker \<times> unit outcome" where
  "conn_write wr data t =
     (case tr_conn t of
        None \<Rightarrow> (t, Panic NilDereference)
      | Some sent \<Rightarrow> (case wr of Ok u \<Rightarrow> (t\<lparr>tr_conn := Some (sent @ [data])\<rparr>, Ok u) | e \<Rightarrow> (t, e)))"

definition send_connect :: "unit outcome \<Rightarrow> 32 word \<Rightarrow> udp_tracker \<Rightarrow> udp_tracker \<times> unit outcome" where
  "send_connect wr tid t =
     conn_write wr (write_connect_request
       \<lparr>cq_protocol_id = protocol_id, cq_action = action_connect, cq_transaction_id = tid\<rparr>) t"

definition start_receive :: "udp_tracker \<Rightarrow> udp_tracker" where
  "start_receive t = t\<lparr>tr_receivers := tr_receivers t @ [Reading]\<rparr>"

definition connect ::
    "unit outcome \<Rightarrow> unit outcome \<Rightarrow> 32 word \<Rightarrow> udp_tracker \<Rightarrow> udp_tracker \<times> unit outcome" where
  "connect dial wr tid t =
     (case dial of
        Ok _ \<Rightarrow>
          (let t = t\<lparr>tr_conn := Some []\<rparr>
           in if tr_connection_id t = 0
              then (case send_connect wr tid t of
                      (t, Ok _) \<Rightarrow> (start_receive t, Ok ())
                    | (t, e) \<Rightarrow> (t, e))
              else (start_receive t, Ok ()))
      | e \<Rightarrow> (t, e))"

definition tracker_start ::
    "unit outcome \<Rightarrow> unit outcome \<Rightarrow> 32 word \<Rightarrow> udp_tracker \<Rightarrow> udp_tracker \<times> unit outcome" where
  "tracker_start dial wr tid t = (if tr_conn t \<noteq> None then (t, Ok ()) else connect dial wr tid t)"

text \<open>
  \<^verbatim>\<open>Scrape\<close> up to its wait: it connects when there is no socket, then either fails or goes on to wait
  for the connection or to send.
\<close>

definition scrape ::
    "unit outcome \<Rightarrow> unit outcome \<Rightarrow> 32 word \<Rightarrow> bytes list \<Rightarrow> udp_tracker \<Rightarrow> udp_tracker \<times> caller outcome" where
  "scrape dial wr tid infoHashes t =
     (let (t, r) = (if tr_conn t = None then connect dial wr tid t else (t, Ok ()));
          t = t\<lparr>tr_requested := tr_requested t @ [infoHashes]\<rparr>
      in (t, obind r (\<lambda>_. Ok (if tr_connection_id t = 0 then AwaitConnected infoHashes else ReadyToSend infoHashes))))"

text \<open>
  The rest of \<^verbatim>\<open>Scrape\<close>: \<^const>\<open>None\<close> when storing the request has to wait for room in the queue. A
  hash is sliced to 20 bytes; hashes have no spare capacity, so slicing a shorter one is a panic.
\<close>

definition scrape_request :: "64 word \<Rightarrow> 32 word \<Rightarrow> bytes list \<Rightarrow> bytes outcome" where
  "scrape_request cid tid infoHashes =
     (if list_all (\<lambda>h. 20 \<le> length h) infoHashes
      then Ok (write_request_header \<lparr>rq_connection_id = cid, rq_action = action_scrape, rq_transaction_id = tid\<rparr>
               @ concat (map (take 20) infoHashes))
      else Panic SliceOutOfRange)"

definition scrape_send ::
    "unit outcome \<Rightarrow> 32 word \<Rightarrow> bytes list \<Rightarrow> udp_tracker \<Rightarrow> (udp_tracker \<times> unit outcome) option" where
  "scrape_send wr tid infoHashes t =
     (case scrape_request (tr_connection_id t) tid infoHashes of
        Ok req \<Rightarrow>
          map_option (\<lambda>q. conn_write wr req (t\<lparr>tr_scrape_queue := q\<rparr>))
            (cache_set tid infoHashes (tr_scrape_queue t))
      | Err e \<Rightarrow> Some (t, Err e)
      | Panic p \<Rightarrow> Some (t, Panic p))"

section \<open>The receiving goroutine\<close>

definition handle_connect :: "bytes \<Rightarrow> udp_tracker \<Rightarrow> udp_tracker \<times> receiver outcome" where
  "handle_connect reader t =
     (case read_connect_response reader of
        Ok (resp, _) \<Rightarrow> (t\<lparr>tr_connection_id := cr_connection_id resp\<rparr>, Ok SendingConnected)
      | Err e \<Rightarrow> (t, Err e)
      | Panic p \<Rightarrow> (t, Panic p))"

fun scrape_loop :: "bytes list \<Rightarrow> bytes \<Rightarrow> scrape_result list \<Rightarrow> scrape_result list outcome" where
  "scrape_loop [] reader results = Ok results"
| "scrape_loop (infoHash # infoHashes) reader results =
     obind (read_scrape_response reader) (\<lambda>(resp, reader).
       scrape_loop infoHashes reader (results @ [\<lparr>sr_info_hash = infoHash, sr_response = resp\<rparr>]))"

definition handle_scrape ::
    "bytes \<Rightarrow> tracker_response_header \<Rightarrow> udp_tracker \<Rightarrow> (udp_tracker \<times> receiver outcome) option" where
  "handle_scrape reader hdr t =
     map_option (\<lambda>(found, q).
       let t = t\<lparr>tr_scrape_queue := q\<rparr>
       in case found of
            None \<Rightarrow> (t, Ok Reading)
          | Some infoHashes \<Rightarrow>
              (t, obind (scrape_loop infoHashes reader []) (\<lambda>results. Ok (SendingResult results))))
       (cache_get_and_remove (rs_transaction_id hdr) (tr_scrape_queue t))"

text \<open>
  One iteration of the loop of \<^verbatim>\<open>receive\<close>, given what \<^verbatim>\<open>ReadFrom\<close> delivered: the datagram is cut to the
  2048 bytes of the buffer. Any error closes the connection and ends the goroutine.
\<close>

definition finish_receive :: "udp_tracker \<times> receiver outcome \<Rightarrow> udp_tracker \<times> receiver" where
  "finish_receive r =
     (case r of (t, Ok g) \<Rightarrow> (t, g) | (t, _) \<Rightarrow> (disconnect t, Returned))"

definition receive_one :: "bytes outcome \<Rightarrow> udp_tracker \<Rightarrow> (udp_tracker \<times> receiver) option" where
  "receive_one datagram t =
     (case datagram of
        Ok buf \<Rightarrow>
          (case read_response_header (take 2048 buf) of
             Ok (hdr, reader) \<Rightarrow>
               if rs_action hdr = action_connect then Some (finish_receive (handle_connect reader t))
               else if rs_action hdr = action_scrape then map_option finish_receive (handle_scrape reader hdr t)
               else Some (disconnect t, Returned)
           | _ \<Rightarrow> Some (disconnect t, Returned))
      | _ \<Rightarrow> Some (disconnect t, Returned))"

section \<open>Interleavings\<close>

datatype tracker_event = EvStart | EvScrape | EvSend | EvRendezvous | EvReceive | EvDeliver | EvExpire | EvStop

text \<open>
  The client with the goroutines that call \<^verbatim>\<open>Scrape\<close>, the receiving goroutines, a consumer of the results,
  the timers of the queue, and a network that delivers any datagram or error at any time.
\<close>

inductive tracker_step :: "tracker_event \<Rightarrow> udp_tracker \<Rightarrow> udp_tracker \<Rightarrow> bool" where
  ev_start: "tracker_start dial wr tid t = (t', r) \<Longrightarrow> \<not> is_panic r \<Longrightarrow> tracker_step EvStart t t'"
| ev_scrape: "j < length (tr_callers t) \<Longrightarrow> tr_callers t ! j = Idle \<Longrightarrow> scrape dial wr tid hs t = (t', r) \<Longrightarrow>
    \<not> is_panic r \<Longrightarrow>
    tracker_step EvScrape t (t'\<lparr>tr_callers := (tr_callers t')[j := (case r of Ok g \<Rightarrow> g | _ \<Rightarrow> Idle)]\<rparr>)"
| ev_rendezvous: "j < length (tr_callers t) \<Longrightarrow> tr_callers t ! j = AwaitConnected hs \<Longrightarrow> i < length (tr_receivers t) \<Longrightarrow>
    tr_receivers t ! i = SendingConnected \<Longrightarrow>
    tracker_step EvRendezvous t
      (t\<lparr>tr_callers := (tr_callers t)[j := ReadyToSend hs], tr_receivers := (tr_receivers t)[i := Reading]\<rparr>)"
| ev_send: "j < length (tr_callers t) \<Longrightarrow> tr_callers t ! j = ReadyToSend hs \<Longrightarrow> scrape_send wr tid hs t = Some (t', r) \<Longrightarrow>
    \<not> is_panic r \<Longrightarrow> tracker_step EvSend t (t'\<lparr>tr_callers := (tr_callers t')[j := Idle]\<rparr>)"
| ev_receive: "i < length (tr_receivers t) \<Longrightarrow> tr_receivers t ! i = Reading \<Longrightarrow>
    receive_one d t = Some (t', g) \<Longrightarrow>
    tracker_step EvReceive t (t'\<lparr>tr_receivers := (tr_receivers t')[i := g]\<rparr>)"
| ev_deliver: "i < length (tr_receivers t) \<Longrightarrow> tr_receivers t ! i = SendingResult rs \<Longrightarrow>
    tracker_step EvDeliver t
      (t\<lparr>tr_receivers := (tr_receivers t)[i := Reading], tr_delivered := tr_delivered t @ [rs]\<rparr>)"
| ev_expire: "expire k (tr_scrape_queue t) = Some q \<Longrightarrow> tracker_step EvExpire t (t\<lparr>tr_scrape_queue := q\<rparr>)"
| ev_stop: "tracker_step EvStop t (tracker_stop t)"

definition tracker_moves :: "udp_tracker \<Rightarrow> udp_tracker \<Rightarrow> bool" where
  "tracker_moves t t' \<longleftrightarrow> (\<exists>e. tracker_step e t t')"

definition tracker_begin :: "udp_tracker \<Rightarrow> bool" where
  "tracker_begin t \<longleftrightarrow> (\<exists>conf n. t = (new_udp_tracker conf)\<lparr>tr_callers := replicate n Idle\<rparr>)"

inductive_cases tracker_stepE: "tracker_step e t t'"

section \<open>The wire formats\<close>

interpretation cq: fixed_codec write_connect_request read_connect_request "\<lambda>_. True" 16
  by unfold_locales
    (auto simp: write_connect_request_def read_connect_request_def sub_def obind_eq_Ok read_full_Ok
      dest!: read_full_short)

interpretation cr: fixed_codec write_connect_response read_connect_response "\<lambda>_. True" 8
  by unfold_locales
    (auto simp: write_connect_response_def read_connect_response_def sub_def obind_eq_Ok read_full_Ok
      dest!: read_full_short)

interpretation rq: fixed_codec write_request_header read_request_header "\<lambda>_. True" 16
  by unfold_locales
    (auto simp: write_request_header_def read_request_header_def sub_def obind_eq_Ok read_full_Ok
      dest!: read_full_short)

interpretation rs: fixed_codec write_response_header read_response_header "\<lambda>_. True" 8
  by unfold_locales
    (auto simp: write_response_header_def read_response_header_def sub_def obind_eq_Ok read_full_Ok
      dest!: read_full_short)

interpretation sr: fixed_codec write_scrape_response read_scrape_response "\<lambda>_. True" 12
  by unfold_locales
    (auto simp: write_scrape_response_def read_scrape_response_def sub_def obind_eq_Ok read_full_Ok
      dest!: read_full_short)

text \<open>The loop of \<^verbatim>\<open>handleScrape\<close> is the sequence of reads of the format, paired with the hashes.\<close>

lemma scrape_loop_dec_n:
  "scrape_loop hs r acc = obind (dec_n read_scrape_response (length hs) r)
     (\<lambda>(resps, _). Ok (acc @ map (\<lambda>(h, x). \<lparr>sr_info_hash = h, sr_response = x\<rparr>) (zip hs resps)))"
  by (induction hs arbitrary: r acc) (auto simp: obind_assoc case_prod_unfold intro!: arg_cong2 [where f = obind])

lemma scrape_loop_hashes: "scrape_loop hs r acc = Ok rs \<Longrightarrow> map sr_info_hash rs = map sr_info_hash acc @ hs"
  by (auto simp: scrape_loop_dec_n obind_eq_Ok case_prod_unfold comp_def dest!: sr.dec_n_consumes)

section \<open>No batch is delivered that was not requested\<close>

definition receiver_ok :: "bytes list list \<Rightarrow> receiver \<Rightarrow> bool" where
  "receiver_ok reqs g = (case g of SendingResult rs \<Rightarrow> map sr_info_hash rs \<in> set reqs | _ \<Rightarrow> True)"

definition caller_ok :: "bytes list list \<Rightarrow> caller \<Rightarrow> bool" where
  "caller_ok reqs g = (case g of Idle \<Rightarrow> True | AwaitConnected hs \<Rightarrow> hs \<in> set reqs | ReadyToSend hs \<Rightarrow> hs \<in> set reqs)"

definition queue_ok :: "bytes list list \<Rightarrow> (32 word, bytes list) lrw \<Rightarrow> bool" where
  "queue_ok reqs q \<longleftrightarrow> tokens_cover q \<and> (\<forall>k hs. cache_get q k = Some hs \<longrightarrow> hs \<in> set reqs)"

definition tracker_inv :: "udp_tracker \<Rightarrow> bool" where
  "tracker_inv t \<longleftrightarrow> queue_ok (tr_requested t) (tr_scrape_queue t)
     \<and> list_all (receiver_ok (tr_requested t)) (tr_receivers t)
     \<and> list_all (caller_ok (tr_requested t)) (tr_callers t)
     \<and> (\<forall>rs \<in> set (tr_delivered t). map sr_info_hash rs \<in> set (tr_requested t))"

lemma queue_ok_set: "queue_ok reqs q \<Longrightarrow> hs \<in> set reqs \<Longrightarrow> cache_set k hs q = Some q' \<Longrightarrow> queue_ok reqs q'"
  by (auto simp: queue_ok_def lrw.register_lookup split: if_splits dest: lrw.register_inv)

lemma queue_ok_remove:
  assumes "queue_ok reqs q" "cache_get_and_remove k q = Some (r, q')"
  shows "queue_ok reqs q'" "r = Some hs \<Longrightarrow> hs \<in> set reqs"
proof -
  have q: "tokens_cover q" using assms(1) by (simp add: queue_ok_def)
  show "queue_ok reqs q'"
    using assms(1) lrw.withdraw_inv [OF q assms(2)] lrw.withdraw_lookup [OF q assms(2)]
    by (auto simp: queue_ok_def split: if_splits)
  show "hs \<in> set reqs" if "r = Some hs"
    using that assms(1) lrw.withdraw_result [OF q assms(2)] by (auto simp: queue_ok_def)
qed

lemma queue_ok_expire: "queue_ok reqs q \<Longrightarrow> expire i q = Some q' \<Longrightarrow> queue_ok reqs q'"
  using expire_cover expire_get by (fastforce simp: queue_ok_def)

lemma receiver_ok_simps [simp]:
  "receiver_ok reqs Reading" "receiver_ok reqs SendingConnected" "receiver_ok reqs Returned"
  "receiver_ok reqs (SendingResult rs) \<longleftrightarrow> map sr_info_hash rs \<in> set reqs"
  by (simp_all add: receiver_ok_def)

lemma ok_mono [simp]:
  "queue_ok reqs q \<Longrightarrow> queue_ok (reqs @ xs) q" "receiver_ok reqs g \<Longrightarrow> receiver_ok (reqs @ xs) g"
  "caller_ok reqs c \<Longrightarrow> caller_ok (reqs @ xs) c"
  by (auto simp: queue_ok_def receiver_ok_def caller_ok_def split: receiver.splits caller.splits)

lemma caller_ok_simps [simp]:
  "caller_ok reqs Idle" "caller_ok reqs (AwaitConnected hs) \<longleftrightarrow> hs \<in> set reqs"
  "caller_ok reqs (ReadyToSend hs) \<longleftrightarrow> hs \<in> set reqs"
  by (simp_all add: caller_ok_def)

lemma list_all_update: "list_all P xs \<Longrightarrow> P x \<Longrightarrow> list_all P (xs[i := x])"
  by (auto simp: list_all_iff dest!: set_update_subset_insert [THEN subsetD])

lemma connect_frame:
  assumes "connect dial wr tid t = (t', r)"
  shows "tr_scrape_queue t' = tr_scrape_queue t \<and> tr_callers t' = tr_callers t \<and> tr_delivered t' = tr_delivered t
     \<and> tr_requested t' = tr_requested t
     \<and> (tr_receivers t' = tr_receivers t \<or> tr_receivers t' = tr_receivers t @ [Reading])"
  using assms
  by (auto simp: connect_def send_connect_def conn_write_def start_receive_def Let_def
      split: outcome.splits if_splits option.splits)

lemma conn_write_frame:
  "conn_write wr d t = (t', r) \<Longrightarrow> \<exists>c. t' = t\<lparr>tr_conn := c\<rparr> \<and> (tr_conn t = None \<longleftrightarrow> c = None)"
  by (auto simp: conn_write_def split: option.splits outcome.splits intro: exI [of _ "tr_conn t"])

lemma disconnect_frame [simp]:
  "tr_scrape_queue (disconnect t) = tr_scrape_queue t" "tr_callers (disconnect t) = tr_callers t"
  "tr_delivered (disconnect t) = tr_delivered t" "tr_requested (disconnect t) = tr_requested t"
  "tr_receivers (disconnect t) = tr_receivers t"
  by (simp_all add: disconnect_def)

definition same_but_queue :: "udp_tracker \<Rightarrow> udp_tracker \<Rightarrow> bool" where
  "same_but_queue t t' \<longleftrightarrow> queue_ok (tr_requested t) (tr_scrape_queue t') \<and> tr_callers t' = tr_callers t
     \<and> tr_delivered t' = tr_delivered t \<and> tr_requested t' = tr_requested t
     \<and> tr_receivers t' = tr_receivers t"

lemma same_disconnect [simp]: "same_but_queue t (disconnect t') = same_but_queue t t'"
  by (simp add: same_but_queue_def)

lemma handle_scrape_frame:
  assumes "handle_scrape r hdr t = Some (t', g)" "queue_ok (tr_requested t) (tr_scrape_queue t)"
  shows "same_but_queue t t' \<and> (\<forall>x. g = Ok x \<longrightarrow> receiver_ok (tr_requested t) x)"
proof -
  obtain found q where q: "cache_get_and_remove (rs_transaction_id hdr) (tr_scrape_queue t) = Some (found, q)"
    "t' = t\<lparr>tr_scrape_queue := q\<rparr>"
    "g = (case found of None \<Rightarrow> Ok Reading
          | Some hs \<Rightarrow> obind (scrape_loop hs r []) (\<lambda>rs. Ok (SendingResult rs)))"
    using assms(1) by (auto simp: handle_scrape_def Let_def split: option.splits)
  note q' = queue_ok_remove [OF assms(2) q(1)]
  have "receiver_ok (tr_requested t) x" if "g = Ok x" for x
    using that q(3) q'(2)
    by (auto simp: receiver_ok_def obind_eq_Ok split: option.splits dest!: scrape_loop_hashes)
  with q(2) q'(1) show ?thesis by (auto simp: same_but_queue_def)
qed

lemma finish_receive_frame:
  assumes "finish_receive (t', g) = (t'', x)" "same_but_queue t t'" "\<forall>x. g = Ok x \<longrightarrow> receiver_ok reqs x"
  shows "same_but_queue t t'' \<and> receiver_ok reqs x"
  using assms by (cases g) (auto simp: finish_receive_def receiver_ok_def)

lemma receive_one_frame:
  assumes "receive_one d t = Some (t', g)" "queue_ok (tr_requested t) (tr_scrape_queue t)"
  shows "same_but_queue t t' \<and> receiver_ok (tr_requested t) g"
proof -
  have self: "same_but_queue t t" using assms(2) by (simp add: same_but_queue_def)
  consider "t' = disconnect t" "g = Returned"
    | r where "finish_receive (handle_connect r t) = (t', g)"
    | r hdr x where "handle_scrape r hdr t = Some x" "finish_receive x = (t', g)"
    using assms(1) by (auto simp: receive_one_def split: outcome.splits prod.splits if_splits)
  then show ?thesis
  proof cases
    case 1
    with self show ?thesis by (simp add: receiver_ok_def)
  next
    case (2 r)
    have "same_but_queue t (fst (handle_connect r t))"
      "\<forall>x. snd (handle_connect r t) = Ok x \<longrightarrow> receiver_ok (tr_requested t) x"
      using self by (auto simp: handle_connect_def same_but_queue_def receiver_ok_def split: outcome.splits)
    with 2 show ?thesis
      using finish_receive_frame [of "fst (handle_connect r t)" "snd (handle_connect r t)" t' g t] by simp
  next
    case (3 r hdr x)
    obtain t1 g1 where x: "x = (t1, g1)" by (cases x)
    from finish_receive_frame [OF 3(2) [unfolded x]] handle_scrape_frame [OF 3(1) [unfolded x] assms(2)]
    show ?thesis by blast
  qed
qed

lemma tracker_inv_step: "tracker_inv t \<Longrightarrow> tracker_step e t t' \<Longrightarrow> tracker_inv t'"
proof (erule tracker_stepE, goal_cases)
  case (1 dial wr tid r)
  then show ?case
    by (auto simp: tracker_start_def tracker_inv_def receiver_ok_def split: if_splits dest!: connect_frame)
next
  case (2 j dial wr tid hs t'' r)
  have "list_all (caller_ok (tr_requested t @ [hs])) (tr_callers t)" "list_all (receiver_ok (tr_requested t @ [hs])) (tr_receivers t)"
    using 2(1) by (auto simp: tracker_inv_def list_all_iff)
  then show ?case using 2
    by (auto simp: scrape_def tracker_inv_def Let_def obind_eq_Ok split: if_splits prod.splits outcome.splits
        dest!: connect_frame intro!: list_all_update)
next
  case (3 j hs i)
  have "caller_ok (tr_requested t) (AwaitConnected hs)" using 3 by (metis list_all_length tracker_inv_def)
  with 3 show ?case by (auto simp: tracker_inv_def intro!: list_all_update)
next
  case (4 j hs wr tid t'' r)
  have "caller_ok (tr_requested t) (ReadyToSend hs)" using 4 by (metis list_all_length tracker_inv_def)
  with 4 show ?case
    by (auto simp: scrape_send_def tracker_inv_def split: outcome.splits dest!: conn_write_frame
        intro: queue_ok_set intro!: list_all_update)
next
  case (5 i d t'' g)
  then show ?case
    by (auto simp: tracker_inv_def same_but_queue_def dest!: receive_one_frame intro!: list_all_update)
next
  case (6 i rs)
  then have "receiver_ok (tr_requested t) (SendingResult rs)"
    by (metis list_all_length tracker_inv_def)
  with 6 show ?case by (auto simp: tracker_inv_def intro!: list_all_update)
next
  case (7 k q)
  then show ?case by (auto simp: tracker_inv_def intro: queue_ok_expire)
next
  case 8
  then show ?case by (auto simp: tracker_inv_def tracker_stop_def)
qed

lemma tracker_inv_init: "tracker_begin t \<Longrightarrow> tracker_inv t"
  by (auto simp: tracker_begin_def new_udp_tracker_def tracker_inv_def queue_ok_def tokens_cover_new list_all_length
      cache_get_def new_lrw_cache_def [THEN arg_cong [where f = c_data]])

interpretation ut: inv_system tracker_begin tracker_moves tracker_inv
  by unfold_locales (auto simp: tracker_moves_def intro: tracker_inv_init tracker_inv_step)

section \<open>A connection that nobody waits for\<close>

text \<open>
  The receiving goroutines all wait to send on \<^verbatim>\<open>connected\<close> or have returned, while the client is
  connected and its caller does not wait on that channel.
\<close>

definition receivers_stuck :: "udp_tracker \<Rightarrow> bool" where
  "receivers_stuck t \<longleftrightarrow> tr_conn t \<noteq> None \<and> tr_connection_id t \<noteq> 0
     \<and> (\<forall>g \<in> set (tr_receivers t). g = SendingConnected \<or> g = Returned)
     \<and> (\<forall>hs. AwaitConnected hs \<notin> set (tr_callers t))"

definition moves_unstopped :: "udp_tracker \<Rightarrow> udp_tracker \<Rightarrow> bool" where
  "moves_unstopped t t' \<longleftrightarrow> (\<exists>e. e \<noteq> EvStop \<and> tracker_step e t t')"

lemma stuck_step:
  assumes "receivers_stuck t" "moves_unstopped t t'"
  shows "receivers_stuck t' \<and> tr_delivered t' = tr_delivered t"
proof -
  obtain e where e: "tracker_step e t t'" "e \<noteq> EvStop" using assms(2) by (auto simp: moves_unstopped_def)
  have busy: "tr_receivers t ! i \<noteq> Reading \<and> tr_receivers t ! i \<noteq> SendingResult rs" if "i < length (tr_receivers t)" for i rs
    using assms(1) nth_mem [OF that] by (auto simp: receivers_stuck_def)
  from e(1) show ?thesis
  proof cases
    case (ev_start dial wr tid r)
    with assms(1) show ?thesis by (auto simp: tracker_start_def receivers_stuck_def)
  next
    case (ev_scrape j dial wr tid hs t'' r)
    then have "t' = t\<lparr>tr_requested := tr_requested t @ [hs], tr_callers := (tr_callers t)[j := ReadyToSend hs]\<rparr>"
      using assms(1) by (auto simp: scrape_def receivers_stuck_def)
    with assms(1) show ?thesis
      using set_update_subset_insert [of "tr_callers t" j "ReadyToSend hs"]
      by (fastforce simp: receivers_stuck_def)
  next
    case (ev_rendezvous j hs i)
    then have "AwaitConnected hs \<in> set (tr_callers t)" using nth_mem by metis
    with assms(1) show ?thesis by (simp add: receivers_stuck_def)
  next
    case (ev_send j hs wr tid t'' r)
    with assms(1) show ?thesis
      by (auto simp: scrape_send_def receivers_stuck_def split: outcome.splits
          dest!: conn_write_frame set_update_subset_insert [THEN subsetD])
  qed (use assms(1) e(2) busy in \<open>auto simp: receivers_stuck_def\<close>)
qed

lemma stuck_steps:
  "moves_unstopped\<^sup>*\<^sup>* t t' \<Longrightarrow> receivers_stuck t \<Longrightarrow> receivers_stuck t' \<and> tr_delivered t' = tr_delivered t"
  by (induction rule: rtranclp_induct) (auto dest: stuck_step)

text \<open>A registered batch and the responses to it.\<close>

lemma scrape_then_response:
  assumes t: "tokens_cover (tr_scrape_queue t)" "tr_conn t \<noteq> None"
      "length (c_tokens (tr_scrape_queue t)) < c_max_size (tr_scrape_queue t)"
    and hs: "list_all (\<lambda>h. 20 \<le> length h) hs" "length resps = length hs" "length hs \<le> 170"
    and d: "d = write_response_header \<lparr>rs_action = action_scrape, rs_transaction_id = tid\<rparr>
                @ concat (map write_scrape_response resps)"
  obtains sent req q q2 q3 where "tr_conn t = Some sent"
    "scrape_send (Ok ()) tid hs t =
       Some (t\<lparr>tr_scrape_queue := q, tr_conn := Some (sent @ [req])\<rparr>, Ok ())"
    "\<And>u. tr_scrape_queue u = q \<Longrightarrow> receive_one (Ok d) u = Some (u\<lparr>tr_scrape_queue := q2\<rparr>,
       SendingResult (map (\<lambda>(h, x). \<lparr>sr_info_hash = h, sr_response = x\<rparr>) (zip hs resps)))"
    "\<And>u. tr_scrape_queue u = q2 \<Longrightarrow> receive_one (Ok d) u = Some (u\<lparr>tr_scrape_queue := q3\<rparr>, Reading)"
proof -
  let ?hdr = "\<lparr>rs_action = action_scrape, rs_transaction_id = tid\<rparr>"
  obtain sent where sent: "tr_conn t = Some sent" using t(2) by auto
  have b: "c_blocking (tr_scrape_queue t)" using t(1) by (simp add: tokens_cover_def)
  obtain q where q: "cache_set tid hs (tr_scrape_queue t) = Some q"
    using t(3) by (simp add: cache_set_blocking [OF b] push_token_def)
  obtain q2 q3 where q2: "cache_get_and_remove tid q = Some (Some hs, q2)" "cache_get_and_remove tid q2 = Some (None, q3)"
    using lrw.answered_once [OF t(1) q] by blast
  have "length d = 8 + 12 * length resps"
    by (simp add: d rs.length_enc sr.length_enc_all mult.commute)
  then have tk: "take 2048 d = d" using hs(2,3) by simp
  have h: "read_response_header d = Ok (?hdr, concat (map write_scrape_response resps))"
    unfolding d by (rule rs.dec_enc) simp
  have loop: "scrape_loop hs (concat (map write_scrape_response resps)) [] =
      Ok (map (\<lambda>(h, x). \<lparr>sr_info_hash = h, sr_response = x\<rparr>) (zip hs resps))"
    using sr.dec_n_enc [of resps "[]"] by (simp add: scrape_loop_dec_n flip: hs(2))
  obtain req where req: "scrape_request (tr_connection_id t) tid hs = Ok req"
    using hs(1) by (simp add: scrape_request_def)
  have "action_scrape \<noteq> action_connect" by (simp add: action_scrape_def action_connect_def)
  then show thesis
    using q q2 h loop
    by (intro that [of sent req q q2 q3])
      (simp_all add: scrape_send_def req conn_write_def sent receive_one_def tk handle_scrape_def finish_receive_def)
qed

text \<open>A complete run of the client: one batch of one hash is requested, answered and delivered.\<close>

lemma scrape_run:
  obtains t rs where "reach tracker_begin tracker_moves t" "tr_delivered t = [rs]" "rs \<noteq> []"
proof -
  let ?h = "replicate 20 CHR ''a''" and ?x = "\<lparr>seeders = 3, completed = 2, leechers = 1\<rparr>"
  let ?t0 = "(new_udp_tracker (default_udp_tracker_config ''tracker''))\<lparr>tr_callers := [Idle]\<rparr>"
  let ?c = "write_connect_request \<lparr>cq_protocol_id = protocol_id, cq_action = action_connect, cq_transaction_id = 1\<rparr>"
  let ?t1 = "?t0\<lparr>tr_conn := Some [?c], tr_receivers := [Reading], tr_requested := [[?h]], tr_callers := [AwaitConnected [?h]]\<rparr>"
  let ?d1 = "write_response_header \<lparr>rs_action = action_connect, rs_transaction_id = 1\<rparr> @ write_connect_response \<lparr>cr_connection_id = 7\<rparr>"
  let ?t2 = "?t1\<lparr>tr_connection_id := 7, tr_receivers := [SendingConnected]\<rparr>"
  let ?t3 = "?t2\<lparr>tr_callers := [ReadyToSend [?h]], tr_receivers := [Reading]\<rparr>"
  let ?d = "write_response_header \<lparr>rs_action = action_scrape, rs_transaction_id = 5\<rparr> @ concat (map write_scrape_response [?x])"
  have 0: "reach tracker_begin tracker_moves ?t0" 
    by (rule reach_init) (unfold tracker_begin_def, rule exI, rule exI [of _ 1], simp)
  have "scrape (Ok ()) (Ok ()) 1 [?h] ?t0 = (?t1\<lparr>tr_callers := [Idle]\<rparr>, Ok (AwaitConnected [?h]))"
    by (simp add: scrape_def connect_def send_connect_def conn_write_def start_receive_def new_udp_tracker_def)
  then have "tracker_moves ?t0 ?t1"
    using ev_scrape [of 0 ?t0 "Ok ()" "Ok ()" 1 "[?h]"] by (fastforce simp: tracker_moves_def)
  with 0 have 1: "reach tracker_begin tracker_moves ?t1" by (rule reach_step)
  have "receive_one (Ok ?d1) ?t1 = Some (?t1\<lparr>tr_connection_id := 7\<rparr>, SendingConnected)"
    using rs.dec_enc rs.length_enc cr.length_enc cr.dec_enc_all
    by (simp add: receive_one_def handle_connect_def finish_receive_def)
  then have "tracker_moves ?t1 ?t2"
    using ev_receive [of 0 ?t1 "Ok ?d1" "?t1\<lparr>tr_connection_id := 7\<rparr>" SendingConnected]
    by (auto simp: tracker_moves_def)
  with 1 have 2: "reach tracker_begin tracker_moves ?t2" by (rule reach_step)
  have "tracker_moves ?t2 ?t3" using ev_rendezvous [of 0 ?t2 "[?h]" 0] by (auto simp: tracker_moves_def)
  with 2 have 3: "reach tracker_begin tracker_moves ?t3" by (rule reach_step)
  have q: "tokens_cover (tr_scrape_queue ?t3)" by (simp add: new_udp_tracker_def tokens_cover_new)
  obtain sent req q q2 q3 where s: "scrape_send (Ok ()) 5 [?h] ?t3 =
       Some (?t3\<lparr>tr_scrape_queue := q, tr_conn := Some (sent @ [req])\<rparr>, Ok ())"
    and r: "\<And>u. tr_scrape_queue u = q \<Longrightarrow> receive_one (Ok ?d) u = Some (u\<lparr>tr_scrape_queue := q2\<rparr>,
       SendingResult (map (\<lambda>(h, x). \<lparr>sr_info_hash = h, sr_response = x\<rparr>) (zip [?h] [?x])))"
    by (rule scrape_then_response [OF q, of "[?h]" "[?x]" _ 5, OF _ _ _ _ _ refl])
      (auto simp: new_udp_tracker_def new_lrw_cache_def default_udp_tracker_config_def)
  let ?t4 = "?t3\<lparr>tr_scrape_queue := q, tr_conn := Some (sent @ [req]), tr_callers := [Idle]\<rparr>"
  let ?rs = "[\<lparr>sr_info_hash = ?h, sr_response = ?x\<rparr>]"
  let ?t5 = "?t4\<lparr>tr_scrape_queue := q2, tr_receivers := [SendingResult ?rs]\<rparr>"
  have "tracker_moves ?t3 ?t4" using ev_send [of 0, OF _ _ s] by (fastforce simp: tracker_moves_def)
  with 3 have 4: "reach tracker_begin tracker_moves ?t4" by (rule reach_step)
  have "tracker_moves ?t4 ?t5"
    using ev_receive [of 0 ?t4 "Ok ?d" "?t4\<lparr>tr_scrape_queue := q2\<rparr>" "SendingResult ?rs"] r [of ?t4]
    by (auto simp: tracker_moves_def)
  with 4 have 5: "reach tracker_begin tracker_moves ?t5" by (rule reach_step)
  have "tracker_moves ?t5 (?t5\<lparr>tr_receivers := [Reading], tr_delivered := [?rs]\<rparr>)"
    using ev_deliver [of 0 ?t5 ?rs] by (auto simp: tracker_moves_def new_udp_tracker_def)
  with 5 have "reach tracker_begin tracker_moves (?t5\<lparr>tr_receivers := [Reading], tr_delivered := [?rs]\<rparr>)"
    by (rule reach_step)
  then show thesis by (rule that [where rs = ?rs]) simp_all
qed

section \<open>Properties\<close>

text \<open>
  A scrape request is the 16-byte header followed by 20 bytes per info hash, and a tracker
  that reads the header with the struct's format finds the connection, the action, the transaction
  and the hashes.
\<close>

lemma scrape_request_layout:
  assumes "scrape_request cid tid hs = Ok req"
  shows "length req = 16 + 20 * length hs
     \<and> read_request_header req = Ok (\<lparr>rq_connection_id = cid, rq_action = action_scrape, rq_transaction_id = tid\<rparr>,
          concat (map (take 20) hs))"
proof -
  have l: "list_all (\<lambda>h. 20 \<le> length h) hs"
    and req: "req = write_request_header \<lparr>rq_connection_id = cid, rq_action = action_scrape, rq_transaction_id = tid\<rparr>
               @ concat (map (take 20) hs)"
    using assms by (auto simp: scrape_request_def split: if_splits)
  from l have "length (concat (map (take 20) hs)) = 20 * length hs" by (induction hs) auto
  then show ?thesis using rq.dec_enc rq.length_enc by (simp add: req)
qed

lemma scrape_request_layout_example:
  "\<exists>req. scrape_request 7 9 [replicate 20 CHR ''a'', replicate 20 CHR ''b''] = Ok req \<and> length req = 56"
proof -
  obtain req where r: "scrape_request 7 9 [replicate 20 CHR ''a'', replicate 20 CHR ''b''] = Ok req"
    by (simp add: scrape_request_def)
  from scrape_request_layout [OF r] r show ?thesis by auto
qed

text \<open>
  A scrape is answered: after \<^verbatim>\<open>Scrape\<close> has registered and sent a batch, the response of
  the tracker (at most 170 entries, what fits the 2048-byte buffer) makes the receiving goroutine
  offer one result per hash, in the order of the batch; a repetition of the response is ignored.
\<close>

lemma scrape_answered_once:
  assumes t: "tokens_cover (tr_scrape_queue t)" "tr_conn t \<noteq> None"
      "length (c_tokens (tr_scrape_queue t)) < c_max_size (tr_scrape_queue t)"
    and hs: "list_all (\<lambda>h. 20 \<le> length h) hs" "length resps = length hs" "length hs \<le> 170"
    and d: "d = write_response_header \<lparr>rs_action = action_scrape, rs_transaction_id = tid\<rparr>
                @ concat (map write_scrape_response resps)"
  shows "\<exists>t1 t2 t3. scrape_send (Ok ()) tid hs t = Some (t1, Ok ())
     \<and> receive_one (Ok d) t1 =
         Some (t2, SendingResult (map (\<lambda>(h, x). \<lparr>sr_info_hash = h, sr_response = x\<rparr>) (zip hs resps)))
     \<and> receive_one (Ok d) t2 = Some (t3, Reading)"
proof -
  obtain sent req q q2 q3 where "tr_conn t = Some sent"
    and s: "scrape_send (Ok ()) tid hs t =
       Some (t\<lparr>tr_scrape_queue := q, tr_conn := Some (sent @ [req])\<rparr>, Ok ())"
    and r: "\<And>u. tr_scrape_queue u = q \<Longrightarrow> receive_one (Ok d) u = Some (u\<lparr>tr_scrape_queue := q2\<rparr>,
       SendingResult (map (\<lambda>(h, x). \<lparr>sr_info_hash = h, sr_response = x\<rparr>) (zip hs resps)))"
      "\<And>u. tr_scrape_queue u = q2 \<Longrightarrow> receive_one (Ok d) u = Some (u\<lparr>tr_scrape_queue := q3\<rparr>, Reading)"
    by (rule scrape_then_response [OF assms]) (rule that)
  then show ?thesis by (simp add: s r)
qed

lemma scrape_answered_once_example:
  "\<exists>t1 t2. scrape_send (Ok ()) 5 [replicate 20 CHR ''a'']
        ((new_udp_tracker (default_udp_tracker_config ''tracker''))\<lparr>tr_conn := Some [], tr_connection_id := 1\<rparr>)
      = Some (t1, Ok ())
    \<and> receive_one (Ok (write_response_header \<lparr>rs_action = action_scrape, rs_transaction_id = 5\<rparr>
        @ write_scrape_response \<lparr>seeders = 3, completed = 2, leechers = 1\<rparr>)) t1
      = Some (t2, SendingResult [\<lparr>sr_info_hash = replicate 20 CHR ''a'',
                                  sr_response = \<lparr>seeders = 3, completed = 2, leechers = 1\<rparr>\<rparr>])"
proof -
  let ?t = "(new_udp_tracker (default_udp_tracker_config ''tracker''))\<lparr>tr_conn := Some [], tr_connection_id := 1\<rparr>"
  have "tokens_cover (tr_scrape_queue ?t)" by (simp add: new_udp_tracker_def tokens_cover_new)
  from scrape_answered_once [OF this, of "[replicate 20 CHR ''a'']" "[\<lparr>seeders = 3, completed = 2, leechers = 1\<rparr>]" _ 5, OF _ _ _ _ _ refl]
  show ?thesis
    by (auto simp: new_udp_tracker_def new_lrw_cache_def default_udp_tracker_config_def)
qed

text \<open>
  When the client is started and the connect response arrives before the first \<^verbatim>\<open>Scrape\<close>,
  the receiving goroutine waits on the unbuffered channel \<^verbatim>\<open>connected\<close>, which a later \<^verbatim>\<open>Scrape\<close> no longer
  reads because the connection is known: until \<^verbatim>\<open>Stop\<close> no result is ever delivered.
\<close>

lemma early_connection_blocks:
  assumes "tracker_start (Ok ()) (Ok ()) tid ((new_udp_tracker conf)\<lparr>tr_callers := replicate n Idle\<rparr>) = (t0, Ok ())"
    and "receive_one (Ok (write_response_header \<lparr>rs_action = action_connect, rs_transaction_id = tid\<rparr>
           @ write_connect_response \<lparr>cr_connection_id = cid\<rparr>)) t0 = Some (t1, g)" "cid \<noteq> 0"
    and "moves_unstopped\<^sup>*\<^sup>* (t1\<lparr>tr_receivers := (tr_receivers t1)[0 := g]\<rparr>) t"
  shows "tr_delivered t = []"
proof -
  have t0: "tr_receivers t0 = [Reading]" "tr_callers t0 = replicate n Idle" "tr_delivered t0 = []" "tr_conn t0 \<noteq> None"
    using assms(1)
    by (auto simp: tracker_start_def new_udp_tracker_def connect_def send_connect_def conn_write_def start_receive_def)
  have c: "read_connect_response (write_connect_response \<lparr>cr_connection_id = cid\<rparr>) = Ok (\<lparr>cr_connection_id = cid\<rparr>, [])"
    by (rule cr.dec_enc_all) simp
  have t1: "t1 = t0\<lparr>tr_connection_id := cid\<rparr>" "g = SendingConnected"
    using assms(2) rs.dec_enc [of "\<lparr>rs_action = action_connect, rs_transaction_id = tid\<rparr>"]
      rs.length_enc [of "\<lparr>rs_action = action_connect, rs_transaction_id = tid\<rparr>"]
      cr.length_enc [of "\<lparr>cr_connection_id = cid\<rparr>"]
    by (simp_all add: receive_one_def handle_connect_def finish_receive_def c)
  have "receivers_stuck (t1\<lparr>tr_receivers := (tr_receivers t1)[0 := g]\<rparr>)"
    using t0 assms(3) by (simp add: receivers_stuck_def t1)
  from stuck_steps [OF assms(4) this] show ?thesis by (simp add: t1 t0)
qed

lemma early_connection_blocks_example:
  "\<exists>t0 t1 g. tracker_start (Ok ()) (Ok ()) 1
         ((new_udp_tracker (default_udp_tracker_config ''tracker''))\<lparr>tr_callers := replicate 2 Idle\<rparr>) = (t0, Ok ())
     \<and> receive_one (Ok (write_response_header \<lparr>rs_action = action_connect, rs_transaction_id = 1\<rparr>
         @ write_connect_response \<lparr>cr_connection_id = 7\<rparr>)) t0 = Some (t1, g)
     \<and> tr_delivered (t1\<lparr>tr_receivers := (tr_receivers t1)[0 := g]\<rparr>) = []"
proof -
  let ?t = "(new_udp_tracker (default_udp_tracker_config ''tracker''))\<lparr>tr_callers := replicate 2 Idle\<rparr>"
  obtain t0 where t0: "tracker_start (Ok ()) (Ok ()) 1 ?t = (t0, Ok ())"
    by (simp add: tracker_start_def new_udp_tracker_def connect_def send_connect_def conn_write_def start_receive_def)
  obtain t1 g where t1: "receive_one (Ok (write_response_header \<lparr>rs_action = action_connect, rs_transaction_id = 1\<rparr>
         @ write_connect_response \<lparr>cr_connection_id = 7\<rparr>)) t0 = Some (t1, g)"
    using rs.dec_enc rs.length_enc cr.length_enc cr.dec_enc_all
    by (simp add: receive_one_def handle_connect_def finish_receive_def)
  from early_connection_blocks [OF t0 t1 _ rtranclp.rtrancl_refl] t0 t1 show ?thesis by simp
qed

end
