(* ===== verification/Scrape_Service.thy ===== *)
theory Scrape_Service
  imports Udp_Tracker "HOL-Library.Multiset"
begin

text \<open>
  What \<^verbatim>\<open>common/bittorrent/tracker/udp.go\<close> promises its users, as an abstract service: a batch of info
  hashes is asked for, and an open batch is answered once or lost. The connection, the transactions,
  the queue with its timers and the goroutines of the client are hidden by an abstraction function;
  the client refines the service, so every batch is answered at most once.
\<close>

section \<open>The service\<close>

record scrape_service =
  sv_asked :: "bytes list list"
  sv_open :: "bytes list multiset"
  sv_answers :: "scrape_result list list"

definition service_begin :: "scrape_service \<Rightarrow> bool" where
  "service_begin s \<longleftrightarrow> s = \<lparr>sv_asked = [], sv_open = {#}, sv_answers = []\<rparr>"

inductive service_step :: "scrape_service \<Rightarrow> scrape_service \<Rightarrow> bool" where
  sv_ask: "service_step s (s\<lparr>sv_asked := sv_asked s @ [hs], sv_open := add_mset hs (sv_open s)\<rparr>)"
| sv_answer: "sv_open s = add_mset (map sr_info_hash rs) b \<Longrightarrow>
    service_step s (s\<lparr>sv_open := b, sv_answers := sv_answers s @ [rs]\<rparr>)"
| sv_lose: "sv_open s = add_mset hs b \<Longrightarrow> service_step s (s\<lparr>sv_open := b\<rparr>)"

text \<open>The contract of the service: what was answered and what is open was asked for, with multiplicity.\<close>

definition service_inv :: "scrape_service \<Rightarrow> bool" where
  "service_inv s \<longleftrightarrow> image_mset (map sr_info_hash) (mset (sv_answers s)) + sv_open s \<subseteq># mset (sv_asked s)"

lemma service_inv_step: "service_step s t \<Longrightarrow> service_inv s \<Longrightarrow> service_inv t"
proof (induction rule: service_step.induct)
  case (sv_lose s hs b)
  then show ?case using mset_subset_eq_insertD [of hs] by (force simp: service_inv_def)
qed (auto simp: service_inv_def)

interpretation sv: inv_system service_begin service_step service_inv
  by unfold_locales (simp add: service_begin_def service_inv_def, rule service_inv_step)

lemma lose_sub: "b \<subseteq># sv_open s \<Longrightarrow> service_step\<^sup>*\<^sup>* s (s\<lparr>sv_open := b\<rparr>)"
proof (induction "sv_open s - b" arbitrary: s)
  case empty
  then have "sv_open s = b" by (metis add.right_neutral subset_mset.add_diff_inverse)
  then show ?case by (metis rtranclp.rtrancl_refl scrape_service.surjective scrape_service.update_convs(2))
next
  case (add hs d)
  then have "sv_open s = add_mset hs (b + d)" by (metis add_mset_add_single subset_mset.add_diff_inverse union_mset_add_mset_right)
  then have "service_step s (s\<lparr>sv_open := b + d\<rparr>)" by (rule sv_lose)
  moreover have "service_step\<^sup>*\<^sup>* (s\<lparr>sv_open := b + d\<rparr>) (s\<lparr>sv_open := b\<rparr>)"
    using add.hyps(1) [of "s\<lparr>sv_open := b + d\<rparr>"] by simp
  ultimately show ?case by (rule converse_rtranclp_into_rtranclp)
qed

section \<open>The abstraction\<close>

text \<open>The values of a finite map, with multiplicity.\<close>

definition mvalues :: "('k \<Rightarrow> 'v option) \<Rightarrow> 'v multiset" where
  "mvalues m = image_mset (\<lambda>k. the (m k)) (mset_set (dom m))"

lemma mvalues_split:
  assumes "finite (dom m)"
  shows "mvalues m = mvalues (m(k := None)) + (case m k of None \<Rightarrow> {#} | Some v \<Rightarrow> {#v#})"
proof (cases "m k")
  case None
  then have "m(k := None) = m" by auto
  with None show ?thesis by simp
next
  case (Some v)
  then have d: "dom m = insert k (dom m - {k})" by auto
  have "mvalues m = add_mset v (image_mset (\<lambda>k. the (m k)) (mset_set (dom m - {k})))"
    unfolding mvalues_def by (subst d, subst mset_set.insert) (use assms Some in auto)
  also have "image_mset (\<lambda>k. the (m k)) (mset_set (dom m - {k})) = mvalues (m(k := None))"
    unfolding mvalues_def using assms by (auto intro!: image_mset_cong)
  finally show ?thesis using Some by simp
qed

lemma mvalues_update: "finite (dom m) \<Longrightarrow> mvalues (m(k \<mapsto> v)) \<subseteq># add_mset v (mvalues m)"
  using mvalues_split [of "m(k \<mapsto> v)" k] mvalues_split [of m k] by simp

lemma mvalues_empty [simp]: "mvalues (\<lambda>_. None) = {#}"
  by (simp add: mvalues_def)

text \<open>A sum over the elements of a list, when one element is replaced.\<close>

lemma sum_update:
  fixes f :: "'a \<Rightarrow> 'b multiset"
  shows "i < length xs \<Longrightarrow> sum_list (map f (xs[i := x])) + f (xs ! i) = sum_list (map f xs) + f x"
  by (induction xs arbitrary: i) (auto simp: nth_Cons ac_simps split: nat.split)

fun caller_batch :: "caller \<Rightarrow> bytes list multiset" where
  "caller_batch Idle = {#}"
| "caller_batch (AwaitConnected hs) = {#hs#}"
| "caller_batch (ReadyToSend hs) = {#hs#}"

fun receiver_batch :: "receiver \<Rightarrow> bytes list multiset" where
  "receiver_batch (SendingResult rs) = {#map sr_info_hash rs#}"
| "receiver_batch _ = {#}"

text \<open>
  A batch is open while a caller holds it, while it is registered in the queue, and while a receiving
  goroutine offers its results.
\<close>

definition open_batches :: "udp_tracker \<Rightarrow> bytes list multiset" where
  "open_batches t = sum_list (map caller_batch (tr_callers t)) + mvalues (cache_get (tr_scrape_queue t))
     + sum_list (map receiver_batch (tr_receivers t))"

definition service_of :: "udp_tracker \<Rightarrow> scrape_service" where
  "service_of t = \<lparr>sv_asked = tr_requested t, sv_open = open_batches t, sv_answers = tr_delivered t\<rparr>"

lemma finite_dom_cache_get [simp]: "finite (dom (cache_get c))"
proof -
  have "dom (cache_get c) = dom (map_of (c_data c))" by (auto simp: cache_get_def)
  then show ?thesis by (simp add: finite_dom_map_of)
qed

section \<open>The operations of the client on the open batches\<close>

text \<open>Every operation of the queue, in terms of the contract of a table of pending requests.\<close>

lemma queued_set:
  "tokens_cover q \<Longrightarrow> cache_set k hs q = Some q' \<Longrightarrow> mvalues (cache_get q') \<subseteq># add_mset hs (mvalues (cache_get q))"
proof -
  assume q: "tokens_cover q" "cache_set k hs q = Some q'"
  have "cache_get q' = (cache_get q)(k \<mapsto> hs)" using lrw.register_lookup [OF q] by auto
  then show ?thesis by (simp add: mvalues_update)
qed

lemma queued_remove:
  assumes "tokens_cover q" "cache_get_and_remove k q = Some (found, q')"
  shows "mvalues (cache_get q) = mvalues (cache_get q') + (case found of None \<Rightarrow> {#} | Some hs \<Rightarrow> {#hs#})"
proof -
  have "cache_get q' = (cache_get q)(k := None)" "found = cache_get q k"
    using lrw.withdraw_lookup [OF assms] lrw.withdraw_result [OF assms] by auto
  then show ?thesis using mvalues_split [of "cache_get q" k] by simp
qed

lemma queued_expire:
  assumes "tokens_cover q" "expire i q = Some q'"
  shows "mvalues (cache_get q') \<subseteq># mvalues (cache_get q)"
proof (cases "map_of (c_timers q) i")
  case None
  with assms show ?thesis by (simp add: expire_def)
next
  case (Some key)
  with assms(2) have "cache_get q' = (cache_get q)(key := None)"
    by (auto simp: expire_def fun_eq_iff cache_delete_get)
  then show ?thesis using mvalues_split [of "cache_get q" key] by simp
qed

lemma scrape_send_open:
  assumes "scrape_send wr tid hs t = Some (t', r)" "tokens_cover (tr_scrape_queue t)"
  shows "tr_requested t' = tr_requested t \<and> tr_delivered t' = tr_delivered t \<and> tr_callers t' = tr_callers t
     \<and> tr_receivers t' = tr_receivers t
     \<and> mvalues (cache_get (tr_scrape_queue t')) \<subseteq># add_mset hs (mvalues (cache_get (tr_scrape_queue t)))"
proof (cases "t' = t")
  case False
  then obtain q c where "cache_set tid hs (tr_scrape_queue t) = Some q" "t' = t\<lparr>tr_scrape_queue := q, tr_conn := c\<rparr>"
    using assms(1) by (auto simp: scrape_send_def split: outcome.splits dest!: conn_write_frame)
  then show ?thesis using queued_set [OF assms(2)] by simp
qed simp

text \<open>A datagram moves at most the batch it answers from the queue to the goroutine.\<close>

lemma handle_scrape_open:
  assumes "handle_scrape r hdr t = Some (t', g)" "tokens_cover (tr_scrape_queue t)"
  shows "mvalues (cache_get (tr_scrape_queue t')) + (case g of Ok x \<Rightarrow> receiver_batch x | _ \<Rightarrow> {#})
     \<subseteq># mvalues (cache_get (tr_scrape_queue t))"
proof -
  obtain found q where q: "cache_get_and_remove (rs_transaction_id hdr) (tr_scrape_queue t) = Some (found, q)"
    "tr_scrape_queue t' = q"
    "g = (case found of None \<Rightarrow> Ok Reading
          | Some hs \<Rightarrow> obind (scrape_loop hs r []) (\<lambda>rs. Ok (SendingResult rs)))"
    using assms(1) by (auto simp: handle_scrape_def Let_def split: option.splits)
  have "(case g of Ok x \<Rightarrow> receiver_batch x | _ \<Rightarrow> {#}) \<subseteq># (case found of None \<Rightarrow> {#} | Some hs \<Rightarrow> {#hs#})"
    using q(3) by (cases found) (auto simp: obind_eq_Ok split: outcome.split dest!: scrape_loop_hashes)
  with queued_remove [OF assms(2) q(1)] q(2) show ?thesis by simp
qed

lemma receive_one_open:
  assumes "receive_one d t = Some (t', g)" "tokens_cover (tr_scrape_queue t)"
  shows "mvalues (cache_get (tr_scrape_queue t')) + receiver_batch g \<subseteq># mvalues (cache_get (tr_scrape_queue t))"
proof -
  consider "t' = disconnect t" "g = Returned"
    | r where "finish_receive (handle_connect r t) = (t', g)"
    | r hdr x where "handle_scrape r hdr t = Some x" "finish_receive x = (t', g)"
    using assms(1) by (auto simp: receive_one_def split: outcome.splits prod.splits if_splits)
  then show ?thesis
  proof cases
    case (2 r)
    then show ?thesis by (auto simp: handle_connect_def finish_receive_def split: outcome.splits)
  next
    case (3 r hdr x)
    then show ?thesis using handle_scrape_open [OF _ assms(2)]
      by (cases x) (fastforce simp: finish_receive_def split: outcome.splits)
  qed simp
qed

section \<open>Refinement\<close>

lemma service_quiet:
  assumes "tr_requested t' = tr_requested t" "tr_delivered t' = tr_delivered t" "open_batches t' \<subseteq># open_batches t"
  shows "service_step\<^sup>*\<^sup>* (service_of t) (service_of t')"
  using lose_sub [of "open_batches t'" "service_of t"] assms by (simp add: service_of_def)

lemma service_ask:
  assumes "tr_requested t' = tr_requested t @ [hs]" "tr_delivered t' = tr_delivered t"
    "open_batches t' \<subseteq># add_mset hs (open_batches t)"
  shows "service_step\<^sup>*\<^sup>* (service_of t) (service_of t')"
proof -
  let ?s = "(service_of t)\<lparr>sv_asked := tr_requested t', sv_open := add_mset hs (open_batches t)\<rparr>"
  have "service_step (service_of t) ?s" using sv_ask [of "service_of t" hs] assms(1) by (simp add: service_of_def)
  moreover have "service_step\<^sup>*\<^sup>* ?s (service_of t')"
    using lose_sub [of "open_batches t'" ?s] assms by (simp add: service_of_def)
  ultimately show ?thesis by (rule converse_rtranclp_into_rtranclp)
qed

lemma tracker_simulates:
  assumes inv: "tracker_inv t" and step: "tracker_moves t t'"
  shows "service_step\<^sup>*\<^sup>* (service_of t) (service_of t')"
proof -
  have q: "tokens_cover (tr_scrape_queue t)" using inv by (simp add: tracker_inv_def queue_ok_def)
  obtain e where "tracker_step e t t'" using step by (auto simp: tracker_moves_def)
  then show ?thesis
  proof cases
    case (ev_start dial wr tid r)
    then show ?thesis
      by (intro service_quiet)
        (auto simp: tracker_start_def open_batches_def split: if_splits dest!: connect_frame)
  next
    case (ev_scrape j dial wr tid hs t'' r)
    let ?c = "case r of Ok g \<Rightarrow> g | _ \<Rightarrow> Idle"
    have f: "tr_requested t'' = tr_requested t @ [hs]" "tr_delivered t'' = tr_delivered t" "tr_callers t'' = tr_callers t"
      "tr_scrape_queue t'' = tr_scrape_queue t" "sum_list (map receiver_batch (tr_receivers t'')) = sum_list (map receiver_batch (tr_receivers t))"
      using ev_scrape(5) by (auto simp: scrape_def Let_def split: if_splits prod.splits dest!: connect_frame)
    have "caller_batch ?c \<subseteq># {#hs#}"
      using ev_scrape(5) by (auto simp: scrape_def Let_def obind_eq_Ok split: if_splits prod.splits outcome.splits)
    with f sum_update [OF ev_scrape(3), of caller_batch ?c] ev_scrape show ?thesis
      by (intro service_ask [of _ _ hs]) (auto simp: open_batches_def)
  next
    case (ev_rendezvous j hs i)
    with sum_update [OF ev_rendezvous(3), of caller_batch "ReadyToSend hs"]
      sum_update [OF ev_rendezvous(5), of receiver_batch Reading]
    show ?thesis by (intro service_quiet) (auto simp: open_batches_def)
  next
    case (ev_send j hs wr tid t'' r)
    have c: "sum_list (map caller_batch (tr_callers t)) = add_mset hs (sum_list (map caller_batch ((tr_callers t)[j := Idle])))"
      using sum_update [OF ev_send(3), of caller_batch Idle] ev_send(4) by simp
    with ev_send scrape_send_open [OF ev_send(5) q] show ?thesis
      by (intro service_quiet) (auto simp: open_batches_def c)
  next
    case (ev_receive i d t'' g)
    have "same_but_queue t t''"
      using receive_one_frame [OF ev_receive(5)] inv by (simp add: tracker_inv_def)
    with ev_receive receive_one_open [OF ev_receive(5) q] sum_update [OF ev_receive(3), of receiver_batch g]
    show ?thesis by (intro service_quiet) (auto simp: open_batches_def same_but_queue_def)
  next
    case (ev_deliver i rs)
    have "sv_open (service_of t) = add_mset (map sr_info_hash rs) (open_batches t')"
      using ev_deliver sum_update [OF ev_deliver(3), of receiver_batch Reading]
      by (simp add: open_batches_def service_of_def)
    from sv_answer [OF this] show ?thesis using ev_deliver by (auto simp: service_of_def)
  next
    case (ev_expire k q)
    with queued_expire [OF q ev_expire(3)] show ?thesis
      by (intro service_quiet) (auto simp: open_batches_def)
  next
    case ev_stop
    then show ?thesis by (intro service_quiet) (auto simp: tracker_stop_def open_batches_def)
  qed
qed

interpretation ts: refinement tracker_begin tracker_moves tracker_inv service_of service_begin service_step
proof unfold_locales
  fix t t'
  have "sum_list (map caller_batch (replicate n Idle)) = {#}" for n by (induction n) auto
  then show "service_begin (service_of t)" if "tracker_begin t"
    using that by (auto simp: tracker_begin_def service_begin_def service_of_def open_batches_def new_udp_tracker_def
        new_lrw_cache_def cache_get_def [abs_def])
  show "service_step\<^sup>*\<^sup>* (service_of t) (service_of t')" if "tracker_inv t" "tracker_moves t t'"
    using that by (rule tracker_simulates)
qed

section \<open>Properties\<close>

text \<open>
  Property C5. The UDP tracker client refines the abstract service: from every reachable state, whatever
  the network delivers, each step of its goroutines, its callers and the timers of its queue is a
  sequence of steps of the service on the abstraction of the state.
\<close>

theorem tracker_refines_service:
  assumes "reach tracker_begin tracker_moves t" "tracker_moves t t'"
  shows "reach service_begin service_step (service_of t) \<and> service_step\<^sup>*\<^sup>* (service_of t) (service_of t')"
  using ts.reach_abs [OF assms(1)] ts.reach_abs_step [OF assms] by blast

theorem tracker_refines_service_witness:
  "\<exists>t t'. reach tracker_begin tracker_moves t \<and> tracker_moves t t' \<and> tr_delivered t \<noteq> []
     \<and> service_step\<^sup>*\<^sup>* (service_of t) (service_of t')"
proof -
  obtain t rs where t: "reach tracker_begin tracker_moves t" "tr_delivered t = [rs]" by (rule scrape_run)
  have "tracker_moves t (tracker_stop t)" by (auto simp: tracker_moves_def intro: ev_stop)
  with tracker_refines_service [OF t(1) this] t show ?thesis by (intro exI [of _ t] exI [of _ "tracker_stop t"]) simp
qed

text \<open>
  Property C17. In every reachable state of the client, however its callers, its goroutines and the
  network interleave, the batches delivered on the result channel are among the batches \<^verbatim>\<open>Scrape\<close> was
  called with, hash by hash in the same order, and no request is answered more often than it was made.
\<close>

theorem answered_at_most_once:
  assumes "reach tracker_begin tracker_moves t"
  shows "image_mset (map sr_info_hash) (mset (tr_delivered t)) \<subseteq># mset (tr_requested t)"
proof -
  have "service_inv (service_of t)" using ts.reach_abs [OF assms] by (rule sv.reach_inv)
  then show ?thesis
    by (auto simp: service_inv_def service_of_def intro: subset_mset.order_trans [rotated])
qed

theorem answered_at_most_once_witness:
  "\<exists>t rs. reach tracker_begin tracker_moves t \<and> tr_delivered t = [rs] \<and> rs \<noteq> []
     \<and> image_mset (map sr_info_hash) (mset (tr_delivered t)) \<subseteq># mset (tr_requested t)"
proof -
  obtain t rs where "reach tracker_begin tracker_moves t" "tr_delivered t = [rs]" "rs \<noteq> []" by (rule scrape_run)
  with answered_at_most_once show ?thesis by blast
qed

end
