(* ===== verification/Proxy_Udp.thy ===== *)
theory Proxy_Udp
  imports Go_Binary
begin

text \<open>
  The UDP proxy: \<^verbatim>\<open>proxy/internal/protocol\<close> (wire formats), \<^verbatim>\<open>proxy/client.go\<close> and
  \<^verbatim>\<open>proxy/internal/client/udp.go\<close> (the client, a packet connection over one TCP stream),
  \<^verbatim>\<open>proxy/internal/handler/udp.go\<close> and \<^verbatim>\<open>proxy/internal/server.go\<close> (the server). The lemmas show that
  the frames one side writes are read back by the other in order, what the fixed buffers do to large
  datagrams, and that nothing leaves the client before its write buffer has filled up.
\<close>

section \<open>\<open>protocol\<close>: wire formats\<close>

record handshake_msg =
  hs_version :: char
  hs_mode :: char

record udp_header =
  uh_version :: char
  uh_addr_type :: char
  uh_addr_len :: char
  uh_port :: "16 word"
  uh_length :: "32 word"

record udp_handshake =
  uhs_port :: "16 word"

text \<open>A \<^verbatim>\<open>netip.AddrPort\<close>: 4 or 16 address bytes, none for the zero address; zones do not travel.\<close>

record addr_port =
  ap_ip :: bytes
  ap_port_num :: "16 word"

definition mode_udp :: char where
  "mode_udp = char_of (1 :: nat)"

definition addr_type_ipv4 :: char where
  "addr_type_ipv4 = char_of (1 :: nat)"

definition addr_type_ipv6 :: char where
  "addr_type_ipv6 = char_of (2 :: nat)"

definition zero_udp_header :: udp_header where
  "zero_udp_header = \<lparr>uh_version = char_of (0 :: nat), uh_addr_type = char_of (0 :: nat),
     uh_addr_len = char_of (0 :: nat), uh_port = 0, uh_length = 0\<rparr>"

definition handshake_write :: "handshake_msg \<Rightarrow> bytes" where
  "handshake_write h = [hs_version h, hs_mode h]"

definition handshake_read :: "bytes \<Rightarrow> (handshake_msg \<times> bytes) outcome" where
  "handshake_read r = obind (read_full 2 r) (\<lambda>(b, r). Ok (\<lparr>hs_version = b ! 0, hs_mode = b ! 1\<rparr>, r))"

definition udp_handshake_write :: "udp_handshake \<Rightarrow> bytes" where
  "udp_handshake_write h = put_uint16 (uhs_port h)"

definition udp_handshake_read :: "bytes \<Rightarrow> (udp_handshake \<times> bytes) outcome" where
  "udp_handshake_read r = obind (read_full 2 r) (\<lambda>(b, r). Ok (\<lparr>uhs_port = get_uint16 b\<rparr>, r))"

definition header_write :: "udp_header \<Rightarrow> bytes" where
  "header_write h = [uh_version h, uh_addr_type h, uh_addr_len h] @ put_uint16 (uh_port h) @ put_uint32 (uh_length h)"

definition header_read :: "bytes \<Rightarrow> (udp_header \<times> bytes) outcome" where
  "header_read r = obind (read_full 9 r) (\<lambda>(b, r).
     Ok (\<lparr>uh_version = b ! 0, uh_addr_type = b ! 1, uh_addr_len = b ! 2,
          uh_port = get_uint16 (sub b 3 5), uh_length = get_uint32 (sub b 5 9)\<rparr>, r))"

text \<open>\<^verbatim>\<open>SetAddr\<close> stores the kind, the port and the length, and returns the address bytes.\<close>

definition set_addr :: "addr_port \<Rightarrow> udp_header \<Rightarrow> bytes \<times> udp_header" where
  "set_addr addr h =
     (let h = (if length (ap_ip addr) = 16
               then h\<lparr>uh_addr_type := addr_type_ipv6, uh_port := ap_port_num addr, uh_addr_len := char_of (16 :: nat)\<rparr>
               else h\<lparr>uh_addr_type := addr_type_ipv4, uh_port := ap_port_num addr, uh_addr_len := char_of (4 :: nat)\<rparr>);
          ip = ap_ip addr
      in (ip, h\<lparr>uh_addr_len := char_of (length ip)\<rparr>))"

definition read_addr_port :: "udp_header \<Rightarrow> bytes \<Rightarrow> (addr_port \<times> bytes) outcome" where
  "read_addr_port h r =
     (if uh_addr_type h \<noteq> addr_type_ipv4 \<and> uh_addr_type h \<noteq> addr_type_ipv6
      then Err (Errorf ''unsupported addr type'')
      else obind (read_full (of_char (uh_addr_len h)) r) (\<lambda>(rawAddr, r).
        if length rawAddr \<noteq> 4 \<and> length rawAddr \<noteq> 16 then Err (Errorf ''illegal addr'')
        else Ok (\<lparr>ap_ip = rawAddr, ap_port_num = uh_port h\<rparr>, r)))"

definition udp_header_read_from :: "bytes \<Rightarrow> (udp_header \<times> addr_port \<times> bytes) outcome" where
  "udp_header_read_from r =
     obind (header_read r) (\<lambda>(h, r). obind (read_addr_port h r) (\<lambda>(addr, r). Ok (h, addr, r)))"

section \<open>Buffered writing\<close>

text \<open>
  A \<^verbatim>\<open>bufio.Writer\<close> on a connection: its size, what it holds back, what the connection has got, and
  the number of writes to the connection that succeed before one fails, if any fails.
\<close>

record bufio_writer =
  bw_size :: nat
  bw_buf :: bytes
  bw_out :: bytes
  bw_budget :: "nat option"

definition new_writer_size :: "nat \<Rightarrow> bufio_writer" where
  "new_writer_size n = \<lparr>bw_size = (if n = 0 then 4096 else n), bw_buf = [], bw_out = [], bw_budget = None\<rparr>"

definition conn_put :: "bytes \<Rightarrow> bufio_writer \<Rightarrow> bufio_writer outcome" where
  "conn_put data w =
     (case bw_budget w of
        Some 0 \<Rightarrow> Err ErrIO
      | b \<Rightarrow> Ok (w\<lparr>bw_out := bw_out w @ data, bw_budget := map_option (\<lambda>k. k - 1) b\<rparr>))"

definition bw_flush :: "bufio_writer \<Rightarrow> bufio_writer outcome" where
  "bw_flush w =
     (if bw_buf w = [] then Ok w
      else obind (conn_put (bw_buf w) w) (\<lambda>w. Ok (w\<lparr>bw_buf := []\<rparr>)))"

text \<open>
  \<^verbatim>\<open>Write\<close>: while the data does not fit, it goes to the connection directly when nothing is buffered,
  otherwise the buffer is filled up and flushed; what is left is buffered. After the first round the
  buffer is empty, after the second the data is, so two rounds are enough.
\<close>

definition bw_fits :: "bytes \<Rightarrow> bufio_writer \<Rightarrow> bool" where
  "bw_fits p w \<longleftrightarrow> length p \<le> bw_size w - length (bw_buf w)"

definition bw_round :: "bytes \<Rightarrow> bufio_writer \<Rightarrow> (bytes \<times> bufio_writer) outcome" where
  "bw_round p w =
     (if bw_fits p w then Ok (p, w)
      else if bw_buf w = [] then obind (conn_put p w) (\<lambda>w. Ok ([], w))
      else let n = bw_size w - length (bw_buf w)
           in obind (bw_flush (w\<lparr>bw_buf := bw_buf w @ take n p\<rparr>)) (\<lambda>w. Ok (drop n p, w)))"

definition bw_write :: "bytes \<Rightarrow> bufio_writer \<Rightarrow> bufio_writer outcome" where
  "bw_write p w =
     obind (bw_round p w) (\<lambda>(p, w). obind (bw_round p w) (\<lambda>(p, w).
       Ok (w\<lparr>bw_buf := bw_buf w @ p\<rparr>)))"

definition udp_header_write_to :: "bytes \<Rightarrow> udp_header \<Rightarrow> bufio_writer \<Rightarrow> bufio_writer outcome" where
  "udp_header_write_to addr h w = obind (bw_write (header_write h) w) (\<lambda>w. bw_write addr w)"

section \<open>The client\<close>

text \<open>
  \<^verbatim>\<open>UDPConn\<close>: what the proxy server will still send on the TCP stream, the size of the buffered reader,
  the buffered writer, and the two headers that are reused.
\<close>

record udp_conn =
  uc_in :: bytes
  uc_reader_size :: nat
  uc_writer :: bufio_writer
  uc_read_header :: udp_header
  uc_write_header :: udp_header
  uc_closed :: bool

definition new_udp_conn :: "bytes \<Rightarrow> 16 word \<Rightarrow> nat \<Rightarrow> udp_conn outcome" where
  "new_udp_conn inp lport bufSize =
     obind (conn_put (udp_handshake_write \<lparr>uhs_port = lport\<rparr>) (new_writer_size bufSize)) (\<lambda>w.
       Ok \<lparr>uc_in = inp, uc_reader_size = max 16 bufSize, uc_writer = w,
           uc_read_header = zero_udp_header, uc_write_header = zero_udp_header, uc_closed = False\<rparr>)"

text \<open>\<open>ListenUDP\<close> of \<^verbatim>\<open>proxy/client.go\<close>, on the connection that dialling the server gave.\<close>

definition listen_udp :: "bytes outcome \<Rightarrow> 16 word \<Rightarrow> nat \<Rightarrow> udp_conn outcome" where
  "listen_udp dial lport bufSize =
     obind dial (\<lambda>inp.
     obind (conn_put (handshake_write \<lparr>hs_version = char_of (0 :: nat), hs_mode = mode_udp\<rparr>)
              (new_writer_size bufSize)) (\<lambda>w.
     obind (new_udp_conn inp lport bufSize) (\<lambda>c.
       Ok (c\<lparr>uc_writer := (uc_writer c)\<lparr>bw_out := bw_out w @ bw_out (uc_writer c)\<rparr>\<rparr>))))"

text \<open>\<^verbatim>\<open>ReadFrom(p)\<close> with a buffer of \<open>cap\<close> bytes.\<close>

definition uc_read_from :: "nat \<Rightarrow> udp_conn \<Rightarrow> (bytes \<times> addr_port \<times> udp_conn) outcome" where
  "uc_read_from cap c =
     obind (udp_header_read_from (uc_in c)) (\<lambda>(h, addr, r).
     let c = c\<lparr>uc_read_header := h,
               uc_reader_size := (if uc_reader_size c < unat (uh_length h) then uc_reader_size c * 2 else uc_reader_size c)\<rparr>
     in if cap < unat (uh_length h) then Panic SliceOutOfRange
        else obind (read_full (unat (uh_length h)) r) (\<lambda>(p, r). Ok (p, addr, c\<lparr>uc_in := r\<rparr>)))"

text \<open>\<^verbatim>\<open>WriteTo(p, addr)\<close>; \<open>addr\<close> is what \<^verbatim>\<open>netip.ParseAddrPort\<close> makes of the address.\<close>

definition uc_write_to :: "bytes \<Rightarrow> addr_port outcome \<Rightarrow> udp_conn \<Rightarrow> (nat \<times> udp_conn) outcome" where
  "uc_write_to p addr c =
     (let h = (uc_write_header c)\<lparr>uh_length := word_of_nat (length p)\<rparr>
      in obind addr (\<lambda>addrPort.
         let (rawAddr, h) = set_addr addrPort h
         in obind (udp_header_write_to rawAddr h (uc_writer c)) (\<lambda>w.
            obind (bw_write p w) (\<lambda>w.
              Ok (length p, c\<lparr>uc_write_header := h, uc_writer := w\<rparr>)))))"

definition uc_close :: "udp_conn \<Rightarrow> udp_conn" where
  "uc_close c = c\<lparr>uc_closed := True\<rparr>"

section \<open>The server's handler\<close>

text \<open>
  The handler of one client: the client's stream, the buffered writer towards it, the datagrams sent
  on the local socket, the sizes of the two buffers, and whether the context is cancelled.
\<close>

record udp_handler =
  uh_in :: bytes
  uh_writer :: bufio_writer
  uh_sent :: "(bytes \<times> addr_port) list"
  uh_pipe_len :: nat
  uh_read_len :: nat
  uh_hdr :: udp_header
  uh_local :: bool
  uh_client :: bool
  uh_cancelled :: bool

definition new_udp_handler :: "bytes \<Rightarrow> nat \<Rightarrow> udp_handler" where
  "new_udp_handler inp bufSize =
     \<lparr>uh_in = inp, uh_writer = new_writer_size bufSize, uh_sent = [], uh_pipe_len = 4096, uh_read_len = 4096,
      uh_hdr = zero_udp_header, uh_local = False, uh_client = True, uh_cancelled = False\<rparr>"

definition handler_close :: "udp_handler \<Rightarrow> udp_handler" where
  "handler_close u = u\<lparr>uh_local := False, uh_client := False\<rparr>"

text \<open>
  \<^verbatim>\<open>Run\<close> up to starting the two goroutines; \<open>listen\<close>, \<open>setRead\<close> and \<open>setWrite\<close> are what the socket calls return. The
  handler is closed when the handshake cannot be read or a call fails.
\<close>

definition handler_run :: "unit outcome \<Rightarrow> unit outcome \<Rightarrow> unit outcome \<Rightarrow> udp_handler \<Rightarrow> udp_handler \<times> bool" where
  "handler_run listen setRead setWrite u =
     (case udp_handshake_read (uh_in u) of
        Ok (h, r) \<Rightarrow>
          (let u = u\<lparr>uh_in := r\<rparr>
           in if \<not> is_ok listen then (handler_close u, False)
              else let u = u\<lparr>uh_local := True\<rparr>
                   in if \<not> is_ok setRead then (handler_close u, False)
                      else if \<not> is_ok setWrite then (handler_close u, False)
                      else (u, True))
      | _ \<Rightarrow> (handler_close u, False))"

text \<open>
  One iteration of \<^verbatim>\<open>send\<close>; \<open>wr\<close> is what writing to the local socket returns. \<^const>\<open>Ok\<close> with \<open>False\<close> means
  that the goroutine has cancelled the context and returned.
\<close>

definition handler_send_one :: "unit outcome \<Rightarrow> udp_handler \<Rightarrow> (udp_handler \<times> bool) outcome" where
  "handler_send_one wr u =
     (case udp_header_read_from (uh_in u) of
        Ok (h, addrPort, r) \<Rightarrow>
          (let n = unat (uh_length h);
               u = u\<lparr>uh_pipe_len := (if uh_pipe_len u < n then 2 * uh_pipe_len u else uh_pipe_len u)\<rparr>
           in if uh_pipe_len u < n then Panic SliceOutOfRange
              else case read_full n r of
                     Ok (data, r) \<Rightarrow>
                       (case wr of
                          Ok _ \<Rightarrow> Ok (u\<lparr>uh_in := r, uh_sent := uh_sent u @ [(data, addrPort)]\<rparr>, True)
                        | _ \<Rightarrow> Ok (u\<lparr>uh_in := r, uh_cancelled := True\<rparr>, False))
                   | _ \<Rightarrow> Ok (u\<lparr>uh_cancelled := True\<rparr>, False))
      | _ \<Rightarrow> Ok (u\<lparr>uh_cancelled := True\<rparr>, False))"

text \<open>
  One iteration of \<^verbatim>\<open>receive\<close>; \<open>rd\<close> is the datagram on the local socket or the error. The read fills at
  most the buffer; a datagram that fills it is dropped and the buffer is doubled.
\<close>

definition handler_receive_one :: "(bytes \<times> addr_port) outcome \<Rightarrow> udp_handler \<Rightarrow> udp_handler \<times> bool" where
  "handler_receive_one rd u =
     (case rd of
        Ok (datagram, addrPort) \<Rightarrow>
          (let n = min (length datagram) (uh_read_len u)
           in if n = uh_read_len u then (u\<lparr>uh_read_len := 2 * uh_read_len u\<rparr>, True)
              else let (rawAddr, h) = set_addr addrPort ((uh_hdr u)\<lparr>uh_length := word_of_nat n\<rparr>);
                       u = u\<lparr>uh_hdr := h\<rparr>
                   in case obind (udp_header_write_to rawAddr h (uh_writer u)) (bw_write (take n datagram)) of
                        Ok w \<Rightarrow> (u\<lparr>uh_writer := w\<rparr>, True)
                      | _ \<Rightarrow> (u\<lparr>uh_cancelled := True\<rparr>, False))
      | _ \<Rightarrow> (u\<lparr>uh_cancelled := True\<rparr>, False))"

text \<open>The goroutine \<^verbatim>\<open>send\<close> on a stream: at most \<open>n\<close> iterations.\<close>

fun handler_send :: "nat \<Rightarrow> udp_handler \<Rightarrow> udp_handler outcome" where
  "handler_send 0 u = Ok u"
| "handler_send (Suc n) u =
     obind (handler_send_one (Ok ()) u) (\<lambda>(u, go). if go then handler_send n u else Ok u)"

section \<open>The server\<close>

text \<open>\<^verbatim>\<open>listen\<close> for one accepted connection: a handler is started in UDP mode, otherwise nothing happens.\<close>

definition server_accept :: "bytes \<Rightarrow> nat \<Rightarrow> udp_handler option" where
  "server_accept inp bufSize =
     (case handshake_read inp of
        Ok (h, r) \<Rightarrow> if hs_mode h = mode_udp then Some (new_udp_handler r bufSize) else None
      | _ \<Rightarrow> None)"

section \<open>The wire formats\<close>

interpretation hs: fixed_codec handshake_write handshake_read "\<lambda>_. True" 2
  by unfold_locales
    (auto simp: handshake_write_def handshake_read_def read_full_def obind_eq_Ok split: if_splits)

interpretation uhs: fixed_codec udp_handshake_write udp_handshake_read "\<lambda>_. True" 2
  by unfold_locales
    (auto simp: udp_handshake_write_def udp_handshake_read_def obind_eq_Ok read_full_Ok dest!: read_full_short)

lemma length_header_write [simp]: "length (header_write h) = 9"
  by (simp add: header_write_def)

lemma header_read_write [simp]: "header_read (header_write h @ r) = Ok (h, r)"
  by (simp add: header_read_def read_full_append' sub_def) (simp add: header_write_def)

interpretation hd: fixed_codec header_write header_read "\<lambda>_. True" 9
  by (unfold_locales, rule header_read_write, simp)
    (auto simp: header_read_def obind_eq_Ok read_full_Ok dest!: read_full_short)

text \<open>The frame of a datagram: header, address, payload.\<close>

definition addr_ok :: "addr_port \<Rightarrow> bool" where
  "addr_ok a \<longleftrightarrow> length (ap_ip a) = 4 \<or> length (ap_ip a) = 16"

definition frame_header :: "char \<Rightarrow> bytes \<times> addr_port \<Rightarrow> udp_header" where
  "frame_header v d =
     \<lparr>uh_version = v, uh_addr_type = (if length (ap_ip (snd d)) = 16 then addr_type_ipv6 else addr_type_ipv4),
      uh_addr_len = char_of (length (ap_ip (snd d))), uh_port = ap_port_num (snd d),
      uh_length = word_of_nat (length (fst d))\<rparr>"

definition udp_frame :: "char \<Rightarrow> bytes \<times> addr_port \<Rightarrow> bytes" where
  "udp_frame v d = header_write (frame_header v d) @ ap_ip (snd d) @ fst d"

lemma frame_header_version [simp]: "uh_version (frame_header v d) = v"
  by (simp add: frame_header_def)

lemma set_addr_frame:
  "set_addr a (h\<lparr>uh_length := word_of_nat (length p)\<rparr>) = (ap_ip a, frame_header (uh_version h) (p, a))"
  by (simp add: set_addr_def frame_header_def Let_def)

lemma read_from_frame:
  assumes "addr_ok a"
  shows "udp_header_read_from (udp_frame v (p, a) @ r) = Ok (frame_header v (p, a), a, p @ r)"
  using assms
  by (auto simp: udp_header_read_from_def udp_frame_def read_addr_port_def frame_header_def addr_ok_def)

section \<open>Buffered writing keeps the bytes and their order\<close>

definition bw_all :: "bufio_writer \<Rightarrow> bytes" where
  "bw_all w = bw_out w @ bw_buf w"

lemma conn_put_ok: "bw_budget w = None \<Longrightarrow> conn_put p w = Ok (w\<lparr>bw_out := bw_out w @ p\<rparr>)"
  by (simp add: conn_put_def)

lemma bw_flush_ok: "bw_budget w = None \<Longrightarrow> bw_flush w = Ok (w\<lparr>bw_out := bw_all w, bw_buf := []\<rparr>)"
  by (simp add: bw_flush_def conn_put_ok bw_all_def)

lemma bw_round_ok:
  assumes "bw_budget w = None"
  shows "\<exists>p' w'. bw_round p w = Ok (p', w') \<and> bw_all w' @ p' = bw_all w @ p \<and> bw_budget w' = None \<and> bw_size w' = bw_size w"
  using assms by (auto simp: bw_round_def conn_put_ok bw_flush_ok bw_all_def Let_def)

lemma bw_write_ok:
  assumes "bw_budget w = None"
  shows "\<exists>w'. bw_write p w = Ok w' \<and> bw_all w' = bw_all w @ p \<and> bw_budget w' = None \<and> bw_size w' = bw_size w"
proof -
  obtain p1 w1 where 1: "bw_round p w = Ok (p1, w1)" "bw_all w1 @ p1 = bw_all w @ p" "bw_budget w1 = None" "bw_size w1 = bw_size w"
    using bw_round_ok [OF assms] by blast
  obtain p2 w2 where "bw_round p1 w1 = Ok (p2, w2)" "bw_all w2 @ p2 = bw_all w1 @ p1" "bw_budget w2 = None" "bw_size w2 = bw_size w1"
    using bw_round_ok [OF 1(3)] by blast
  with 1 show ?thesis by (simp add: bw_write_def) (simp add: bw_all_def)
qed

text \<open>While everything fits, nothing reaches the connection.\<close>

lemma bw_write_fits:
  assumes "length (bw_buf w) + length p \<le> bw_size w"
  shows "bw_write p w = Ok (w\<lparr>bw_buf := bw_buf w @ p\<rparr>)"
proof -
  have "bw_fits p w" using assms unfolding bw_fits_def by linarith
  then show ?thesis by (simp add: bw_write_def bw_round_def)
qed

lemma uc_write_to_ok:
  assumes "bw_budget (uc_writer c) = None"
  shows "\<exists>c'. uc_write_to p (Ok a) c = Ok (length p, c')
     \<and> bw_all (uc_writer c') = bw_all (uc_writer c) @ udp_frame (uh_version (uc_write_header c)) (p, a)
     \<and> bw_budget (uc_writer c') = None \<and> uh_version (uc_write_header c') = uh_version (uc_write_header c)"
proof -
  let ?h = "frame_header (uh_version (uc_write_header c)) (p, a)"
  obtain w1 where w1: "bw_write (header_write ?h) (uc_writer c) = Ok w1"
    "bw_all w1 = bw_all (uc_writer c) @ header_write ?h" "bw_budget w1 = None"
    using bw_write_ok [OF assms] by blast
  obtain w2 where w2: "bw_write (ap_ip a) w1 = Ok w2" "bw_all w2 = bw_all w1 @ ap_ip a" "bw_budget w2 = None"
    using bw_write_ok [OF w1(3)] by blast
  obtain w3 where "bw_write p w2 = Ok w3" "bw_all w3 = bw_all w2 @ p" "bw_budget w3 = None"
    using bw_write_ok [OF w2(3)] by blast
  with w1 w2 show ?thesis
    by (simp add: uc_write_to_def set_addr_frame udp_header_write_to_def udp_frame_def)
qed

lemma uc_write_to_fits:
  assumes "length (bw_buf (uc_writer c)) + length (udp_frame (uh_version (uc_write_header c)) (p, a)) \<le> bw_size (uc_writer c)"
  shows "\<exists>h. uc_write_to p (Ok a) c =
     Ok (length p, c\<lparr>uc_write_header := h, uc_writer := (uc_writer c)\<lparr>bw_buf := bw_buf (uc_writer c)
           @ udp_frame (uh_version (uc_write_header c)) (p, a)\<rparr>\<rparr>) \<and> uh_version h = uh_version (uc_write_header c)"
  using assms
  by (intro exI [of _ "frame_header (uh_version (uc_write_header c)) (p, a)"])
    (simp add: uc_write_to_def set_addr_frame udp_header_write_to_def udp_frame_def bw_write_fits)

text \<open>A sequence of \<^verbatim>\<open>WriteTo\<close> calls.\<close>

fun uc_write_all :: "(bytes \<times> addr_port) list \<Rightarrow> udp_conn \<Rightarrow> udp_conn outcome" where
  "uc_write_all [] c = Ok c"
| "uc_write_all ((p, a) # ds) c = obind (uc_write_to p (Ok a) c) (\<lambda>(n, c). uc_write_all ds c)"

lemma uc_write_all_ok:
  assumes "bw_budget (uc_writer c) = None"
  shows "\<exists>c'. uc_write_all ds c = Ok c' \<and> bw_budget (uc_writer c') = None
     \<and> bw_all (uc_writer c') = bw_all (uc_writer c) @ concat (map (udp_frame (uh_version (uc_write_header c))) ds)"
  using assms
proof (induction ds arbitrary: c)
  case (Cons d ds)
  obtain p a where d: "d = (p, a)" by (cases d)
  obtain c1 where c1: "uc_write_to p (Ok a) c = Ok (length p, c1)"
    "bw_all (uc_writer c1) = bw_all (uc_writer c) @ udp_frame (uh_version (uc_write_header c)) (p, a)"
    "bw_budget (uc_writer c1) = None" "uh_version (uc_write_header c1) = uh_version (uc_write_header c)"
    using uc_write_to_ok [OF Cons.prems] by blast
  from Cons.IH [OF c1(3)] c1 show ?case by (auto simp: d)
qed simp

lemma uc_write_all_fits:
  assumes "length (bw_buf (uc_writer c)) + length (concat (map (udp_frame (uh_version (uc_write_header c))) ds))
             \<le> bw_size (uc_writer c)"
  shows "\<exists>c'. uc_write_all ds c = Ok c' \<and> bw_out (uc_writer c') = bw_out (uc_writer c)"
  using assms
proof (induction ds arbitrary: c)
  case (Cons d ds)
  obtain p a where d: "d = (p, a)" by (cases d)
  let ?f = "udp_frame (uh_version (uc_write_header c)) (p, a)"
  have "length (bw_buf (uc_writer c)) + length ?f \<le> bw_size (uc_writer c)" using Cons.prems by (simp add: d)
  then obtain h where h: "uc_write_to p (Ok a) c = Ok (length p, c\<lparr>uc_write_header := h,
       uc_writer := (uc_writer c)\<lparr>bw_buf := bw_buf (uc_writer c) @ ?f\<rparr>\<rparr>)" "uh_version h = uh_version (uc_write_header c)"
    using uc_write_to_fits by blast
  from Cons.IH [of "c\<lparr>uc_write_header := h, uc_writer := (uc_writer c)\<lparr>bw_buf := bw_buf (uc_writer c) @ ?f\<rparr>\<rparr>"]
  show ?case using h Cons.prems by (simp add: d)
qed simp

text \<open>The server's goroutine on a stream of frames.\<close>

lemma handler_send_frames:
  assumes "list_all (\<lambda>(p, a). addr_ok a \<and> length p \<le> uh_pipe_len u \<and> length p < 2 ^ 32) ds"
    "uh_in u = concat (map (udp_frame v) ds) @ rest"
  shows "handler_send (length ds) u = Ok (u\<lparr>uh_in := rest, uh_sent := uh_sent u @ ds\<rparr>)"
  using assms
proof (induction ds arbitrary: u)
  case (Cons d ds)
  obtain p a where d: "d = (p, a)" by (cases d)
  let ?u = "u\<lparr>uh_in := concat (map (udp_frame v) ds) @ rest, uh_sent := uh_sent u @ [(p, a)]\<rparr>"
  have "addr_ok a" and p: "length p \<le> uh_pipe_len u" "length p < 2 ^ 32" using Cons.prems(1) by (simp_all add: d)
  then have r: "udp_header_read_from (uh_in u) = Ok (frame_header v (p, a), a, p @ concat (map (udp_frame v) ds) @ rest)"
    using read_from_frame [of a v p "concat (map (udp_frame v) ds) @ rest"] Cons.prems(2) by (simp add: d)
  have "unat (uh_length (frame_header v (p, a))) = length p"
    using p(2) by (simp add: frame_header_def unat_of_nat_less)
  with r p(1) have "handler_send_one (Ok ()) u = Ok (?u, True)"
    by (simp add: handler_send_one_def Let_def)
  moreover have "handler_send (length ds) ?u = Ok (?u\<lparr>uh_in := rest, uh_sent := uh_sent ?u @ ds\<rparr>)"
    using Cons.prems(1) by (intro Cons.IH) auto
  ultimately show ?case by (simp add: d)
qed simp

section \<open>Properties\<close>

text \<open>
  Property C27. What the client writes is what the server sends: for any sequence of datagrams (IPv4 or
  IPv6 destinations, at most 4096 bytes each), once the client's buffer has been flushed, the server's
  goroutine sends exactly these datagrams to these destinations, in order.
\<close>

theorem proxy_forwards_datagrams:
  assumes "list_all (\<lambda>(p, a). addr_ok a \<and> length p \<le> 4096) ds"
  shows "\<exists>c c' w. listen_udp (Ok inp) lport bufSize = Ok c \<and> uc_write_all ds c = Ok c'
     \<and> bw_flush (uc_writer c') = Ok w
     \<and> (\<exists>u u'. server_accept (bw_out w) srvBuf = Some u \<and> handler_run (Ok ()) (Ok ()) (Ok ()) u = (u', True)
          \<and> (\<exists>u''. handler_send (length ds) u' = Ok u'' \<and> uh_sent u'' = ds \<and> uh_in u'' = []))"
proof -
  let ?h = "handshake_write \<lparr>hs_version = char_of (0 :: nat), hs_mode = mode_udp\<rparr>"
  let ?g = "udp_handshake_write \<lparr>uhs_port = lport\<rparr>"
  let ?z = "char_of (0 :: nat)"
  obtain c where c: "listen_udp (Ok inp) lport bufSize = Ok c" "bw_budget (uc_writer c) = None"
    "bw_all (uc_writer c) = ?h @ ?g" "uh_version (uc_write_header c) = ?z"
    by (simp add: listen_udp_def new_udp_conn_def new_writer_size_def conn_put_def bw_all_def zero_udp_header_def)
  obtain c' where c': "uc_write_all ds c = Ok c'" "bw_budget (uc_writer c') = None"
    "bw_all (uc_writer c') = (?h @ ?g) @ concat (map (udp_frame ?z) ds)"
    using uc_write_all_ok [OF c(2), of ds] c(3,4) by auto
  let ?w = "(uc_writer c')\<lparr>bw_out := bw_all (uc_writer c'), bw_buf := []\<rparr>"
  let ?u = "new_udp_handler (?g @ concat (map (udp_frame ?z) ds)) srvBuf"
  let ?u' = "?u\<lparr>uh_in := concat (map (udp_frame ?z) ds) @ [], uh_local := True\<rparr>"
  have "bw_out ?w = ?h @ (?g @ concat (map (udp_frame ?z) ds))" by (simp add: c'(3))
  then have "server_accept (bw_out ?w) srvBuf = Some ?u"
    by (simp only: server_accept_def hs.dec_enc) simp
  moreover have "handler_run (Ok ()) (Ok ()) (Ok ()) ?u = (?u', True)"
    using uhs.dec_enc [of "\<lparr>uhs_port = lport\<rparr>"] by (simp add: handler_run_def new_udp_handler_def)
  moreover have "handler_send (length ds) ?u' = Ok (?u'\<lparr>uh_in := [], uh_sent := uh_sent ?u' @ ds\<rparr>)"
    using assms by (intro handler_send_frames [where v = ?z]) (auto simp: list_all_iff new_udp_handler_def)
  moreover have "uh_sent ?u' = []" by (simp add: new_udp_handler_def)
  ultimately show ?thesis using c(1) c'(1) bw_flush_ok [OF c'(2)] by auto
qed

theorem proxy_forwards_datagrams_witness:
  "let ds = [(''ping'', \<lparr>ap_ip = ''abcd'', ap_port_num = 80\<rparr>), ([], \<lparr>ap_ip = ''0123456789abcdef'', ap_port_num = 1\<rparr>)]
   in \<exists>c c' w u u' u''. listen_udp (Ok []) 6881 16 = Ok c \<and> uc_write_all ds c = Ok c'
     \<and> bw_flush (uc_writer c') = Ok w \<and> server_accept (bw_out w) 4096 = Some u
     \<and> handler_run (Ok ()) (Ok ()) (Ok ()) u = (u', True) \<and> handler_send 2 u' = Ok u'' \<and> uh_sent u'' = ds"
  using proxy_forwards_datagrams [of "[(''ping'', \<lparr>ap_ip = ''abcd'', ap_port_num = 80\<rparr>),
     ([], \<lparr>ap_ip = ''0123456789abcdef'', ap_port_num = 1\<rparr>)]" "[]" 6881 16 4096]
  by (simp add: addr_ok_def Let_def numeral_2_eq_2) blast

text \<open>
  No code flushes the client's writer: as long as the frames written so far fit its buffer,
  none of them has left the client; only the two handshakes have.
\<close>

lemma proxy_writes_stay_buffered:
  assumes "listen_udp (Ok inp) lport bufSize = Ok c" "0 < bufSize"
    "length (concat (map (udp_frame (char_of (0 :: nat))) ds)) \<le> bufSize"
  shows "\<exists>c'. uc_write_all ds c = Ok c' \<and> length (bw_out (uc_writer c')) = 4"
proof -
  have c: "bw_buf (uc_writer c) = []" "bw_size (uc_writer c) = bufSize" "length (bw_out (uc_writer c)) = 4"
    "uh_version (uc_write_header c) = char_of (0 :: nat)"
    using assms(1,2) uhs.length_enc hs.length_enc
    by (auto simp: listen_udp_def new_udp_conn_def new_writer_size_def conn_put_def zero_udp_header_def)
  have "\<exists>c'. uc_write_all ds c = Ok c' \<and> bw_out (uc_writer c') = bw_out (uc_writer c)"
    by (rule uc_write_all_fits) (use assms(3) c in simp)
  then show ?thesis using c(3) by auto
qed

lemma proxy_writes_stay_buffered_example:
  "\<exists>c c'. listen_udp (Ok []) 6881 4096 = Ok c
     \<and> uc_write_all [(''ping'', \<lparr>ap_ip = ''abcd'', ap_port_num = 80\<rparr>)] c = Ok c' \<and> length (bw_out (uc_writer c')) = 4"
proof -
  obtain c where c: "listen_udp (Ok []) 6881 4096 = Ok c"
    by (simp add: listen_udp_def new_udp_conn_def new_writer_size_def conn_put_def)
  from proxy_writes_stay_buffered [OF this, of "[(''ping'', \<lparr>ap_ip = ''abcd'', ap_port_num = 80\<rparr>)]"] c
  show ?thesis by (auto simp: udp_frame_def)
qed



end
