(* ===== verification/Proxy_Service.thy ===== *)
theory Proxy_Service
  imports Proxy_Udp
begin

text \<open>
  The life of the proxy: \<^verbatim>\<open>proxy/internal/server.go\<close> with its accept loop, and what is left of the client
  (\<^verbatim>\<open>proxy/client.go\<close>, \<^verbatim>\<open>proxy/internal/client/udp.go\<close>). The lemmas show which clients of a sequence get a
  handler, that a client that sends nothing keeps all later ones waiting, and that \<^verbatim>\<open>SetDeadline\<close> does not return.
\<close>

section \<open>The server\<close>

record proxy_server_options =
  po_listen :: string
  po_buffer_size :: nat
  po_socket_buffer :: nat

text \<open>The listener is nil, open or closed; the handlers run in goroutines of their own.\<close>

datatype listener = NoListener | OpenListener | ClosedListener

record proxy_server =
  ps_options :: proxy_server_options
  ps_listener :: listener
  ps_cancelled :: bool
  ps_handlers :: "udp_handler list"

definition new_proxy_server :: "proxy_server_options \<Rightarrow> proxy_server" where
  "new_proxy_server options =
     \<lparr>ps_options = options, ps_listener = NoListener, ps_cancelled = False, ps_handlers = []\<rparr>"

text \<open>
  What \<^verbatim>\<open>Accept\<close> delivers: an error, or a connection with the bytes that have arrived on it and whether it is
  still open, so that a read that needs more of them waits. The loop has returned, waits for a
  client, or waits for the bytes of one.
\<close>

datatype incoming = AcceptFailed | Incoming bytes bool

datatype loop_state = Returned | Accepting | Reading

definition handshake_waits :: "bytes \<Rightarrow> bool \<Rightarrow> bool" where
  "handshake_waits inp open \<longleftrightarrow> open \<and> length inp < 2"

fun server_listen :: "incoming list \<Rightarrow> proxy_server \<Rightarrow> proxy_server \<times> loop_state" where
  "server_listen [] s = (s, Accepting)"
| "server_listen (AcceptFailed # cs) s = (s, Returned)"
| "server_listen (Incoming inp open # cs) s =
     (if handshake_waits inp open then (s, Reading)
      else case server_accept inp (po_buffer_size (ps_options s)) of
             Some u \<Rightarrow> server_listen cs (s\<lparr>ps_handlers := ps_handlers s @ [u]\<rparr>)
           | None \<Rightarrow> server_listen cs s)"

text \<open>\<open>listen\<close> is what \<^verbatim>\<open>net.Listen\<close> returns. A server that has a listener, even a closed one, is not started again.\<close>

definition server_start :: "unit outcome \<Rightarrow> incoming list \<Rightarrow> proxy_server \<Rightarrow> (proxy_server \<times> loop_state) outcome" where
  "server_start listen cs s =
     (if ps_listener s \<noteq> NoListener then Ok (s, Returned)
      else case listen of
             Ok _ \<Rightarrow> Ok (server_listen cs (s\<lparr>ps_listener := OpenListener\<rparr>))
           | Err e \<Rightarrow> Panic ExplicitPanic
           | Panic p \<Rightarrow> Panic p)"

definition server_stop :: "proxy_server \<Rightarrow> proxy_server" where
  "server_stop s =
     (let s = s\<lparr>ps_cancelled := True\<rparr>
      in if ps_listener s \<noteq> NoListener then s\<lparr>ps_listener := ClosedListener\<rparr> else s)"

section \<open>The client\<close>

record proxy_client =
  pc_server :: string
  pc_buf_size :: nat

definition new_proxy_client :: "string \<Rightarrow> nat \<Rightarrow> proxy_client" where
  "new_proxy_client server bufSize = \<lparr>pc_server = server, pc_buf_size = bufSize\<rparr>"

text \<open>\<open>dial\<close> is what connecting to an address returns.\<close>

definition client_listen_udp :: "(string \<Rightarrow> bytes outcome) \<Rightarrow> 16 word \<Rightarrow> proxy_client \<Rightarrow> udp_conn outcome" where
  "client_listen_udp dial lport pc = listen_udp (dial (pc_server pc)) lport (pc_buf_size pc)"

text \<open>The address of the connection is not known; two of the deadline setters forward to the stream.\<close>

definition uc_local_addr :: "udp_conn \<Rightarrow> addr_port option" where
  "uc_local_addr c = None"

definition uc_set_read_deadline :: "(int \<Rightarrow> unit outcome) \<Rightarrow> int \<Rightarrow> udp_conn \<Rightarrow> unit outcome" where
  "uc_set_read_deadline setRead t c = setRead t"

definition uc_set_write_deadline :: "(int \<Rightarrow> unit outcome) \<Rightarrow> int \<Rightarrow> udp_conn \<Rightarrow> unit outcome" where
  "uc_set_write_deadline setWrite t c = setWrite t"

text \<open>The third calls itself.\<close>

partial_function (option) uc_set_deadline :: "int \<Rightarrow> udp_conn \<Rightarrow> unit outcome option" where
  "uc_set_deadline t c = Option.bind (uc_set_deadline t c) (\<lambda>err. Some err)"

section \<open>Lemmas\<close>

lemma set_deadline_never_returns: "uc_set_deadline t c = None"
proof -
  have "uc_set_deadline t c = Some r \<Longrightarrow> False" for r
    by (erule uc_set_deadline.raw_induct [rotated]) (auto simp: bind_eq_Some_conv)
  then show ?thesis by (cases "uc_set_deadline t c") auto
qed

text \<open>The clients that get a handler: those before the first failure or silent client whose handshake asks for UDP.\<close>

definition handler_of :: "nat \<Rightarrow> incoming \<Rightarrow> udp_handler option" where
  "handler_of bufSize c = (case c of AcceptFailed \<Rightarrow> None | Incoming inp open \<Rightarrow> server_accept inp bufSize)"

definition served :: "incoming \<Rightarrow> bool" where
  "served c \<longleftrightarrow> (case c of AcceptFailed \<Rightarrow> False | Incoming inp open \<Rightarrow> \<not> handshake_waits inp open)"

lemma server_listen_spec:
  "fst (server_listen cs s) =
     s\<lparr>ps_handlers := ps_handlers s @ List.map_filter (handler_of (po_buffer_size (ps_options s))) (takeWhile served cs)\<rparr>"
  by (induction cs s rule: server_listen.induct)
    (auto simp: served_def handler_of_def map_filter_simps split: option.splits)

lemma silent_client_blocks:
  assumes "list_all served cs" "handshake_waits inp True"
  shows "server_listen (cs @ Incoming inp True # ds) s = (fst (server_listen cs s), Reading)"
  using assms by (induction cs s rule: server_listen.induct) (auto simp: served_def split: option.splits)

lemma failed_accept_ends: "list_all served cs \<Longrightarrow> snd (server_listen (cs @ AcceptFailed # ds) s) = Returned"
  by (induction cs s rule: server_listen.induct) (auto simp: served_def split: option.splits)

text \<open>A stopped server cannot be started again.\<close>

lemma stopped_stays_stopped:
  assumes "server_start (Ok ()) cs s = Ok (s1, r)"
  shows "server_start listen ds (server_stop s1) = Ok (server_stop s1, Returned)"
proof -
  have "ps_listener s1 \<noteq> NoListener"
    using assms server_listen_spec [of cs "s\<lparr>ps_listener := OpenListener\<rparr>"]
    by (auto simp: server_start_def split: if_splits)
  then show ?thesis by (simp add: server_start_def server_stop_def Let_def)
qed

end
