(* ===== verification/Torrent_Model.thy ===== *)
theory Torrent_Model
  imports Bencode Go_Utf8 "HOL-Library.Option_ord"
begin

text \<open>
  The data the services exchange: \<^verbatim>\<open>common/bittorrent/file.go\<close> and \<^verbatim>\<open>torrent.go\<close> (what a peer's
  metadata is decoded to), \<^verbatim>\<open>common/model\<close> (what is stored and published), the messages of the RPC
  service, and the interface of the document collection as a record of operations with its documented
  behaviour. The lemmas show what the conversions keep.
\<close>

section \<open>Decoded metadata\<close>

record bt_file =
  bf_ed2k :: bytes
  bf_file_hash :: bytes
  bf_length :: int
  bf_path :: "string list"
  bf_other :: "(string \<times> bytes any) list"

record bt_torrent =
  bt_t_info_hash :: bytes
  bt_t_name :: string
  bt_t_piece_length :: int
  bt_t_pieces :: bytes
  bt_t_publisher :: string
  bt_t_files :: "bt_file list"
  bt_t_source :: string
  bt_t_other :: "(string \<times> bytes any) list"

section \<open>RPC messages\<close>

record proto_file =
  pf_length :: int
  pf_paths :: "string list"
  pf_file_hash :: bytes

record commit_torrent_request =
  ct_info_hash :: bytes
  ct_name :: string
  ct_publisher :: string
  ct_source :: string
  ct_files :: "proto_file list"

record update_tracker_request =
  ut_info_hash :: string
  ut_seeders :: "32 word"
  ut_leechers :: "32 word"

record sort_params =
  sp_field :: string
  sp_asc :: bool

record search_torrents_request =
  st_keyword :: string
  st_per_page :: "32 word"
  st_page :: "32 word"
  st_sort_params :: "sort_params list"

record proto_torrent =
  pt_info_hash :: string
  pt_name :: string
  pt_publisher :: string
  pt_source :: string
  pt_seeders :: "32 word"
  pt_leechers :: "32 word"
  pt_files :: "proto_file list"

record torrent_page_response =
  tp_torrents :: "proto_torrent list"
  tp_total :: "32 word"

section \<open>Stored documents\<close>

text \<open>Times are nanoseconds; a pointer field is an option. The field \<^verbatim>\<open>Raw\<close> is never set or read.\<close>

type_synonym time = int

record stored_file =
  file_length :: int
  file_paths :: "string list"
  file_hash :: string

record torrent =
  t_info_hash :: string
  t_name :: string
  t_files :: "stored_file list"
  t_tags :: "string list"
  t_type :: string
  t_length :: int
  t_created_at :: "time option"
  t_updated_at :: "time option"
  t_seeders :: "32 word option"
  t_leechers :: "32 word option"
  t_tracker_updated_at :: "time option"
  t_search_updated :: bool
  t_tracker_last_tried_at :: "time option"
  t_raw :: "string option"

definition zero_torrent :: torrent where
  "zero_torrent = \<lparr>t_info_hash = [], t_name = [], t_files = [], t_tags = [], t_type = [], t_length = 0,
     t_created_at = None, t_updated_at = None, t_seeders = None, t_leechers = None,
     t_tracker_updated_at = None, t_search_updated = False, t_tracker_last_tried_at = None, t_raw = None\<rparr>"

text \<open>
  The methods by which the library for the database reads and sets the identifier. It passes a dynamic value;
  one that is not a string fails the type assertion of \<^verbatim>\<open>SetID\<close>.
\<close>

datatype dynamic_id = StringId string | OtherId

definition prepare_id :: "dynamic_id \<Rightarrow> torrent \<Rightarrow> dynamic_id outcome" where
  "prepare_id i t = Ok i"

definition get_id :: "torrent \<Rightarrow> dynamic_id" where
  "get_id t = StringId (t_info_hash t)"

definition set_id :: "dynamic_id \<Rightarrow> torrent \<Rightarrow> torrent outcome" where
  "set_id i t = (case i of StringId s \<Rightarrow> Ok (t\<lparr>t_info_hash := s\<rparr>) | OtherId \<Rightarrow> Panic BadTypeAssertion)"

definition new_file_from_proto :: "proto_file \<Rightarrow> stored_file" where
  "new_file_from_proto p =
     \<lparr>file_length = pf_length p, file_paths = pf_paths p, file_hash = hex_encode (pf_file_hash p)\<rparr>"

definition new_file_from_bt_file :: "bt_file \<Rightarrow> stored_file" where
  "new_file_from_bt_file p =
     \<lparr>file_length = bf_length p, file_paths = bf_path p, file_hash = hex_encode (bf_file_hash p)\<rparr>"

text \<open>The loops append a file and add its length to a 64-bit field.\<close>

fun add_proto_files :: "proto_file list \<Rightarrow> torrent \<Rightarrow> torrent" where
  "add_proto_files [] r = r"
| "add_proto_files (f # fs) r =
     add_proto_files fs (r\<lparr>t_files := t_files r @ [new_file_from_proto f],
                           t_length := wrap64 (t_length r + pf_length f)\<rparr>)"

fun add_bt_files :: "bt_file list \<Rightarrow> torrent \<Rightarrow> torrent" where
  "add_bt_files [] r = r"
| "add_bt_files (f # fs) r =
     add_bt_files fs (r\<lparr>t_files := t_files r @ [new_file_from_bt_file f],
                        t_length := wrap64 (t_length r + bf_length f)\<rparr>)"

definition new_torrent_from_commit_request :: "time \<Rightarrow> commit_torrent_request \<Rightarrow> torrent" where
  "new_torrent_from_commit_request now t =
     add_proto_files (ct_files t)
       (zero_torrent\<lparr>t_info_hash := hex_encode (ct_info_hash t), t_name := ct_name t, t_files := [],
          t_search_updated := False, t_created_at := Some now, t_updated_at := Some now\<rparr>)"

definition new_torrent_from_bt_torrent :: "time \<Rightarrow> bt_torrent \<Rightarrow> torrent" where
  "new_torrent_from_bt_torrent now t =
     add_bt_files (bt_t_files t)
       (zero_torrent\<lparr>t_info_hash := hex_encode (bt_t_info_hash t), t_name := bt_t_name t, t_files := [],
          t_search_updated := False, t_created_at := Some now, t_updated_at := Some now\<rparr>)"

definition torrent_valid :: "torrent \<Rightarrow> bool" where
  "torrent_valid t \<longleftrightarrow> \<not> length (t_info_hash t) = 0 \<and> \<not> length (t_name t) = 0"

fun corrupted_loop :: "stored_file list \<Rightarrow> bool" where
  "corrupted_loop [] = False"
| "corrupted_loop (f # fs) = (if length (file_paths f) = 0 then True else corrupted_loop fs)"

definition torrent_corrupted :: "torrent \<Rightarrow> bool" where
  "torrent_corrupted t = corrupted_loop (t_files t)"

section \<open>Published messages\<close>

text \<open>
  A message carries the JSON text of a torrent. The struct tags make every field survive the trip
  (an omitted optional field is read back as absent), except that \<^verbatim>\<open>json.Marshal\<close> replaces the bytes of a string
  that are not UTF-8. A payload is represented by the torrent that its text encodes; \<open>Garbage\<close> is a text that
  \<^verbatim>\<open>json.Unmarshal\<close> rejects.
\<close>

datatype payload = Payload torrent | Garbage

definition json_file :: "stored_file \<Rightarrow> stored_file" where
  "json_file f = f\<lparr>file_paths := map coerce_utf8 (file_paths f), file_hash := coerce_utf8 (file_hash f)\<rparr>"

definition json_torrent :: "torrent \<Rightarrow> torrent" where
  "json_torrent t =
     t\<lparr>t_info_hash := coerce_utf8 (t_info_hash t), t_name := coerce_utf8 (t_name t), t_files := map json_file (t_files t),
       t_tags := map coerce_utf8 (t_tags t), t_type := coerce_utf8 (t_type t), t_raw := map_option coerce_utf8 (t_raw t)\<rparr>"

definition json_marshal :: "torrent \<Rightarrow> payload outcome" where
  "json_marshal t = Ok (Payload (json_torrent t))"

definition json_unmarshal :: "payload \<Rightarrow> torrent outcome" where
  "json_unmarshal p = (case p of Payload t \<Rightarrow> Ok t | Garbage \<Rightarrow> Err ErrSyntax)"

definition topic_new_torrent :: string where
  "topic_new_torrent = ''new_torrent''"

definition topic_tracker_updated :: string where
  "topic_tracker_updated = ''tracker_updated''"

definition topic_update_tracker :: string where
  "topic_update_tracker = ''update_tracker''"

text \<open>A torrent is published as it is exactly if all its strings are UTF-8.\<close>

definition file_utf8 :: "stored_file \<Rightarrow> bool" where
  "file_utf8 f \<longleftrightarrow> list_all valid_utf8 (file_paths f) \<and> valid_utf8 (file_hash f)"

definition torrent_utf8 :: "torrent \<Rightarrow> bool" where
  "torrent_utf8 t \<longleftrightarrow> valid_utf8 (t_info_hash t) \<and> valid_utf8 (t_name t) \<and> list_all file_utf8 (t_files t)
     \<and> list_all valid_utf8 (t_tags t) \<and> valid_utf8 (t_type t) \<and> pred_option valid_utf8 (t_raw t)"

lemma map_fixed_iff: "(\<And>x. f x = x \<longleftrightarrow> P x) \<Longrightarrow> map f xs = xs \<longleftrightarrow> list_all P xs"
  by (induction xs) auto

lemma json_file_fixed: "json_file f = f \<longleftrightarrow> file_utf8 f"
  using map_fixed_iff [of coerce_utf8 valid_utf8 "file_paths f"]
  by (cases f) (auto simp: json_file_def file_utf8_def coerce_eq_iff)

lemma json_torrent_fixed: "json_torrent t = t \<longleftrightarrow> torrent_utf8 t"
  using map_fixed_iff [of coerce_utf8 valid_utf8 "t_tags t"] map_fixed_iff [of json_file file_utf8 "t_files t", OF json_file_fixed]
  by (cases t; cases "t_raw t") (auto simp: json_torrent_def torrent_utf8_def coerce_eq_iff)

lemma json_torrent_utf8: "torrent_utf8 (json_torrent t)"
  by (cases "t_raw t") (auto simp: torrent_utf8_def json_torrent_def json_file_def file_utf8_def valid_coerced list_all_iff)

lemma json_torrent_id: "t_info_hash (json_torrent t) = coerce_utf8 (t_info_hash t)"
  by (simp add: json_torrent_def)

section \<open>The document collection\<close>

text \<open>
  The collection is an external service: a record of the operations the program calls. An update is
  the function that the operators of the call apply to a document. \<open>find_many\<close> takes the filter, the
  sort key and the limit.
\<close>

record 'db coll =
  find_by_id :: "string \<Rightarrow> 'db \<Rightarrow> torrent outcome"
  upsert :: "torrent \<Rightarrow> 'db \<Rightarrow> 'db outcome"
  update_by_id :: "string \<Rightarrow> (torrent \<Rightarrow> torrent) \<Rightarrow> 'db \<Rightarrow> 'db outcome"
  update_many :: "string list \<Rightarrow> (torrent \<Rightarrow> torrent) \<Rightarrow> 'db \<Rightarrow> (nat \<times> 'db) outcome"
  find_one_and_update :: "string \<Rightarrow> (torrent \<Rightarrow> torrent) \<Rightarrow> 'db \<Rightarrow> (torrent \<times> 'db) outcome"
  find_many :: "(torrent \<Rightarrow> bool) \<Rightarrow> (torrent \<Rightarrow> time option) \<Rightarrow> int \<Rightarrow> 'db \<Rightarrow> torrent list outcome"

text \<open>
  Documented behaviour: after a successful upsert the document is found under its identifier, and the
  other documents are unchanged; a successful update changes exactly the named documents that exist
  (an update never changes the identifier).
\<close>

definition on_doc :: "(torrent \<Rightarrow> torrent) \<Rightarrow> torrent \<Rightarrow> torrent" where
  "on_doc g t = (g t)\<lparr>t_info_hash := t_info_hash t\<rparr>"

definition coll_laws :: "'db coll \<Rightarrow> bool" where
  "coll_laws C \<longleftrightarrow>
     (\<forall>t db db' k. upsert C t db = Ok db' \<longrightarrow>
        find_by_id C k db' = (if k = t_info_hash t then Ok t else find_by_id C k db))
   \<and> (\<forall>ids g n db db' k. update_many C ids g db = Ok (n, db') \<longrightarrow>
        find_by_id C k db' = (if k \<in> set ids then map_outcome (on_doc g) (find_by_id C k db) else find_by_id C k db))
   \<and> (\<forall>k g db db' x. update_by_id C k g db = Ok db' \<longrightarrow>
        find_by_id C x db' = (if x = k then map_outcome (on_doc g) (find_by_id C k db) else find_by_id C x db))
   \<and> (\<forall>k g t db db' x. find_one_and_update C k g db = Ok (t, db') \<longrightarrow>
        find_by_id C k db' = Ok t \<and> map_outcome (on_doc g) (find_by_id C k db) = Ok t
        \<and> (x \<noteq> k \<longrightarrow> find_by_id C x db' = find_by_id C x db))"

text \<open>A collection in memory: a list of documents that never fails.\<close>

definition list_find :: "string \<Rightarrow> torrent list \<Rightarrow> torrent outcome" where
  "list_find k db = (case find (\<lambda>t. t_info_hash t = k) db of None \<Rightarrow> Err ErrNoDocuments | Some t \<Rightarrow> Ok t)"

definition list_update :: "string list \<Rightarrow> (torrent \<Rightarrow> torrent) \<Rightarrow> torrent list \<Rightarrow> torrent list" where
  "list_update ids g db = map (\<lambda>t. if t_info_hash t \<in> set ids then (g t)\<lparr>t_info_hash := t_info_hash t\<rparr> else t) db"

definition list_coll :: "torrent list coll" where
  "list_coll =
     \<lparr>find_by_id = list_find,
      upsert = (\<lambda>t db. Ok (t # filter (\<lambda>x. t_info_hash x \<noteq> t_info_hash t) db)),
      update_by_id = (\<lambda>k g db. Ok (list_update [k] g db)),
      update_many = (\<lambda>ids g db. Ok (length (filter (\<lambda>t. t_info_hash t \<in> set ids) db), list_update ids g db)),
      find_one_and_update = (\<lambda>k g db. obind (list_find k (list_update [k] g db)) (\<lambda>t. Ok (t, list_update [k] g db))),
      find_many = (\<lambda>P f n db. Ok (let xs = sort_key f (filter P db) in if n = 0 then xs else take (nat \<bar>n\<bar>) xs))\<rparr>"

section \<open>Lemmas\<close>

text \<open>The identifier that is read can be prepared and set again.\<close>

lemma id_roundtrip: "obind (prepare_id (get_id t) t) (\<lambda>i. set_id i u) = Ok (u\<lparr>t_info_hash := t_info_hash t\<rparr>)"
  by (simp add: prepare_id_def get_id_def set_id_def)


lemma wrap64_add: "wrap64 (wrap64 a + b) = wrap64 (a + b)"
  by (simp add: wrap64_def algebra_simps mod_simps)

lemma add_bt_files_eq:
  "wrap64 (t_length r) = t_length r \<Longrightarrow>
   add_bt_files fs r = r\<lparr>t_files := t_files r @ map new_file_from_bt_file fs,
                         t_length := wrap64 (t_length r + sum_list (map bf_length fs))\<rparr>"
proof (induction fs arbitrary: r)
  case (Cons f fs)
  have "wrap64 (wrap64 x) = wrap64 x" for x using wrap64_add [of x 0] by simp
  then show ?case
    using Cons.IH [of "r\<lparr>t_files := t_files r @ [new_file_from_bt_file f], t_length := wrap64 (t_length r + bf_length f)\<rparr>"]
    by (simp add: wrap64_add add.assoc)
qed simp

lemma add_proto_files_eq:
  "wrap64 (t_length r) = t_length r \<Longrightarrow>
   add_proto_files fs r = r\<lparr>t_files := t_files r @ map new_file_from_proto fs,
                            t_length := wrap64 (t_length r + sum_list (map pf_length fs))\<rparr>"
proof (induction fs arbitrary: r)
  case (Cons f fs)
  have "wrap64 (wrap64 x) = wrap64 x" for x using wrap64_add [of x 0] by simp
  then show ?case
    using Cons.IH [of "r\<lparr>t_files := t_files r @ [new_file_from_proto f], t_length := wrap64 (t_length r + pf_length f)\<rparr>"]
    by (simp add: wrap64_add add.assoc)
qed simp

lemma wrap64_0: "wrap64 0 = 0"
  by (simp add: wrap64_def)

lemma corrupted_iff: "torrent_corrupted t \<longleftrightarrow> (\<exists>f \<in> set (t_files t). file_paths f = [])"
proof -
  have "corrupted_loop fs \<longleftrightarrow> (\<exists>f \<in> set fs. file_paths f = [])" for fs by (induction fs) auto
  then show ?thesis by (simp add: torrent_corrupted_def)
qed

lemma list_find_update:
  "list_find k (list_update ids g db) = (if k \<in> set ids then map_outcome (on_doc g) (list_find k db) else list_find k db)"
  by (induction db) (auto simp: list_find_def list_update_def on_doc_def split: option.splits)

lemma list_find_upsert:
  "list_find k (t # filter (\<lambda>x. t_info_hash x \<noteq> t_info_hash t) db) = (if k = t_info_hash t then Ok t else list_find k db)"
proof -
  have "k \<noteq> t_info_hash t \<Longrightarrow>
      find (\<lambda>x. t_info_hash x = k) (filter (\<lambda>x. t_info_hash x \<noteq> t_info_hash t) db) = find (\<lambda>x. t_info_hash x = k) db"
    by (induction db) auto
  then show ?thesis by (simp add: list_find_def)
qed

lemma list_coll_laws: "coll_laws list_coll"
  by (auto simp: coll_laws_def list_coll_def list_find_update list_find_upsert obind_eq_Ok)

section \<open>Properties\<close>

text \<open>
  Both conversions to a stored torrent keep the name and the files in order, use the
  hexadecimal form of the info hash as the identifier (which decodes to the hash), and store the sum
  of the file lengths as a 64-bit integer.
\<close>

lemma torrent_conversions:
  "(let r = new_torrent_from_bt_torrent now t in
      hex_decode (t_info_hash r) = Ok (bt_t_info_hash t) \<and> t_name r = bt_t_name t
      \<and> map file_paths (t_files r) = map bf_path (bt_t_files t)
      \<and> t_length r = wrap64 (sum_list (map bf_length (bt_t_files t)))
      \<and> (torrent_corrupted r \<longleftrightarrow> (\<exists>f \<in> set (bt_t_files t). bf_path f = [])))
   \<and> (let r = new_torrent_from_commit_request now q in
      hex_decode (t_info_hash r) = Ok (ct_info_hash q) \<and> t_name r = ct_name q
      \<and> map file_paths (t_files r) = map pf_paths (ct_files q)
      \<and> t_length r = wrap64 (sum_list (map pf_length (ct_files q)))
      \<and> (torrent_corrupted r \<longleftrightarrow> (\<exists>f \<in> set (ct_files q). pf_paths f = [])))"
  by (simp add: new_torrent_from_bt_torrent_def new_torrent_from_commit_request_def add_bt_files_eq
      add_proto_files_eq zero_torrent_def wrap64_0 corrupted_iff new_file_from_bt_file_def
      new_file_from_proto_def Let_def comp_def)

end
