(* ===== verification/Doc_Collection.thy ===== *)
theory Doc_Collection
  imports Torrent_Model "HOL-Library.Multiset"
begin

text \<open>
  The document collection as its clients see it: an external service (MongoDB, called through
  \<^verbatim>\<open>mgm\<close>) whose contents are a list of torrents. The locale states the documented behaviour the
  services rely on: a find returns matching documents, in the order of its sort key, no more than its
  limit and none left out below it; an update of many changes exactly the named documents. Any call
  may also fail. A second locale adds what the other writes do to the set of stored identifiers. The
  collection in memory of \<^verbatim>\<open>Torrent_Model\<close> is an instance of both.
\<close>

definition ids_distinct :: "torrent list \<Rightarrow> bool" where
  "ids_distinct ts \<longleftrightarrow> distinct (map t_info_hash ts)"

definition untried :: "torrent \<Rightarrow> bool" where
  "untried t \<longleftrightarrow> t_tracker_last_tried_at t = None"

lemma distinct_submset:
  assumes "mset xs \<subseteq># mset ys" "distinct ys"
  shows "distinct xs"
proof -
  obtain zs where "mset ys = mset xs + mset zs" using assms(1) by (metis ex_mset mset_subset_eq_exists_conv)
  then have "mset ys = mset (xs @ zs)" by simp
  with assms(2) have "distinct (xs @ zs)" using mset_eq_imp_distinct_iff by blast
  then show ?thesis by simp
qed

lemma submset_filter: "A \<subseteq># filter_mset P B \<Longrightarrow> A \<subseteq># B"
  by (rule subset_mset.order_trans [OF _ multiset_filter_subset])

locale doc_collection =
  fixes C :: "'db coll"
    and view :: "'db \<Rightarrow> torrent list"
  assumes find_sound: "find_many C P f n db = Ok ts \<Longrightarrow> mset ts \<subseteq># filter_mset P (mset (view db))"
    and find_sorted: "find_many C P f n db = Ok ts \<Longrightarrow> sorted (map f ts)"
    and find_limit: "find_many C P f n db = Ok ts \<Longrightarrow> n \<noteq> 0 \<Longrightarrow> length ts \<le> nat \<bar>n\<bar>"
    and find_complete: "find_many C P f n db = Ok ts \<Longrightarrow> n = 0 \<or> length ts < nat \<bar>n\<bar> \<Longrightarrow>
      mset ts = filter_mset P (mset (view db))"
    and find_first: "find_many C P f n db = Ok ts \<Longrightarrow> t \<in> set ts \<Longrightarrow>
      u \<in># filter_mset P (mset (view db)) - mset ts \<Longrightarrow> f t \<le> f u"
    and update_view: "update_many C ids g db = Ok (k, db') \<Longrightarrow> view db' = list_update ids g (view db)"
begin

lemma find_matches:
  assumes "find_many C P f n db = Ok ts" "t \<in> set ts"
  shows "t \<in> set (view db) \<and> P t"
  using mset_subset_eqD [OF find_sound [OF assms(1)], of t] assms(2) by simp

lemma find_none:
  assumes "find_many C P f n db = Ok []" "t \<in> set (view db)"
  shows "\<not> P t"
proof -
  have "n = 0 \<or> length ([] :: torrent list) < nat \<bar>n\<bar>" by auto
  from find_complete [OF assms(1) this] have "filter_mset P (mset (view db)) = {#}" by simp
  then have "t \<notin># filter_mset P (mset (view db))" by simp
  then show ?thesis using assms(2) by simp
qed

lemma find_distinct:
  assumes "find_many C P f n db = Ok ts" "ids_distinct (view db)"
  shows "ids_distinct ts"
proof -
  have "image_mset t_info_hash (mset ts) \<subseteq># image_mset t_info_hash (mset (view db))"
    by (rule image_mset_subseteq_mono [OF submset_filter [OF find_sound [OF assms(1)]]])
  then show ?thesis
    using assms(2) distinct_submset [of "map t_info_hash ts" "map t_info_hash (view db)"] by (simp add: ids_distinct_def)
qed

end

section \<open>Updates of named documents\<close>

lemma list_update_ids [simp]: "map t_info_hash (list_update ids g ts) = map t_info_hash ts"
  by (induction ts) (auto simp: list_update_def)

lemma ids_distinct_update [simp]: "ids_distinct (list_update ids g ts) = ids_distinct ts"
  by (simp add: ids_distinct_def)

text \<open>With unique identifiers, naming the identifiers of some documents marks just those documents.\<close>

lemma same_id: "ids_distinct ts \<Longrightarrow> a \<in> set ts \<Longrightarrow> b \<in> set ts \<Longrightarrow> t_info_hash a = t_info_hash b \<Longrightarrow> a = b"
  by (simp add: ids_distinct_def distinct_map inj_on_def)

lemma mark_tried:
  assumes "ids_distinct ts" "mset xs \<subseteq># filter_mset untried (mset ts)"
    and g: "\<And>t. \<not> untried (g t)"
  shows "filter_mset untried (mset (list_update (map t_info_hash xs) g ts)) = filter_mset untried (mset ts) - mset xs"
proof -
  have m: "mset xs \<subseteq># mset ts" by (rule submset_filter [OF assms(2)])
  have d: "distinct ts" using assms(1) by (simp add: ids_distinct_def distinct_map)
  have dx: "distinct xs" by (rule distinct_submset [OF m d])
  have sub: "set xs \<subseteq> set ts" using set_mset_mono [OF m] by simp
  have hit: "t_info_hash t \<in> set (map t_info_hash xs) \<longleftrightarrow> t \<in> set xs" if "t \<in> set ts" for t
    using same_id [OF assms(1)] that sub by (metis (no_types, lifting) image_iff set_map subsetD)
  have "filter untried (list_update (map t_info_hash xs) g ys) = filter (\<lambda>t. untried t \<and> t \<notin> set xs) ys"
    if "set ys \<subseteq> set ts" for ys
    using that
  proof (induction ys)
    case (Cons y ys)
    have "\<not> untried (g y\<lparr>t_info_hash := t_info_hash y\<rparr>)" using g [of y] by (simp add: untried_def)
    then show ?case using Cons hit [of y] by (auto simp: list_update_def)
  qed (simp add: list_update_def)
  then have "filter_mset untried (mset (list_update (map t_info_hash xs) g ts)) = mset (filter (\<lambda>t. untried t \<and> t \<notin> set xs) ts)"
    by (metis mset_filter subset_refl)
  also have "\<dots> = filter_mset untried (mset ts) - mset xs"
  proof (rule multiset_eqI)
    fix t
    show "count (mset (filter (\<lambda>t. untried t \<and> t \<notin> set xs) ts)) t = count (filter_mset untried (mset ts) - mset xs) t"
      using d dx by (auto simp: distinct_count_atmost_1)
  qed
  finally show ?thesis .
qed

section \<open>The collection in memory\<close>

lemma sorted_split_le:
  assumes "sorted (map f (xs @ ys))" "t \<in> set xs" "u \<in> set ys"
  shows "f t \<le> f u"
  using assms by (auto simp: sorted_append)

interpretation lc: doc_collection list_coll "\<lambda>db. db"
proof
  fix P f n db ts
  assume a: "find_many list_coll P f n db = Ok ts"
  let ?xs = "sort_key f (filter P db)"
  define m where "m = (if n = 0 then length ?xs else nat \<bar>n\<bar>)"
  have m: "ts = take m ?xs" "n = 0 \<or> m = nat \<bar>n\<bar>" "n = 0 \<longrightarrow> ts = ?xs"
    using a by (auto simp: list_coll_def Let_def m_def)
  have all: "mset ?xs = filter_mset P (mset db)" by simp
  have split: "mset ?xs = mset ts + mset (drop m ?xs)"
    using m(1) by (metis append_take_drop_id mset_append)
  show "mset ts \<subseteq># filter_mset P (mset db)" using split all by simp
  show "sorted (map f ts)" using m(1) by (metis sorted_sort_key sorted_wrt_take take_map)
  show "length ts \<le> nat \<bar>n\<bar>" if "n \<noteq> 0" using m that by simp
  show "mset ts = filter_mset P (mset db)" if "n = 0 \<or> length ts < nat \<bar>n\<bar>"
    using m that all by (cases "n = 0") auto
  show "f t \<le> f u" if "t \<in> set ts" "u \<in># filter_mset P (mset db) - mset ts" for t u
  proof (rule sorted_split_le [of f ts "drop m ?xs"])
    show "sorted (map f (ts @ drop m ?xs))" using m(1) by simp
    show "u \<in> set (drop m ?xs)" using that(2) split all by (metis add_diff_cancel_left' set_mset_mset)
  qed (rule that(1))
qed (simp add: list_coll_def)

section \<open>The stored identifiers\<close>

definition doc_ids :: "('db \<Rightarrow> torrent list) \<Rightarrow> 'db \<Rightarrow> string set" where
  "doc_ids view db = t_info_hash ` set (view db)"

text \<open>
  Documented: an upsert stores at most the identifier of its document, an update by identifier stores
  no new one, and an update that returns the document found it and returns it under the same identifier.
\<close>

locale doc_store = doc_collection +
  assumes upsert_ids: "upsert C t db = Ok db' \<Longrightarrow> doc_ids view db' \<subseteq> insert (t_info_hash t) (doc_ids view db)"
    and update_by_id_ids: "update_by_id C k g db = Ok db' \<Longrightarrow> doc_ids view db' \<subseteq> doc_ids view db"
    and find_update_ids: "find_one_and_update C k g db = Ok (t, db') \<Longrightarrow>
      doc_ids view db' \<subseteq> doc_ids view db \<and> t_info_hash t \<in> doc_ids view db"
begin

lemma update_many_ids:
  assumes "update_many C ids g db = Ok (n, db')"
  shows "doc_ids view db' = doc_ids view db"
proof -
  have "set (map t_info_hash (view db')) = set (map t_info_hash (view db))"
    by (simp only: update_view [OF assms] list_update_ids)
  then show ?thesis by (simp add: doc_ids_def)
qed

lemma found_ids: "find_many C P f n db = Ok ts \<Longrightarrow> t_info_hash ` set ts \<subseteq> doc_ids view db"
  using find_matches by (auto simp: doc_ids_def)

end

lemma doc_ids_list_update [simp]: "doc_ids (\<lambda>db. db) (list_update ids g ts) = doc_ids (\<lambda>db. db) ts"
  unfolding doc_ids_def by (metis list_update_ids list.set_map)

interpretation ls: doc_store list_coll "\<lambda>db. db"
proof
  fix t t' :: torrent and db db' k g
  show "doc_ids (\<lambda>db. db) db' \<subseteq> insert (t_info_hash t) (doc_ids (\<lambda>db. db) db)" if "upsert list_coll t db = Ok db'"
    using that by (auto simp: list_coll_def doc_ids_def)
  show "doc_ids (\<lambda>db. db) db' \<subseteq> doc_ids (\<lambda>db. db) db" if "update_by_id list_coll k g db = Ok db'"
    using that by (auto simp: list_coll_def)
  show "doc_ids (\<lambda>db. db) db' \<subseteq> doc_ids (\<lambda>db. db) db \<and> t_info_hash t \<in> doc_ids (\<lambda>db. db) db"
    if "find_one_and_update list_coll k g db = Ok (t, db')"
  proof -
    have "list_find k (list_update [k] g db) = Ok t" "db' = list_update [k] g db"
      using that by (auto simp: list_coll_def obind_eq_Ok)
    moreover from this(1) have "t \<in> set (list_update [k] g db)"
      by (auto simp: list_find_def find_Some_iff split: option.splits)
    then have "t_info_hash t \<in> doc_ids (\<lambda>db. db) (list_update [k] g db)" by (simp add: doc_ids_def)
    ultimately show ?thesis by simp
  qed
qed

end
