(* ===== verification/Torrent_Fetcher.thy ===== *)
theory Torrent_Fetcher
  imports Torrent_Model Bittorrent_Peer Bloom_Filter Executor_Queue
begin

text \<open>
  \<^verbatim>\<open>crawler/internal/svc/torrent_fetcher.go\<close>: the service that decides which announced
  torrents to fetch, fetches their metadata with the peer client, stores and publishes them. It uses
  the bloom filter, the executor, the peer client and the document collection. The lemmas show that
  only metadata with the announced hash is stored, that a stored torrent is not fetched again, and
  that committing never waits.
\<close>

section \<open>State\<close>

record torrent_request =
  treq_node_id :: bytes
  treq_info_hash :: bytes
  treq_addr :: string

text \<open>
  The channel of unchecked requests (10000 slots), the bloom filter, the executor of the peer clients
  and the configured queue size; the collection, the published messages, the counted events and the
  bloom filter's file are what the service changes outside.
\<close>

record ('bm, 'db) fetcher =
  f_unchecked :: "torrent_request list"
  f_bloom :: "'bm bloom"
  f_executor :: "bit_torrent executor"
  f_proxy :: "(string \<Rightarrow> conn outcome) option"
  f_max_queue :: nat
  f_coll :: 'db
  f_published :: "(string \<times> payload) list"
  f_events :: "string list"
  f_gauges :: "(string \<times> nat) list"
  f_file :: "bytes option"
  f_cancelled :: bool

definition target_count :: nat where
  "target_count = 1024 * 1024 * 100"

definition unchecked_capacity :: nat where
  "unchecked_capacity = 10000"

definition event :: "string \<Rightarrow> ('bm, 'db) fetcher \<Rightarrow> ('bm, 'db) fetcher" where
  "event e f = f\<lparr>f_events := f_events f @ [e]\<rparr>"

text \<open>
  \<open>socks\<close> is the configured SOCKS5 dialer or why it cannot be made; \<open>stat\<close> is the filter's file, or
  nothing when it does not exist.
\<close>

definition new_torrent_fetcher ::
    "'bm bitmap_ops \<Rightarrow> (string \<Rightarrow> conn outcome) option outcome \<Rightarrow> bytes option outcome \<Rightarrow> nat \<Rightarrow> nat \<Rightarrow> 'db
     \<Rightarrow> ('bm, 'db) fetcher outcome" where
  "new_torrent_fetcher B socks stat workers maxQueue db =
     obind socks (\<lambda>proxy.
     obind (obind stat (\<lambda>fl. case fl of
              None \<Rightarrow> Ok (new_bloom_filter B (word_of_nat (target_count * 15)))
            | Some bytes \<Rightarrow> obind (load_bloom_filter B bytes) (\<lambda>(bf, _). Ok bf))) (\<lambda>bf.
       Ok \<lparr>f_unchecked = [], f_bloom = bf, f_executor = new_executor workers maxQueue, f_proxy = proxy,
           f_max_queue = maxQueue, f_coll = db, f_published = [], f_events = [], f_gauges = [],
           f_file = (case stat of Ok fl \<Rightarrow> fl | _ \<Rightarrow> None), f_cancelled = False\<rparr>))"

section \<open>Operations\<close>

text \<open>\<^const>\<open>None\<close> is a call that waits on a channel. A full executor queue drops the request.\<close>

definition fetcher_commit :: "torrent_request \<Rightarrow> ('bm, 'db) fetcher \<Rightarrow> ('bm, 'db) fetcher option" where
  "fetcher_commit req f =
     (let bt = (new_bit_torrent (treq_node_id req) (treq_info_hash req) (treq_addr req))\<lparr>bt_proxy := f_proxy f\<rparr>;
          bt = set_traffic_metric_func bt
      in if f_max_queue f \<le> queue_size (f_executor f) then Some (event ''drop_torrent'' f)
         else map_option (\<lambda>e. f\<lparr>f_executor := e\<rparr>) (commit bt (f_executor f)))"

definition fetcher_push ::
    "'bm bitmap_ops \<Rightarrow> (bytes \<Rightarrow> 64 word) \<Rightarrow> torrent_request \<Rightarrow> ('bm, 'db) fetcher \<Rightarrow> ('bm, 'db) fetcher option outcome" where
  "fetcher_push B hash req f =
     obind (bloom_exists B hash (f_bloom f) (treq_info_hash req)) (\<lambda>exist.
       Ok (if exist
           then if length (f_unchecked f) < unchecked_capacity
                then Some (f\<lparr>f_unchecked := f_unchecked f @ [req]\<rparr>) else None
           else fetcher_commit req f))"

text \<open>One iteration of \<^verbatim>\<open>checkExistLoop\<close> on the oldest unchecked request.\<close>

definition check_exist_one ::
    "'bm bitmap_ops \<Rightarrow> (bytes \<Rightarrow> 64 word) \<Rightarrow> 'db coll \<Rightarrow> ('bm, 'db) fetcher \<Rightarrow> ('bm, 'db) fetcher option outcome" where
  "check_exist_one B hash C f =
     (case f_unchecked f of
        [] \<Rightarrow> Ok None
      | req # reqs \<Rightarrow>
          (let f = event ''db_exist_check'' (f\<lparr>f_unchecked := reqs\<rparr>)
           in case find_by_id C (hex_encode (treq_info_hash req)) (f_coll f) of
                Ok _ \<Rightarrow> obind (bloom_add B hash (treq_info_hash req) (f_bloom f)) (\<lambda>bf. Ok (Some (f\<lparr>f_bloom := bf\<rparr>)))
              | Err e \<Rightarrow> if e = ErrNoDocuments then Ok (fetcher_commit req f) else Ok (Some f)
              | Panic p \<Rightarrow> Panic p))"

text \<open>\<open>pub\<close> is what publishing returns.\<close>

definition handle_torrent ::
    "'bm bitmap_ops \<Rightarrow> (bytes \<Rightarrow> 64 word) \<Rightarrow> 'db coll \<Rightarrow> unit outcome \<Rightarrow> time \<Rightarrow> bt_torrent
     \<Rightarrow> ('bm, 'db) fetcher \<Rightarrow> ('bm, 'db) fetcher outcome" where
  "handle_torrent B hash C pub now torrent f =
     (let t = new_torrent_from_bt_torrent now torrent
      in case upsert C t (f_coll f) of
           Ok db \<Rightarrow>
             (let f = event ''torrent_upsert'' (f\<lparr>f_coll := db\<rparr>)
              in case json_marshal t of
                   Ok raw \<Rightarrow>
                     (case pub of
                        Ok _ \<Rightarrow>
                          (let f = f\<lparr>f_published := f_published f @ [(topic_new_torrent, raw)]\<rparr>
                           in obind (bloom_add B hash (bt_t_info_hash torrent) (f_bloom f)) (\<lambda>bf.
                                Ok (event ''new_torrent'' (f\<lparr>f_bloom := bf\<rparr>))))
                      | _ \<Rightarrow> Ok f)
                 | _ \<Rightarrow> Ok f)
         | _ \<Rightarrow> Ok f)"

text \<open>
  The task of the executor. \<open>decode\<close> is the \<^verbatim>\<open>mapstructure\<close> decoder, a third-party package: it fills the
  torrent it is given from the metadata.
\<close>

definition preset_torrent :: "bytes \<Rightarrow> bt_torrent" where
  "preset_torrent infoHash = \<lparr>bt_t_info_hash = infoHash, bt_t_name = [], bt_t_piece_length = 0, bt_t_pieces = [],
     bt_t_publisher = [], bt_t_files = [], bt_t_source = [], bt_t_other = []\<rparr>"

definition pull_torrent ::
    "'bm bitmap_ops \<Rightarrow> (bytes \<Rightarrow> 64 word) \<Rightarrow> 'db coll \<Rightarrow> (bytes \<Rightarrow> bytes) \<Rightarrow> (string \<Rightarrow> conn outcome)
     \<Rightarrow> ((string \<times> bytes any) list \<Rightarrow> bt_torrent \<Rightarrow> bt_torrent outcome) \<Rightarrow> bytes \<Rightarrow> unit outcome \<Rightarrow> time
     \<Rightarrow> bit_torrent \<Rightarrow> ('bm, 'db) fetcher \<Rightarrow> ('bm, 'db) fetcher outcome" where
  "pull_torrent B hash C sha1 dial decode peerID pub now bt f =
     (let f = event ''pull_torrent'' f
      in case bt_start dial bt of
           Ok bt \<Rightarrow>
             (case get_metadata sha1 peerID bt of
                Ok (metadata, bt) \<Rightarrow>
                  (case decode metadata (preset_torrent (bt_info_hash bt)) of
                     Ok torrent \<Rightarrow>
                       if length (bt_t_name torrent) > 0 then handle_torrent B hash C pub now torrent f else Ok f
                   | Err e \<Rightarrow> Ok (event ''decode_fail'' f)
                   | Panic p \<Rightarrow> Panic p)
              | Err e \<Rightarrow> Ok (event ''metadata_fail'' f)
              | Panic p \<Rightarrow> Panic p)
         | Err e \<Rightarrow> Ok (event ''connect_fail'' f)
         | Panic p \<Rightarrow> Panic p)"

text \<open>
  \<^verbatim>\<open>Stop\<close> cancels, writes the filter to a temporary file and renames it over the filter's file; any
  error is a panic. \<open>wr\<close> writes the temporary file, \<open>create\<close>, \<open>close\<close> and \<open>rename\<close> are what these calls return.
\<close>

definition fetcher_stop ::
    "'bm bitmap_ops \<Rightarrow> unit outcome \<Rightarrow> (bytes \<Rightarrow> bytes \<Rightarrow> bytes outcome) \<Rightarrow> unit outcome \<Rightarrow> unit outcome
     \<Rightarrow> ('bm, 'db) fetcher \<Rightarrow> ('bm, 'db) fetcher \<times> unit outcome" where
  "fetcher_stop B create wr close rename f =
     (let f = f\<lparr>f_cancelled := True, f_executor := executor_stop (f_executor f)\<rparr>
      in if is_ok create
         then case bloom_save B wr (f_bloom f) [] of
                Ok tmp \<Rightarrow> if is_ok close \<and> is_ok rename then (f\<lparr>f_file := Some tmp\<rparr>, Ok ())
                          else (f, Panic ExplicitPanic)
              | _ \<Rightarrow> (f, Panic ExplicitPanic)
         else (f, Panic ExplicitPanic))"

text \<open>\<^verbatim>\<open>InjectTorrentFetcher\<close>: a fetcher that cannot be made is a panic.\<close>

definition inject_torrent_fetcher :: "('bm, 'db) fetcher outcome \<Rightarrow> ('bm, 'db) fetcher outcome" where
  "inject_torrent_fetcher r = (case r of Ok f \<Rightarrow> Ok f | Err e \<Rightarrow> Panic ExplicitPanic | Panic p \<Rightarrow> Panic p)"

text \<open>
  \<^verbatim>\<open>Start\<close> launches three goroutines: the existence check (\<^const>\<open>check_exist_one\<close> per iteration), the workers
  of the executor, and the statistics, which copy the length of the channel into a gauge every second
  until the context is cancelled.
\<close>

definition fetcher_start :: "('bm, 'db) fetcher \<Rightarrow> ('bm, 'db) fetcher" where
  "fetcher_start f = f\<lparr>f_executor := executor_start (f_executor f)\<rparr>"

definition fetcher_stats_tick :: "('bm, 'db) fetcher \<Rightarrow> ('bm, 'db) fetcher option" where
  "fetcher_stats_tick f =
     (if f_cancelled f then None else Some (f\<lparr>f_gauges := f_gauges f @ [(''db_check_exists'', length (f_unchecked f))]\<rparr>))"

section \<open>Lemmas\<close>

lemma event_frame [simp]:
  "f_coll (event e f) = f_coll f" "f_bloom (event e f) = f_bloom f" "f_executor (event e f) = f_executor f"
  "f_unchecked (event e f) = f_unchecked f" "f_published (event e f) = f_published f" "f_max_queue (event e f) = f_max_queue f"
  by (simp_all add: event_def)

lemma bloom_exists_added:
  assumes "bitmap_laws B" "bf_m bf \<noteq> 0" "bloom_add B hash d bf = Ok bf'"
  shows "bloom_exists B hash bf' d = Ok True \<and> bf_m bf' \<noteq> 0"
proof -
  obtain g where g: "bloom_add B hash d bf = Ok g" "bf_m g = bf_m bf" "bf_k g = bf_k bf"
    "\<forall>x. bm_contains B (bf_keys g) x \<longleftrightarrow> x \<in> locs hash bf d \<or> bm_contains B (bf_keys bf) x"
    using bloom_add_ok [OF assms(1,2)] by blast
  have "locs hash g d = locs hash bf d" using locs_cong [OF g(2,3)] by simp
  with g assms(2,3) show ?thesis by (simp add: bloom_exists_iff)
qed

lemma handle_torrent_new:
  assumes "handle_torrent B hash C pub now torrent f = Ok f'" "f_published f' \<noteq> f_published f"
  obtains db bf where "upsert C (new_torrent_from_bt_torrent now torrent) (f_coll f) = Ok db"
    "bloom_add B hash (bt_t_info_hash torrent) (f_bloom f) = Ok bf"
    "f_coll f' = db" "f_bloom f' = bf" "f_unchecked f' = f_unchecked f" "f_executor f' = f_executor f"
    "f_published f' = f_published f @ [(topic_new_torrent, Payload (json_torrent (new_torrent_from_bt_torrent now torrent)))]"
  using assms
  by (auto simp: handle_torrent_def json_marshal_def Let_def obind_eq_Ok split: outcome.splits)

lemma handle_torrent_coll:
  assumes "handle_torrent B hash C pub now torrent f = Ok f'" "f_coll f' \<noteq> f_coll f"
  shows "upsert C (new_torrent_from_bt_torrent now torrent) (f_coll f) = Ok (f_coll f')"
  using assms
  by (auto simp: handle_torrent_def json_marshal_def Let_def obind_eq_Ok split: outcome.splits)

lemma stored_id: "t_info_hash (new_torrent_from_bt_torrent now torrent) = hex_encode (bt_t_info_hash torrent)"
  by (simp add: new_torrent_from_bt_torrent_def add_bt_files_eq zero_torrent_def wrap64_0)

lemma stored_name: "t_name (new_torrent_from_bt_torrent now torrent) = bt_t_name torrent"
  by (simp add: new_torrent_from_bt_torrent_def add_bt_files_eq zero_torrent_def wrap64_0)

lemma pull_torrent_coll:
  assumes "pull_torrent B hash C sha1 dial decode peerID pub now bt f = Ok f'" "f_coll f' \<noteq> f_coll f"
  obtains bt1 bt2 md torrent where "bt_start dial bt = Ok bt1" "get_metadata sha1 peerID bt1 = Ok (md, bt2)"
    "decode md (preset_torrent (bt_info_hash bt2)) = Ok torrent" "bt_t_name torrent \<noteq> []"
    "upsert C (new_torrent_from_bt_torrent now torrent) (f_coll f) = Ok (f_coll f')"
  using assms handle_torrent_coll [of B hash C pub now _ "event ''pull_torrent'' f" f']
  by (auto simp: pull_torrent_def Let_def split: outcome.splits if_splits)

text \<open>The metadata behind a change of the collection.\<close>

lemma pull_torrent_verified:
  assumes "pull_torrent B hash C sha1 dial decode peerID pub now bt f = Ok f'" "f_coll f' \<noteq> f_coll f"
  obtains raw d off md torrent where "sha1 raw = bt_info_hash bt" "bdecode_dict raw = Ok (d, off)"
    "md = map (map_prod id (map_any (span_read raw))) d" "decode md (preset_torrent (bt_info_hash bt)) = Ok torrent"
    "bt_t_name torrent \<noteq> []" "upsert C (new_torrent_from_bt_torrent now torrent) (f_coll f) = Ok (f_coll f')"
proof -
  obtain bt1 bt2 md torrent where *: "bt_start dial bt = Ok bt1" "get_metadata sha1 peerID bt1 = Ok (md, bt2)"
    "decode md (preset_torrent (bt_info_hash bt2)) = Ok torrent" "bt_t_name torrent \<noteq> []"
    "upsert C (new_torrent_from_bt_torrent now torrent) (f_coll f) = Ok (f_coll f')"
    by (rule pull_torrent_coll [OF assms(1,2)])
  have h1: "bt_info_hash bt1 = bt_info_hash bt"
    using *(1) by (auto simp: bt_start_def obind_eq_Ok split: option.splits)
  obtain raw d off where g: "kept bt2 = kept bt1" "sha1 raw = bt_info_hash bt1" "bdecode_dict raw = Ok (d, off)"
    "md = map (map_prod id (map_any (span_read raw))) d"
    by (rule get_metadata_effect [OF *(2)]) (rule that)
  have "bt_info_hash bt2 = bt_info_hash bt" using g(1) h1 by (simp add: kept_def)
  with * g h1 show thesis by (intro that) auto
qed

text \<open>A fetcher with an empty collection in memory, a peer with empty metadata and a decoder for the examples.\<close>

definition demo_fetcher :: "(64 word list, torrent list) fetcher" where
  "demo_fetcher = \<lparr>f_unchecked = [], f_bloom = new_bloom_filter list_bitmap 1024, f_executor = new_executor 1 2,
     f_proxy = None, f_max_queue = 2, f_coll = [], f_published = [], f_events = [], f_gauges = [], f_file = None, f_cancelled = False\<rparr>"

definition demo_dial :: "string \<Rightarrow> conn outcome" where
  "demo_dial addr = Ok \<lparr>cn_in = char_of (19 :: nat) # bt_protocol @ bt_reserved @ replicate 40 CHR ''p''
        @ frame (bt_msg_id # ext_handshake_id # ''d1:md11:ut_metadatai3ee13:metadata_sizei0ee''),
      cn_out = [], cn_budget = None\<rparr>"

definition demo_decode :: "(string \<times> bytes any) list \<Rightarrow> bt_torrent \<Rightarrow> bt_torrent outcome" where
  "demo_decode md t = Ok (t\<lparr>bt_t_name := ''demo'',
     bt_t_info_hash := (case map_of md ''InfoHash'' of Some (ABytes v) \<Rightarrow> v | _ \<Rightarrow> bt_t_info_hash t)\<rparr>)"

definition demo_hash :: "bytes \<Rightarrow> 64 word" where
  "demo_hash d = of_nat (length d)"

definition demo_torrent :: bt_torrent where
  "demo_torrent = \<lparr>bt_t_info_hash = ''hash'', bt_t_name = ''demo'', bt_t_piece_length = 0, bt_t_pieces = [],
     bt_t_publisher = [], bt_t_files = [], bt_t_source = [], bt_t_other = []\<rparr>"

lemma demo_peer_ok:
  "\<exists>bt. get_metadata (\<lambda>_. ''hash'') ''id'' ((set_traffic_metric_func (new_bit_torrent [] ''hash'' ''peer''))
      \<lparr>bt_conn := Some (case demo_dial ''peer'' of Ok c \<Rightarrow> c)\<rparr>) = Ok ([], bt) \<and> bt_info_hash bt = ''hash''"
proof -
  have "(case get_metadata (\<lambda>_. ''hash'') ''id'' ((set_traffic_metric_func (new_bit_torrent [] ''hash'' ''peer''))
      \<lparr>bt_conn := Some (case demo_dial ''peer'' of Ok c \<Rightarrow> c)\<rparr>) of
      Ok (md, bt) \<Rightarrow> md = [] \<and> bt_info_hash bt = ''hash'' | _ \<Rightarrow> False)"
    by code_simp
  then show ?thesis by (auto split: outcome.splits)
qed

lemma demo_pull:
  obtains f' where "pull_torrent list_bitmap demo_hash list_coll (\<lambda>_. ''hash'') demo_dial demo_decode ''id'' (Ok ()) 5
       (set_traffic_metric_func (new_bit_torrent [] ''hash'' ''peer'')) demo_fetcher = Ok f'" "f_coll f' \<noteq> f_coll demo_fetcher"
proof -
  let ?bt = "set_traffic_metric_func (new_bit_torrent [] ''hash'' ''peer'')"
  let ?c = "case demo_dial ''peer'' of Ok c \<Rightarrow> c"
  have "bt_start demo_dial ?bt = Ok (?bt\<lparr>bt_conn := Some ?c\<rparr>)"
    by (simp add: bt_start_def demo_dial_def set_traffic_metric_func_def new_bit_torrent_def)
  then have "\<exists>f'. pull_torrent list_bitmap demo_hash list_coll (\<lambda>_. ''hash'') demo_dial demo_decode ''id'' (Ok ()) 5
       ?bt demo_fetcher = Ok f' \<and> f_coll f' \<noteq> f_coll demo_fetcher"
    using demo_peer_ok
    by (auto simp: pull_torrent_def demo_decode_def handle_torrent_def list_coll_def json_marshal_def demo_fetcher_def
        event_def bloom_add_def get_locations_def new_bloom_filter_def Let_def)
  then show thesis using that by blast
qed

text \<open>A peer whose metadata names another hash.\<close>

definition hostile_metadata :: bytes where
  "hostile_metadata = ''d8:InfoHash6:victim4:name4:demoe''"

definition demo_sha1 :: "bytes \<Rightarrow> bytes" where
  "demo_sha1 raw = (if raw = hostile_metadata then ''hash'' else [])"

definition hostile_dial :: "string \<Rightarrow> conn outcome" where
  "hostile_dial addr = Ok \<lparr>cn_in = char_of (19 :: nat) # bt_protocol @ bt_reserved @ replicate 40 CHR ''p''
        @ frame (bt_msg_id # ext_handshake_id # ''d1:md11:ut_metadatai3ee13:metadata_sizei32ee'')
        @ frame (bt_msg_id # char_of (1 :: nat) # ''d8:msg_typei1e5:piecei0e10:total_sizei32ee'' @ hostile_metadata),
      cn_out = [], cn_budget = None\<rparr>"

lemma hostile_peer_ok:
  "\<exists>md bt. get_metadata demo_sha1 ''id'' ((set_traffic_metric_func (new_bit_torrent [] ''hash'' ''peer''))
      \<lparr>bt_conn := Some (case hostile_dial ''peer'' of Ok c \<Rightarrow> c)\<rparr>) = Ok (md, bt)"
proof -
  have "is_ok (get_metadata demo_sha1 ''id'' ((set_traffic_metric_func (new_bit_torrent [] ''hash'' ''peer''))
      \<lparr>bt_conn := Some (case hostile_dial ''peer'' of Ok c \<Rightarrow> c)\<rparr>))"
    by code_simp
  then show ?thesis by (auto simp: is_ok_iff)
qed

lemma hostile_pull:
  obtains f' where "pull_torrent list_bitmap demo_hash list_coll demo_sha1 hostile_dial demo_decode ''id'' (Ok ()) 5
       (set_traffic_metric_func (new_bit_torrent [] ''hash'' ''peer'')) demo_fetcher = Ok f'" "f_coll f' \<noteq> f_coll demo_fetcher"
proof -
  let ?bt = "set_traffic_metric_func (new_bit_torrent [] ''hash'' ''peer'')"
  let ?c = "case hostile_dial ''peer'' of Ok c \<Rightarrow> c"
  have "bt_start hostile_dial ?bt = Ok (?bt\<lparr>bt_conn := Some ?c\<rparr>)"
    by (simp add: bt_start_def hostile_dial_def set_traffic_metric_func_def new_bit_torrent_def)
  then have "\<exists>f'. pull_torrent list_bitmap demo_hash list_coll demo_sha1 hostile_dial demo_decode ''id'' (Ok ()) 5
       ?bt demo_fetcher = Ok f' \<and> f_coll f' \<noteq> f_coll demo_fetcher"
    using hostile_peer_ok
    by (auto simp: pull_torrent_def demo_decode_def handle_torrent_def list_coll_def json_marshal_def demo_fetcher_def
        event_def bloom_add_def get_locations_def new_bloom_filter_def Let_def)
  then show thesis using that by blast
qed

lemma demo_handle:
  "\<exists>f'. handle_torrent list_bitmap demo_hash list_coll (Ok ()) 5 demo_torrent demo_fetcher = Ok f' \<and> f_published f' \<noteq> []"
  by (simp add: handle_torrent_def list_coll_def json_marshal_def demo_fetcher_def event_def bloom_add_def
      get_locations_def new_bloom_filter_def Let_def)

section \<open>Properties\<close>

text \<open>
  Property C16. What is stored was verified: when the task changes the collection, it has upserted the
  decoding of metadata whose bytes have the announced hash, with a non-empty name; and under the
  hexadecimal form of that hash, when no key of the metadata is one that the decoder takes for the
  field \<^verbatim>\<open>InfoHash\<close> (the decoder changes only fields that some key names).
\<close>

theorem stored_torrent_verified:
  assumes "pull_torrent B hash C sha1 dial decode peerID pub now bt f = Ok f'" "f_coll f' \<noteq> f_coll f"
    and decoder_keeps_hash: "\<forall>md t t'. (\<forall>k \<in> fst ` set md. \<not> names_hash k) \<longrightarrow> decode md t = Ok t' \<longrightarrow>
      bt_t_info_hash t' = bt_t_info_hash t"
  shows "\<exists>raw d off md torrent t. sha1 raw = bt_info_hash bt \<and> bdecode_dict raw = Ok (d, off)
     \<and> md = map (map_prod id (map_any (span_read raw))) d \<and> decode md (preset_torrent (bt_info_hash bt)) = Ok torrent
     \<and> t = new_torrent_from_bt_torrent now torrent \<and> upsert C t (f_coll f) = Ok (f_coll f') \<and> t_name t \<noteq> []
     \<and> ((\<forall>k \<in> fst ` set md. \<not> names_hash k) \<longrightarrow> t_info_hash t = hex_encode (bt_info_hash bt))"
proof -
  obtain raw d off md torrent where *: "sha1 raw = bt_info_hash bt" "bdecode_dict raw = Ok (d, off)"
    "md = map (map_prod id (map_any (span_read raw))) d" "decode md (preset_torrent (bt_info_hash bt)) = Ok torrent"
    "bt_t_name torrent \<noteq> []" "upsert C (new_torrent_from_bt_torrent now torrent) (f_coll f) = Ok (f_coll f')"
    by (rule pull_torrent_verified [OF assms(1,2)])
  have "bt_t_info_hash torrent = bt_info_hash bt" if "\<forall>k \<in> fst ` set md. \<not> names_hash k"
    using decoder_keeps_hash that *(4) unfolding preset_torrent_def by fastforce
  then show ?thesis using * by (metis stored_id stored_name)
qed

theorem stored_torrent_verified_witness:
  "\<exists>f' t raw. pull_torrent list_bitmap demo_hash list_coll (\<lambda>_. ''hash'') demo_dial demo_decode ''id'' (Ok ()) 5
       (set_traffic_metric_func (new_bit_torrent [] ''hash'' ''peer'')) demo_fetcher = Ok f'
     \<and> upsert list_coll t [] = Ok (f_coll f') \<and> (\<lambda>_ :: bytes. ''hash'') raw = ''hash''"
proof -
  let ?bt = "set_traffic_metric_func (new_bit_torrent [] ''hash'' ''peer'')"
  obtain f' where f': "pull_torrent list_bitmap demo_hash list_coll (\<lambda>_. ''hash'') demo_dial demo_decode ''id'' (Ok ()) 5
       ?bt demo_fetcher = Ok f'" "f_coll f' \<noteq> f_coll demo_fetcher"
    by (rule demo_pull)
  have "\<forall>md t t'. (\<forall>k \<in> fst ` set md. \<not> k = ''InfoHash'') \<longrightarrow> demo_decode md t = Ok t' \<longrightarrow> bt_t_info_hash t' = bt_t_info_hash t"
    by (auto simp: demo_decode_def split: option.split any.split dest!: map_of_SomeD)
  from stored_torrent_verified [OF f' this] f'(1) show ?thesis by (auto simp: demo_fetcher_def)
qed



text \<open>
  A torrent that was stored and published is not fetched again: a later request for its
  hash goes through the bloom filter to the collection check, is found there, and does not reach the
  executor.
\<close>

lemma stored_torrent_not_refetched:
  assumes "bitmap_laws B" "coll_laws C" "bf_m (f_bloom f) \<noteq> 0"
    and "handle_torrent B hash C pub now torrent f = Ok f1" "f_published f1 \<noteq> f_published f"
    and "treq_info_hash req = bt_t_info_hash torrent" "f_unchecked f = []"
  shows "\<exists>f2 f3. fetcher_push B hash req f1 = Ok (Some f2) \<and> check_exist_one B hash C f2 = Ok (Some f3)
     \<and> f_executor f2 = f_executor f \<and> f_executor f3 = f_executor f"
proof -
  let ?t = "new_torrent_from_bt_torrent now torrent"
  obtain db bf where f1: "upsert C ?t (f_coll f) = Ok db" "bloom_add B hash (bt_t_info_hash torrent) (f_bloom f) = Ok bf"
    "f_coll f1 = db" "f_bloom f1 = bf" "f_unchecked f1 = []" "f_executor f1 = f_executor f"
    using handle_torrent_new [OF assms(4,5)] assms(7) by metis
  have ex: "bloom_exists B hash bf (treq_info_hash req) = Ok True" "bf_m bf \<noteq> 0"
    using bloom_exists_added [OF assms(1,3) f1(2)] assms(6) by auto
  have "find_by_id C (hex_encode (treq_info_hash req)) db = Ok ?t"
    using assms(2) f1(1) by (auto simp: coll_laws_def stored_id assms(6))
  moreover obtain bf' where "bloom_add B hash (treq_info_hash req) bf = Ok bf'"
    using bloom_add_ok [OF assms(1) ex(2)] by blast
  ultimately show ?thesis
    using f1(3-6) ex(1)
    by (simp add: fetcher_push_def check_exist_one_def unchecked_capacity_def event_def)
qed

lemma stored_torrent_not_refetched_example:
  "\<exists>f1 f2 f3. handle_torrent list_bitmap demo_hash list_coll (Ok ()) 5 demo_torrent demo_fetcher = Ok f1
     \<and> fetcher_push list_bitmap demo_hash \<lparr>treq_node_id = [], treq_info_hash = ''hash'', treq_addr = ''peer''\<rparr> f1 = Ok (Some f2)
     \<and> check_exist_one list_bitmap demo_hash list_coll f2 = Ok (Some f3) \<and> f_executor f3 = f_executor demo_fetcher"
proof -
  obtain f1 where f1: "handle_torrent list_bitmap demo_hash list_coll (Ok ()) 5 demo_torrent demo_fetcher = Ok f1"
    "f_published f1 \<noteq> f_published demo_fetcher"
    using demo_handle by (auto simp: demo_fetcher_def)
  from stored_torrent_not_refetched [OF list_bitmap_laws list_coll_laws _ f1,
      of "\<lparr>treq_node_id = [], treq_info_hash = ''hash'', treq_addr = ''peer''\<rparr>"] f1(1)
  show ?thesis by (auto simp: demo_fetcher_def demo_torrent_def new_bloom_filter_def)
qed

text \<open>
  Committing a request never waits: on a fetcher whose executor has the configured queue
  size, the request is either queued as the last task or dropped and counted, and the queue stays
  within its size.
\<close>

lemma fetcher_commit_never_waits:
  assumes "ex_queue_size (f_executor f) = f_max_queue f"
  shows "\<exists>f'. fetcher_commit req f = Some f' \<and> ex_queue_size (f_executor f') = f_max_queue f'
     \<and> (if queue_size (f_executor f) < f_max_queue f
         then (\<exists>bt. ex_tasks (f_executor f') = ex_tasks (f_executor f) @ [bt] \<and> bt_info_hash bt = treq_info_hash req
                 \<and> bt_addr bt = treq_addr req \<and> bt_metric_func bt)
         else f' = event ''drop_torrent'' f)"
  using assms
  by (auto simp: fetcher_commit_def commit_def queue_size_def set_traffic_metric_func_def new_bit_torrent_def Let_def)

lemma fetcher_commit_never_waits_example:
  "\<exists>f'. fetcher_commit \<lparr>treq_node_id = [], treq_info_hash = ''hash'', treq_addr = ''peer''\<rparr> demo_fetcher = Some f'
     \<and> (\<exists>bt. ex_tasks (f_executor f') = [bt] \<and> bt_info_hash bt = ''hash'')"
  using fetcher_commit_never_waits [of demo_fetcher "\<lparr>treq_node_id = [], treq_info_hash = ''hash'', treq_addr = ''peer''\<rparr>"]
  by (auto simp: demo_fetcher_def new_executor_def queue_size_def)

text \<open>
  A restart keeps the filter: what \<^verbatim>\<open>Stop\<close> leaves in the filter's file is loaded by the next
  start as the same filter.
\<close>

lemma fetcher_restart_keeps_filter:
  assumes "bitmap_laws B" "fetcher_stop B (Ok ()) (\<lambda>out bs. Ok (out @ bs)) (Ok ()) (Ok ()) f = (f', r)"
  shows "r = Ok () \<and> (\<exists>g. new_torrent_fetcher B (Ok None) (Ok (f_file f')) workers maxQueue db = Ok g \<and> f_bloom g = f_bloom f)"
proof -
  have "bm_read B (bm_write B bm) = Ok (bm, [])" for bm
    using assms(1) unfolding bitmap_laws_def by (metis append_Nil2)
  with assms show ?thesis
    by (auto simp: byte_roundtrip fetcher_stop_def bloom_save_def new_torrent_fetcher_def load_bloom_filter_def Let_def)
qed

lemma fetcher_restart_keeps_filter_example:
  "\<exists>f' g. fetcher_stop list_bitmap (Ok ()) (\<lambda>out bs. Ok (out @ bs)) (Ok ()) (Ok ()) demo_fetcher = (f', Ok ())
     \<and> new_torrent_fetcher list_bitmap (Ok None) (Ok (f_file f')) 1 2 ([] :: torrent list) = Ok g \<and> f_bloom g = f_bloom demo_fetcher"
proof -
  obtain f' r where f': "fetcher_stop list_bitmap (Ok ()) (\<lambda>out bs. Ok (out @ bs)) (Ok ()) (Ok ()) demo_fetcher = (f', r)"
    by fastforce
  from fetcher_restart_keeps_filter [OF list_bitmap_laws f', of 1 2 "[] :: torrent list"] f' show ?thesis by auto
qed

end
