(* ===== verification/Db_Persist.thy ===== *)
theory Db_Persist
  imports Doc_Collection
begin

text \<open>
  \<^verbatim>\<open>crawler/internal/svc/persist.go\<close>: the service that stores the torrents published on a topic. The
  subscriber and the router are a third-party library: what their constructors return is an argument,
  and the router is the list of its handlers. The lemmas show that a message is stored whole under its
  identifier, also over a document that changed after the message was published.
\<close>

section \<open>State\<close>

record 'db db_persist =
  p_queue :: string
  p_prefetch :: int
  p_handlers :: "(string \<times> string) list"
  p_coll :: 'db
  p_events :: "string list"
  p_running :: bool
  p_closed :: bool

definition handler_name_db_persist :: string where
  "handler_name_db_persist = ''db_persist''"

text \<open>\<open>subscriber\<close> and \<open>router\<close> are what the constructors of the subscriber and of the router return.\<close>

definition new_db_persist :: "unit outcome \<Rightarrow> unit outcome \<Rightarrow> int \<Rightarrow> 'db \<Rightarrow> 'db db_persist outcome" where
  "new_db_persist subscriber router prefetch db =
     obind subscriber (\<lambda>_. obind router (\<lambda>_.
       let ret = \<lparr>p_queue = ''db_persist'', p_prefetch = prefetch, p_handlers = [], p_coll = db, p_events = [],
                  p_running = False, p_closed = False\<rparr>
       in Ok (ret\<lparr>p_handlers := p_handlers ret @ [(handler_name_db_persist, topic_tracker_updated)]\<rparr>)))"

section \<open>Operations\<close>

text \<open>The handler of the router; an error is returned to the router, which gives the message back to the broker.\<close>

definition consume_new_torrent :: "'db coll \<Rightarrow> payload \<Rightarrow> 'db db_persist \<Rightarrow> 'db db_persist \<times> unit outcome" where
  "consume_new_torrent C msg p =
     (case json_unmarshal msg of
        Ok t \<Rightarrow>
          (case upsert C t (p_coll p) of
             Ok db \<Rightarrow> (p\<lparr>p_coll := db, p_events := p_events p @ [''torrent_upsert'']\<rparr>, Ok ())
           | Err e \<Rightarrow> (p, Err e)
           | Panic f \<Rightarrow> (p, Panic f))
      | Err e \<Rightarrow> (p, Err e)
      | Panic f \<Rightarrow> (p, Panic f))"

text \<open>\<^verbatim>\<open>Start\<close> runs the router until it ends, and logs its error.\<close>

definition persist_start :: "'db db_persist \<Rightarrow> 'db db_persist" where
  "persist_start p = p\<lparr>p_running := True\<rparr>"

definition persist_stop :: "'db db_persist \<Rightarrow> 'db db_persist" where
  "persist_stop p = p\<lparr>p_closed := True\<rparr>"

section \<open>Lemmas\<close>

lemma consume_new_torrent_Ok:
  assumes "consume_new_torrent C msg p = (p', r)"
  shows "(\<exists>t db. msg = Payload t \<and> upsert C t (p_coll p) = Ok db \<and> p' = p\<lparr>p_coll := db, p_events := p_events p @ [''torrent_upsert'']\<rparr>
      \<and> r = Ok ()) \<or> (p' = p \<and> \<not> is_ok r)"
  using assms by (auto simp: consume_new_torrent_def json_unmarshal_def split: payload.splits outcome.splits)

text \<open>A message that is not the text of a torrent is an error each time it is delivered.\<close>

lemma garbage_is_error: "consume_new_torrent C Garbage p = (p, Err ErrSyntax)"
  by (simp add: consume_new_torrent_def json_unmarshal_def)

section \<open>Properties\<close>

text \<open>
  The handler stores the document of the message, whatever the collection holds by then:
  an update of the same torrent between the publication of the message and its delivery is undone. The
  updates of other torrents stay.
\<close>

lemma persist_undoes_later_update:
  assumes "coll_laws C" "find_by_id C (t_info_hash t) (p_coll p) = Ok t"
    and "update_by_id C k g (p_coll p) = Ok db" "consume_new_torrent C (Payload t) (p\<lparr>p_coll := db\<rparr>) = (p', Ok ())"
  shows "find_by_id C (t_info_hash t) (p_coll p') = Ok t
     \<and> (k \<noteq> t_info_hash t \<longrightarrow> find_by_id C k (p_coll p') = map_outcome (on_doc g) (find_by_id C k (p_coll p)))"
proof -
  have u: "upsert C t db = Ok (p_coll p')"
    using consume_new_torrent_Ok [OF assms(4)] by auto
  have "find_by_id C x (p_coll p') = (if x = t_info_hash t then Ok t else find_by_id C x db)" for x
    using assms(1) u by (simp add: coll_laws_def)
  moreover have "find_by_id C k db = map_outcome (on_doc g) (find_by_id C k (p_coll p))"
    using assms(1,3) by (simp add: coll_laws_def)
  ultimately show ?thesis by simp
qed

lemma persist_undoes_later_update_example:
  "let t = zero_torrent\<lparr>t_info_hash := ''61''\<rparr>; g = (\<lambda>t. t\<lparr>t_seeders := Some 5\<rparr>)
   in \<exists>p p' db. new_db_persist (Ok ()) (Ok ()) 1 [t] = Ok p \<and> update_by_id list_coll ''61'' g (p_coll p) = Ok db
     \<and> map_outcome t_seeders (find_by_id list_coll ''61'' db) = Ok (Some 5)
     \<and> consume_new_torrent list_coll (Payload t) (p\<lparr>p_coll := db\<rparr>) = (p', Ok ())
     \<and> map_outcome t_seeders (find_by_id list_coll ''61'' (p_coll p')) = Ok None"
proof -
  let ?t = "zero_torrent\<lparr>t_info_hash := ''61''\<rparr>" and ?g = "\<lambda>t. t\<lparr>t_seeders := Some 5\<rparr>"
  obtain p where p: "new_db_persist (Ok ()) (Ok ()) 1 [?t] = Ok p" "p_coll p = [?t]"
    by (simp add: new_db_persist_def Let_def)
  obtain db where db: "update_by_id list_coll ''61'' ?g (p_coll p) = Ok db"
    "map_outcome t_seeders (find_by_id list_coll ''61'' db) = Ok (Some 5)"
    using p(2) by (simp add: list_coll_def list_update_def list_find_def)
  obtain p' where p': "consume_new_torrent list_coll (Payload ?t) (p\<lparr>p_coll := db\<rparr>) = (p', Ok ())"
    by (simp add: consume_new_torrent_def json_unmarshal_def list_coll_def)
  have f: "find_by_id list_coll (t_info_hash ?t) (p_coll p) = Ok ?t"
    using p(2) by (simp add: list_coll_def list_find_def)
  from persist_undoes_later_update [OF list_coll_laws f db(1) p'] p(1) db p'
  show ?thesis by (auto simp: Let_def zero_torrent_def)
qed

end
