(* ===== verification/Crawler.thy ===== *)
theory Crawler
  imports Net_Addr Lrw_Cache Torrent_Fetcher "HOL-Library.Sublist"
begin

text \<open>
  \<^verbatim>\<open>crawler/internal/svc/crawler.go\<close>: the DHT crawler. Its goroutines are connected by bounded channels:
  the listener fills \<open>rawPackets\<close>, the decoders turn them into \<open>decodedPackets\<close>, the handlers answer
  queries (\<open>outPackets\<close>), collect nodes (\<open>neighbours\<close>) and hand announced torrents to the fetcher.
  One definition per handler and per loop iteration. The lemmas show what is answered to a query, which
  nodes are queued, and which packets crash a handler.
\<close>

section \<open>Runs\<close>

text \<open>A step of a goroutine: done, waiting on a channel, or a panic (no loop recovers one).\<close>

datatype 'a run = Done 'a | Wait | Crash fault

primrec rbind :: "'a run \<Rightarrow> ('a \<Rightarrow> 'b run) \<Rightarrow> 'b run" where
  "rbind (Done x) f = f x"
| "rbind Wait f = Wait"
| "rbind (Crash p) f = Crash p"

definition run_option :: "'a option \<Rightarrow> 'a run" where
  "run_option x = (case x of None \<Rightarrow> Wait | Some y \<Rightarrow> Done y)"

text \<open>A call whose error the caller has already handled: only a panic is left.\<close>

definition run_outcome :: "'a outcome \<Rightarrow> (error \<Rightarrow> 'b run) \<Rightarrow> ('a \<Rightarrow> 'b run) \<Rightarrow> 'b run" where
  "run_outcome m onErr f = (case m of Ok x \<Rightarrow> f x | Err e \<Rightarrow> onErr e | Panic p \<Rightarrow> Crash p)"

section \<open>State\<close>

text \<open>
  \<open>c_heap\<close> holds the byte arrays (packet buffers, node identifiers). \<open>c_requests\<close> are the requests handed
  to the torrent fetcher, \<open>c_sent\<close> the datagrams written to the socket, \<open>c_metrics\<close> the updates of counters and gauges.
\<close>

text \<open>
  The interface variable \<^verbatim>\<open>conn\<close>: nil, open, or an interface that holds a nil pointer, which is what
  assigning the result of a failed \<^verbatim>\<open>net.ListenUDP\<close> to it leaves (such a value is not nil).
\<close>

datatype packet_conn = NoConn | NilUdpConn | OpenConn

record crawler =
  c_heap :: store
  c_node_id :: slice
  c_bootstrap :: "node list"
  c_neighbours :: "node list"
  c_neighbours_cap :: nat
  c_seen :: "(string, unit) lrw"
  c_tm :: transaction_manager
  c_raw :: "packet list"
  c_decoded :: "packet list"
  c_out :: "(bytes \<times> udp_addr) list"
  c_packet_cap :: nat
  c_max_queue :: int
  c_proxied :: bool
  c_conn :: packet_conn
  c_listeners :: nat
  c_stopped :: bool
  c_requests :: "torrent_request list"
  c_sent :: "(bytes \<times> udp_addr) list"
  c_metrics :: "(string \<times> string \<times> nat) list"

record crawler_config =
  cc_node_id :: string
  cc_proxied :: bool
  cc_packet_queue :: nat
  cc_max_queue :: nat
  cc_seen_ttl :: int
  cc_seen_size :: nat

text \<open>The counters and the gauge that \<^verbatim>\<open>init\<close> registers, each with one label.\<close>

definition crawler_vectors :: "(string \<times> string list) list" where
  "crawler_vectors =
     [(''dht_send'', [''type'']), (''dht_receive'', [''type'']), (''traffic'', [''type'']), (''queue_size'', [''type'']),
      (''crawler_event'', [''event''])]"

definition metric :: "string \<Rightarrow> string \<Rightarrow> nat \<Rightarrow> crawler \<Rightarrow> crawler" where
  "metric counter label n c = c\<lparr>c_metrics := c_metrics c @ [(counter, label, n)]\<rparr>"

text \<open>
  Every bootstrap address that resolves becomes a node with our own identifier (the source resolves
  them concurrently; theory \<^verbatim>\<open>Bootstrap_Race\<close> shows that every outcome is this one for a selection of the addresses).
\<close>

definition set_bootstrap_nodes :: "udp_addr outcome list \<Rightarrow> crawler \<Rightarrow> crawler" where
  "set_bootstrap_nodes addrs c =
     c\<lparr>c_bootstrap := concat (map (\<lambda>r. case r of
         Ok a \<Rightarrow> [\<lparr>node_raw_ip = nil_slice, node_raw_port = nil_slice, node_addr = a, node_id = c_node_id c\<rparr>]
       | _ \<Rightarrow> []) addrs)\<rparr>"

definition set_max_queue_size :: "int \<Rightarrow> crawler \<Rightarrow> crawler" where
  "set_max_queue_size n c = c\<lparr>c_max_queue := n\<rparr>"

text \<open>\<open>gen\<close> is a generated identifier, \<open>listen\<close> whether the listen address resolves.\<close>

definition new_crawler ::
    "crawler_config \<Rightarrow> bytes \<Rightarrow> unit outcome \<Rightarrow> udp_addr outcome list \<Rightarrow> crawler outcome" where
  "new_crawler conf gen listen addrs =
     (let (h, nid) = (if length (cc_node_id conf) > 0
                      then case hex_decode (cc_node_id conf) of Ok b \<Rightarrow> alloc [] b | _ \<Rightarrow> ([[]], nil_slice)
                      else alloc [] gen)
      in obind listen (\<lambda>_.
           Ok (set_bootstrap_nodes addrs
             \<lparr>c_heap = h, c_node_id = nid, c_bootstrap = [], c_neighbours = [],
              c_neighbours_cap = cc_max_queue conf,
              c_seen = new_lrw_cache (cc_seen_ttl conf) (cc_seen_size conf) False,
              c_tm = \<lparr>tm_next = 0\<rparr>, c_raw = [], c_decoded = [], c_out = [],
              c_packet_cap = cc_packet_queue conf, c_max_queue = int (cc_max_queue conf),
              c_proxied = cc_proxied conf, c_conn = NoConn, c_listeners = 0, c_stopped = False, c_requests = [], c_sent = [], c_metrics = []\<rparr>)))"

text \<open>\<^verbatim>\<open>InjectCrawler\<close>: a crawler that cannot be made is a panic.\<close>

definition inject_crawler :: "crawler outcome \<Rightarrow> crawler outcome" where
  "inject_crawler r = (case r of Ok c \<Rightarrow> Ok c | Err e \<Rightarrow> Panic ExplicitPanic | Panic p \<Rightarrow> Panic p)"

section \<open>Connection\<close>

definition crawler_connect :: "unit outcome \<Rightarrow> crawler \<Rightarrow> crawler \<times> unit outcome" where
  "crawler_connect listen c =
     (if c_conn c \<noteq> NoConn then (c, Ok ())
      else case listen of
             Ok _ \<Rightarrow> (c\<lparr>c_conn := OpenConn, c_listeners := c_listeners c + 1\<rparr>, Ok ())
           | e \<Rightarrow> (if c_proxied c then c else c\<lparr>c_conn := NilUdpConn\<rparr>, e))"

text \<open>Closing or writing through a nil pointer is a panic: the methods select a field of it.\<close>

definition crawler_disconnect :: "crawler \<Rightarrow> crawler run" where
  "crawler_disconnect c =
     (case c_conn c of NoConn \<Rightarrow> Done c | NilUdpConn \<Rightarrow> Crash NilDereference | OpenConn \<Rightarrow> Done (c\<lparr>c_conn := NoConn\<rparr>))"

definition crawler_reconnect :: "unit outcome \<Rightarrow> crawler \<Rightarrow> (crawler \<times> unit outcome) run" where
  "crawler_reconnect listen c = rbind (crawler_disconnect c) (\<lambda>c. Done (crawler_connect listen c))"

text \<open>\<^verbatim>\<open>Start\<close> up to running the loops, which are below.\<close>

definition crawler_start :: "unit outcome \<Rightarrow> crawler \<Rightarrow> crawler run" where
  "crawler_start listen c =
     (case crawler_connect listen c of
        (c, Ok _) \<Rightarrow> Done c
      | (c, Err e) \<Rightarrow> Crash ExplicitPanic
      | (c, Panic p) \<Rightarrow> Crash p)"

definition crawler_stop :: "crawler \<Rightarrow> crawler run" where
  "crawler_stop c = rbind (crawler_disconnect c) (\<lambda>c. Done (c\<lparr>c_stopped := True\<rparr>))"

section \<open>Sending\<close>

definition send_packet :: "packet \<Rightarrow> udp_addr \<Rightarrow> crawler \<Rightarrow> (packet \<times> crawler) run" where
  "send_packet pkt addr c =
     (let pkt = pkt\<lparr>p_addr := Some addr\<rparr>
      in run_outcome (packet_encode (c_heap c) pkt) (\<lambda>e. Done (pkt, c)) (\<lambda>(encoded, h, pkt).
           if length (c_out c) < c_packet_cap c
           then Done (pkt, c\<lparr>c_heap := h, c_out := c_out c @ [(encoded, addr)]\<rparr>)
           else Wait))"

definition send_find_node :: "slice \<Rightarrow> slice \<Rightarrow> udp_addr \<Rightarrow> crawler \<Rightarrow> crawler run" where
  "send_find_node nodeID target addr c =
     (let req = new_find_node_request nodeID target;
          (tid, tm) = next_transaction_id (c_tm c);
          (h, t) = alloc (c_heap c) tid;
          c = c\<lparr>c_tm := tm, c_heap := h\<rparr>
      in rbind (send_packet (set_t (Some t) req) addr c) (\<lambda>(pkt, c).
           Done (metric ''traffic'' ''out_find_node'' (packet_size pkt) (metric ''dht_send'' ''find_node'' 1 c))))"

definition send_ping :: "udp_addr \<Rightarrow> crawler \<Rightarrow> crawler run" where
  "send_ping addr c =
     (let req = new_ping_request (c_node_id c);
          (tid, tm) = next_transaction_id (c_tm c);
          (h, t) = alloc (c_heap c) tid;
          c = c\<lparr>c_tm := tm, c_heap := h\<rparr>
      in rbind (send_packet (set_t (Some t) req) addr c) (\<lambda>(pkt, c).
           Done (metric ''traffic'' ''out_ping'' (packet_size pkt) (metric ''dht_send'' ''ping'' 1 c))))"

section \<open>Handlers\<close>

fun on_find_node_response_loop :: "node list \<Rightarrow> crawler \<Rightarrow> crawler run" where
  "on_find_node_response_loop [] c = Done c"
| "on_find_node_response_loop (node # nodes) c =
     (if c_max_queue c > 0 \<and> int (length (c_neighbours c)) \<ge> c_max_queue c
      then Done (metric ''crawler_event'' ''drop_node'' 1 c)
      else if \<not> is_unspecified (ip (node_addr node))
              \<and> sl_read (c_heap c) (c_node_id c) \<noteq> sl_read (c_heap c) (node_id node)
              \<and> port (node_addr node) < 65536 \<and> port (node_addr node) > 0
      then let key = udp_addr_string (node_addr node)
           in (case cache_get (c_seen c) key of
                 None \<Rightarrow>
                   rbind (run_option (cache_set key () (c_seen c))) (\<lambda>seen.
                     if length (c_neighbours c) < c_neighbours_cap c
                     then on_find_node_response_loop nodes
                            (metric ''crawler_event'' ''queue_node'' 1
                              (c\<lparr>c_seen := seen, c_neighbours := c_neighbours c @ [node]\<rparr>))
                     else Wait)
               | Some _ \<Rightarrow> on_find_node_response_loop nodes (metric ''crawler_event'' ''seen_node'' 1 c))
      else on_find_node_response_loop nodes c)"

definition on_find_node_response :: "node list \<Rightarrow> crawler \<Rightarrow> crawler run" where
  "on_find_node_response nodes c = on_find_node_response_loop nodes (metric ''dht_receive'' ''find_node'' 1 c)"

definition on_get_peers_request :: "packet \<Rightarrow> udp_addr \<Rightarrow> crawler \<Rightarrow> crawler run" where
  "on_get_peers_request req addr c =
     (let c = metric ''dht_receive'' ''get_peers'' 1 c
      in run_outcome (get_t req) (\<lambda>_. Done c) (\<lambda>tid.
           case tid of
             None \<Rightarrow> Done c
           | Some t \<Rightarrow>
               (case gp_info_hash req of
                  None \<Rightarrow> Done c
                | Some nid \<Rightarrow>
                    if sl_len nid < 20 then Done c
                    else run_outcome (get_neighbour_id (c_heap c) nid (c_node_id c)) (\<lambda>_. Done c) (\<lambda>(h, nb).
                           let c = c\<lparr>c_heap := h\<rparr>;
                               res = set_t (Some t) (new_get_peers_response nb (gp_token req))
                           in rbind (send_packet res addr c) (\<lambda>(res, c).
                                Done (metric ''traffic'' ''out_get_peers_response'' (packet_size res)
                                  (metric ''dht_send'' ''get_peers_response'' 1 c)))))))"

definition slice_of :: "slice option \<Rightarrow> slice" where
  "slice_of s = (case s of None \<Rightarrow> nil_slice | Some s \<Rightarrow> s)"

definition read_opt :: "store \<Rightarrow> slice option \<Rightarrow> bytes" where
  "read_opt h s = (case s of None \<Rightarrow> [] | Some s \<Rightarrow> sl_read h s)"

definition on_announce_peer_request :: "packet \<Rightarrow> udp_addr \<Rightarrow> crawler \<Rightarrow> crawler run" where
  "on_announce_peer_request req addr c =
     (let c = metric ''dht_receive'' ''announce_peer'' 1 c
      in run_outcome (get_t req) (\<lambda>_. Done c) (\<lambda>tid.
         run_outcome (get_neighbour_id (c_heap c) (slice_of (ap_node_id req)) (c_node_id c)) (\<lambda>_. Done c) (\<lambda>(h, nb).
           let c = c\<lparr>c_heap := h\<rparr>;
               res = set_t tid (new_empty_response_packet nb)
           in rbind (send_packet res addr c) (\<lambda>(res, c).
              let c = metric ''traffic'' ''out_announce_peer_response'' (packet_size res)
                        (metric ''dht_send'' ''announce_peer_response'' 1 c);
                  a = (if ap_implied_port req = 0
                       then ip_string (ip addr) @ '':'' @ itoa (ap_port req)
                       else udp_addr_string addr)
              in Done (c\<lparr>c_requests := c_requests c @
                   [\<lparr>treq_node_id = sl_read (c_heap c) (c_node_id c),
                     treq_info_hash = read_opt (c_heap c) (ap_info_hash req),
                     treq_addr = a\<rparr>]\<rparr>)))))"

definition on_message :: "packet \<Rightarrow> udp_addr \<Rightarrow> crawler \<Rightarrow> crawler run" where
  "on_message packet addr c =
     run_outcome (get_y (c_heap c) packet) (\<lambda>_. Done c) (\<lambda>y.
       if y = ''r''
       then if check_map_path (p_data packet) ''r.nodes''
            then run_outcome (new_find_node_response (c_heap c) packet)
                   (\<lambda>_. Crash NilDereference)
                   (\<lambda>res. rbind (on_find_node_response (fnr_nodes res) c) (\<lambda>c.
                      Done (metric ''traffic'' ''in_find_node_response'' (packet_size packet) c)))
            else Done c
       else if y = ''q''
       then run_outcome (get_q (c_heap c) packet) (\<lambda>_. Done c) (\<lambda>q.
              if q = ''get_peers''
              then rbind (on_get_peers_request packet addr c) (\<lambda>c.
                     Done (metric ''traffic'' ''in_get_peers'' (packet_size packet) c))
              else if q = ''announce_peer''
              then rbind (on_announce_peer_request packet addr c) (\<lambda>c.
                     Done (metric ''traffic'' ''in_announce_peer'' (packet_size packet) c))
              else Done c)
       else if y = ''e''
       then Done (metric ''traffic'' ''in_error'' (packet_size packet) (metric ''dht_receive'' ''error'' 1 c))
       else Done (metric ''traffic'' ''in_unknown'' (packet_size packet) c))"

section \<open>Loop iterations\<close>

text \<open>
  A tick of \<^verbatim>\<open>bootstrap\<close>: the gauges of the queues, among them that of the fetcher's executor (\<open>fetching\<close>), and
  the bootstrap nodes if there are no neighbours. The model sends them as one block.
\<close>

definition queue_gauges :: "nat \<Rightarrow> crawler \<Rightarrow> crawler" where
  "queue_gauges fetching c =
     metric ''queue_size'' ''torrent_fetcher'' fetching
    (metric ''queue_size'' ''outgoing_packets'' (length (c_out c))
    (metric ''queue_size'' ''decoded_packets'' (length (c_decoded c))
    (metric ''queue_size'' ''incoming_packets'' (length (c_raw c))
    (metric ''queue_size'' ''neighbours'' (length (c_neighbours c)) c))))"

definition bootstrap_tick :: "nat \<Rightarrow> crawler \<Rightarrow> crawler run" where
  "bootstrap_tick fetching c =
     (let c = queue_gauges fetching c
      in if length (c_neighbours c) = 0
         then if length (c_bootstrap c) \<le> c_neighbours_cap c
              then Done (c\<lparr>c_neighbours := c_neighbours c @ c_bootstrap c\<rparr>) else Wait
         else Done c)"

text \<open>\<^verbatim>\<open>listen\<close>, given what \<^verbatim>\<open>ReadFrom\<close> delivered: a datagram is copied into an array of its own.\<close>

definition listen_one :: "(bytes \<times> udp_addr) outcome \<Rightarrow> crawler \<Rightarrow> crawler run" where
  "listen_one rd c =
     (case rd of
        Ok (datagram, addr) \<Rightarrow>
          (let (h, msg) = alloc (c_heap c) (take 65536 datagram);
               pkt = (new_packet_from_buffer msg)\<lparr>p_addr := Some addr\<rparr>
           in if length (c_raw c) < c_packet_cap c
              then Done (c\<lparr>c_heap := h, c_raw := c_raw c @ [pkt]\<rparr>) else Wait)
      | _ \<Rightarrow> crawler_disconnect (c\<lparr>c_listeners := c_listeners c - 1\<rparr>))"

definition decode_one :: "crawler \<Rightarrow> crawler run" where
  "decode_one c =
     (case c_raw c of
        [] \<Rightarrow> Wait
      | pkt # pkts \<Rightarrow>
          (let c = c\<lparr>c_raw := pkts\<rparr>
           in run_outcome (packet_decode (c_heap c) pkt) (\<lambda>_. Done c) (\<lambda>pkt.
                if length (c_decoded c) < c_packet_cap c then Done (c\<lparr>c_decoded := c_decoded c @ [pkt]\<rparr>) else Wait)))"

definition handler_one :: "crawler \<Rightarrow> crawler run" where
  "handler_one c =
     (case c_decoded c of
        [] \<Rightarrow> Wait
      | pkt # pkts \<Rightarrow>
          (case p_addr pkt of
             None \<Rightarrow> Crash NilDereference
           | Some addr \<Rightarrow> on_message pkt addr (c\<lparr>c_decoded := pkts\<rparr>)))"

text \<open>\<open>listen\<close> and \<open>wr\<close> are what connecting and writing return.\<close>

definition send_one :: "unit outcome \<Rightarrow> unit outcome \<Rightarrow> crawler \<Rightarrow> crawler run" where
  "send_one listen wr c =
     (case c_out c of
        [] \<Rightarrow> Wait
      | (data, addr) # pkts \<Rightarrow>
          (let c = c\<lparr>c_out := pkts\<rparr>
           in if \<not> addr_parses addr then Done c
              else if port addr = 0 then Done c
              else let (c, r) = (if c_conn c \<noteq> NoConn then (c, Ok ()) else crawler_connect listen c)
                   in case r of
                        Ok _ \<Rightarrow> if c_conn c = NilUdpConn then Crash NilDereference
                                else (case wr of
                                        Ok _ \<Rightarrow> Done (c\<lparr>c_sent := c_sent c @ [(data, addr)]\<rparr>)
                                      | _ \<Rightarrow> crawler_disconnect c)
                      | _ \<Rightarrow> Done c))"

definition neighbour_one :: "bytes \<Rightarrow> crawler \<Rightarrow> crawler run" where
  "neighbour_one gen c =
     (case c_neighbours c of
        [] \<Rightarrow> Wait
      | node # nodes \<Rightarrow>
          (let c = c\<lparr>c_neighbours := nodes\<rparr>
           in run_outcome (get_neighbour_id (c_heap c) (node_id node) (c_node_id c)) (\<lambda>_. Done c) (\<lambda>(h, nb).
                let (h, target) = alloc h gen
                in send_find_node nb target (node_addr node) (c\<lparr>c_heap := h\<rparr>))))"

section \<open>Lemmas\<close>

lemma rbind_eq_Done: "rbind m f = Done y \<longleftrightarrow> (\<exists>x. m = Done x \<and> f x = Done y)"
  by (cases m) auto

lemma metric_frame [simp]:
  "c_heap (metric k l n c) = c_heap c" "c_node_id (metric k l n c) = c_node_id c"
  "c_neighbours (metric k l n c) = c_neighbours c" "c_neighbours_cap (metric k l n c) = c_neighbours_cap c"
  "c_seen (metric k l n c) = c_seen c" "c_out (metric k l n c) = c_out c" "c_packet_cap (metric k l n c) = c_packet_cap c"
  "c_max_queue (metric k l n c) = c_max_queue c" "c_requests (metric k l n c) = c_requests c"
  by (simp_all add: metric_def)

lemma small_slice: "slice_wf h s \<Longrightarrow> sl_len s < 2 ^ 63 \<Longrightarrow> is_int64 (int (length (sl_read h s)))"
  by (simp add: length_sl_read small_int64)

text \<open>An encodable packet is queued with its bencoding when there is room.\<close>

lemma send_packet_ok:
  assumes "encodable (sl_read (c_heap c)) (AMap (p_data pkt))" "length (c_out c) < c_packet_cap c"
  shows "\<exists>pkt' h. send_packet pkt addr c = Done (pkt', c\<lparr>c_heap := h,
     c_out := c_out c @ [(benc (sl_read (c_heap c)) (AMap (p_data pkt)), addr)]\<rparr>)
     \<and> (\<forall>u. slice_wf (c_heap c) u \<longrightarrow> sl_read h u = sl_read (c_heap c) u \<and> slice_wf h u)"
proof -
  have e: "bencode (sl_read (c_heap c)) (AMap (p_data pkt)) = Ok (benc (sl_read (c_heap c)) (AMap (p_data pkt)))"
    by (rule bencode_benc [OF assms(1)])
  obtain h b where a: "alloc (c_heap c) (benc (sl_read (c_heap c)) (AMap (p_data pkt))) = (h, b)" by fastforce
  have "p_data (pkt\<lparr>p_addr := Some addr\<rparr>) = p_data pkt" by simp
  then have "packet_encode (c_heap c) (pkt\<lparr>p_addr := Some addr\<rparr>) =
      Ok (benc (sl_read (c_heap c)) (AMap (p_data pkt)), h, pkt\<lparr>p_addr := Some addr, p_buf := b\<rparr>)"
    by (simp only: packet_encode_def e obind.simps a Let_def prod.case)
  then show ?thesis
    using assms(2) alloc_old [OF a]
    by (simp only: send_packet_def Let_def run_outcome_def outcome.case prod.case) auto
qed

lemma response_data:
  "p_data (set_t (Some t) (new_get_peers_response nb (Some tok))) =
     [(''r'', AMap [(''id'', ABytes nb), (''nodes'', AString []), (''token'', ABytes tok)]),
      (''t'', ABytes t), (''y'', AString ''r'')]"
  "p_data (set_t (Some t) (new_empty_response_packet nb)) =
     [(''r'', AMap [(''id'', ABytes nb)]), (''t'', ABytes t), (''y'', AString ''r'')]"
  by (simp_all add: set_t_def new_get_peers_response_def new_empty_response_packet_def packet_set_def set_y_def
      new_packet_def put_all_def any_of_slice_def less_char_def)

text \<open>The slices of a query that a handler reads: well formed, and the transaction outside the overwritten bytes.\<close>

definition clear_of :: "slice \<Rightarrow> slice \<Rightarrow> bool" where
  "clear_of u target \<longleftrightarrow> sl_arr u \<noteq> sl_arr target \<or> sl_off u + sl_len u \<le> sl_off target + 10 \<or> sl_off target + 20 \<le> sl_off u"

definition own_id_ok :: "crawler \<Rightarrow> bool" where
  "own_id_ok c \<longleftrightarrow> slice_wf (c_heap c) (c_node_id c) \<and> sl_len (c_node_id c) = 20"

lemma neighbour_of_query:
  assumes "own_id_ok c" "slice_wf (c_heap c) target" "sl_len target = 20"
  obtains h where "get_neighbour_id (c_heap c) target (c_node_id c) = Ok (h, target)"
    "sl_read h target = take 10 (sl_read (c_heap c) target) @ drop 10 (sl_read (c_heap c) (c_node_id c))"
    "\<And>u. slice_wf (c_heap c) u \<Longrightarrow> slice_wf h u"
    "\<And>u. slice_wf (c_heap c) u \<Longrightarrow> clear_of u target \<Longrightarrow> sl_read h u = sl_read (c_heap c) u"
proof -
  have o: "slice_wf (c_heap c) (c_node_id c)" "sl_len (c_node_id c) = 20" using assms(1) by (auto simp: own_id_ok_def)
  obtain h s where s: "get_neighbour_id (c_heap c) target (c_node_id c) = Ok (h, s)"
    "sl_read h s = take 10 (sl_read (c_heap c) target) @ drop 10 (sl_read (c_heap c) (c_node_id c))"
    "\<forall>u. slice_wf (c_heap c) u \<longrightarrow> slice_wf h u"
    using get_neighbour_id_ok [OF assms(2) o(1)] assms(3) o(2) by fastforce
  have "s = target\<lparr>sl_len := sl_len (c_node_id c)\<rparr>"
    by (rule get_neighbour_id_in_place [OF s(1)]) (use o assms(2,3) in \<open>auto simp: slice_wf_def\<close>)
  then have "s = target" using assms(3) o(2) by simp
  moreover have "sl_read h u = sl_read (c_heap c) u" if "slice_wf (c_heap c) u" "clear_of u target" for u
    using get_neighbour_id_frame [OF s(1) assms(2) o(1) that(1)] that(2) o(2) by (auto simp: clear_of_def)
  ultimately show thesis using s by (intro that [of h]) auto
qed

definition node_key :: "node \<Rightarrow> string" where
  "node_key n = udp_addr_string (node_addr n)"

definition usable :: "crawler \<Rightarrow> node \<Rightarrow> bool" where
  "usable c n \<longleftrightarrow> \<not> is_unspecified (ip (node_addr n)) \<and> sl_read (c_heap c) (c_node_id c) \<noteq> sl_read (c_heap c) (node_id n)
     \<and> port (node_addr n) < 65536 \<and> port (node_addr n) > 0"

lemma usable_metric [simp]: "usable (metric k l n c) = usable c"
  by (simp add: usable_def fun_eq_iff)

lemma seen_set_room:
  assumes "length (c_tokens q) < c_max_size q"
  shows "\<exists>q'. cache_set k v q = Some q' \<and> length (c_tokens q') = Suc (length (c_tokens q)) \<and> c_max_size q' = c_max_size q
     \<and> (\<forall>x. cache_get q' x = (if x = k then Some v else cache_get q x))"
  using assms by (auto simp: cache_set_def evict_def push_token_def store_entry_def cache_get_def)

lemma find_node_loop:
  assumes "0 < c_max_queue c" "c_max_queue c \<le> int (c_neighbours_cap c)"
    and "length (c_tokens (c_seen c)) + length nodes \<le> c_max_size (c_seen c)"
  shows "\<exists>c' ns. on_find_node_response_loop nodes c = Done c' \<and> c_neighbours c' = c_neighbours c @ ns \<and> subseq ns nodes
     \<and> list_all (usable c) ns \<and> distinct (map node_key ns)
     \<and> (\<forall>n \<in> set ns. cache_get (c_seen c) (node_key n) = None \<and> cache_get (c_seen c') (node_key n) = Some ())
     \<and> (\<forall>x. cache_get (c_seen c) x = Some () \<longrightarrow> cache_get (c_seen c') x = Some ())
     \<and> int (length (c_neighbours c')) \<le> max (int (length (c_neighbours c))) (c_max_queue c)"
  using assms
proof (induction nodes arbitrary: c)
  case (Cons n nodes)
  let ?full = "c_max_queue c > 0 \<and> int (length (c_neighbours c)) \<ge> c_max_queue c"
  consider (full) ?full | (skip) "\<not> ?full" "\<not> usable c n"
    | (seen) "\<not> ?full" "usable c n" "cache_get (c_seen c) (node_key n) = Some ()"
    | (fresh) "\<not> ?full" "usable c n" "cache_get (c_seen c) (node_key n) = None"
    by (cases "cache_get (c_seen c) (node_key n)") auto
  then show ?case
  proof cases
    case full
    then show ?thesis by simp
  next
    case skip
    then have "on_find_node_response_loop (n # nodes) c = on_find_node_response_loop nodes c"
      by (auto simp: usable_def)
    with Cons.IH [of c] Cons.prems show ?thesis by (fastforce intro: list_emb_Cons)
  next
    case seen
    let ?c = "metric ''crawler_event'' ''seen_node'' 1 c"
    have "on_find_node_response_loop (n # nodes) c = on_find_node_response_loop nodes ?c"
      using seen by (auto simp: usable_def node_key_def)
    moreover have "usable ?c = usable c" by (simp add: usable_def fun_eq_iff)
    ultimately show ?thesis using Cons.IH [of ?c] Cons.prems by (fastforce intro: list_emb_Cons)
  next
    case fresh
    obtain q where q: "cache_set (node_key n) () (c_seen c) = Some q" "length (c_tokens q) = Suc (length (c_tokens (c_seen c)))"
      "c_max_size q = c_max_size (c_seen c)" "\<forall>x. cache_get q x = (if x = node_key n then Some () else cache_get (c_seen c) x)"
      using seen_set_room [of "c_seen c" "node_key n" "()"] Cons.prems(3) by auto
    let ?c = "metric ''crawler_event'' ''queue_node'' 1 (c\<lparr>c_seen := q, c_neighbours := c_neighbours c @ [n]\<rparr>)"
    have step: "on_find_node_response_loop (n # nodes) c = on_find_node_response_loop nodes ?c"
      using fresh q(1) Cons.prems(1,2) by (auto simp: usable_def node_key_def run_option_def)
    have u: "usable ?c = usable c" by (simp add: usable_def fun_eq_iff)
    obtain c' ns where c': "on_find_node_response_loop nodes ?c = Done c'" "c_neighbours c' = c_neighbours ?c @ ns"
      "subseq ns nodes" "list_all (usable ?c) ns" "distinct (map node_key ns)"
      "\<forall>x \<in> set ns. cache_get (c_seen ?c) (node_key x) = None \<and> cache_get (c_seen c') (node_key x) = Some ()"
      "\<forall>x. cache_get (c_seen ?c) x = Some () \<longrightarrow> cache_get (c_seen c') x = Some ()"
      "int (length (c_neighbours c')) \<le> max (int (length (c_neighbours ?c))) (c_max_queue ?c)"
      using Cons.IH [of ?c] Cons.prems q(2,3) by auto
    have new: "node_key x \<noteq> node_key n \<and> cache_get (c_seen c) (node_key x) = None" if "x \<in> set ns" for x
    proof -
      have "cache_get q (node_key x) = None" using c'(6) that by simp
      with q(4) show ?thesis by (metis option.distinct(1))
    qed
    have "cache_get (c_seen c') (node_key n) = Some ()" using c'(7) q(4) by simp
    moreover have "node_key n \<notin> node_key ` set ns" using new by force
    ultimately show ?thesis
      using step c' u fresh q(4) new Cons.prems(1)
      by (intro exI [of _ c'] exI [of _ "n # ns"]) (auto simp del: on_find_node_response_loop.simps)
  qed
qed simp

text \<open>A crawler with identifier \<^verbatim>\<open>NNNNNNNNNNmmmmmmmmmm\<close> that holds the given datagram, for the examples below.\<close>

definition example_crawler :: "bytes \<Rightarrow> crawler" where
  "example_crawler msg = \<lparr>c_heap = [''NNNNNNNNNNmmmmmmmmmm'', msg],
     c_node_id = \<lparr>sl_arr = 0, sl_off = 0, sl_len = 20, sl_cap = 20\<rparr>, c_bootstrap = [], c_neighbours = [],
     c_neighbours_cap = 10, c_seen = new_lrw_cache 300 10 False, c_tm = \<lparr>tm_next = 0\<rparr>, c_raw = [], c_decoded = [],
     c_out = [], c_packet_cap = 10, c_max_queue = 10, c_proxied = False, c_conn = OpenConn, c_listeners = 1, c_stopped = False,
     c_requests = [], c_sent = [], c_metrics = []\<rparr>"

definition example_get_peers :: bytes where
  "example_get_peers =
     ''d1:ad2:id20:iiiiiiiiiiiiiiiiiiii9:info_hash20:HHHHHHHHHHhhhhhhhhhhe1:q9:get_peers1:t2:xx1:y1:qe''"

definition example_announce_peer :: bytes where
  "example_announce_peer =
     ''d1:ad2:id20:IIIIIIIIIIiiiiiiiiii12:implied_porti1e9:info_hash20:HHHHHHHHHHhhhhhhhhhhe1:q13:announce_peer1:t2:xx1:y1:qe''"

definition example_packet :: "bytes \<Rightarrow> packet outcome" where
  "example_packet msg = packet_decode [''NNNNNNNNNNmmmmmmmmmm'', msg]
     (new_packet_from_buffer \<lparr>sl_arr = 1, sl_off = 0, sl_len = length msg, sl_cap = length msg\<rparr>)"

section \<open>Properties\<close>

text \<open>
  The answer to a \<^verbatim>\<open>get_peers\<close> query with a transaction and an info hash of 20 bytes:
  exactly one response is queued for the sender, with its transaction, an empty node list, and as
  identifier the first ten bytes of the hash followed by the tail of our own. The token sent along is
  that identifier too, because the identifier has been written over the hash before the token is read.
\<close>

lemma get_peers_answered:
  assumes "own_id_ok c" "get_t req = Ok (Some t)" "gp_info_hash req = Some ih"
    and "slice_wf (c_heap c) t" "slice_wf (c_heap c) ih" "clear_of t ih" "sl_len t < 2 ^ 63"
    and "length (c_out c) < c_packet_cap c"
    and nb: "nb = take 10 (sl_read (c_heap c) ih) @ drop 10 (sl_read (c_heap c) (c_node_id c))"
  shows "\<exists>c'. on_get_peers_request req addr c = Done c' \<and> c_requests c' = c_requests c
     \<and> c_out c' = c_out c @ [(benc id (AMap
         [(''r'', AMap [(''id'', ABytes nb), (''nodes'', AString []), (''token'', ABytes nb)]),
          (''t'', ABytes (sl_read (c_heap c) t)), (''y'', AString ''r'')]), addr)]"
proof -
  have l: "sl_len ih = 20" and tok: "gp_token req = Some ih"
    using assms(3) by (auto simp: gp_info_hash_def gp_token_def split: option.splits if_splits)
  let ?c = "metric ''dht_receive'' ''get_peers'' 1 c"
  obtain h where h: "get_neighbour_id (c_heap c) ih (c_node_id c) = Ok (h, ih)" "sl_read h ih = nb"
      "slice_wf h ih" "slice_wf h t" "sl_read h t = sl_read (c_heap c) t"
    by (rule neighbour_of_query [OF assms(1,5) l]) (use assms(4-6) nb in auto)
  let ?res = "set_t (Some t) (new_get_peers_response ih (Some ih))"
  let ?c1 = "?c\<lparr>c_heap := h\<rparr>"
  have "length nb = 20" using length_sl_read [OF h(3)] h(2) l by simp
  then have "encodable (sl_read (c_heap ?c1)) (AMap (p_data ?res))"
    using h(2,5) small_slice [OF assms(4,7)] by (simp add: response_data small_int64 less_char_def)
  then obtain pkt h2 where s: "send_packet ?res addr ?c1 = Done (pkt, ?c1\<lparr>c_heap := h2,
       c_out := c_out ?c1 @ [(benc (sl_read (c_heap ?c1)) (AMap (p_data ?res)), addr)]\<rparr>)"
    using send_packet_ok [of ?c1 ?res addr] assms(8) by auto
  have "benc (sl_read (c_heap ?c1)) (AMap (p_data ?res)) = benc id (AMap
         [(''r'', AMap [(''id'', ABytes nb), (''nodes'', AString []), (''token'', ABytes nb)]),
          (''t'', ABytes (sl_read (c_heap c) t)), (''y'', AString ''r'')])"
    by (simp add: response_data h(2,5))
  with s show ?thesis
    using assms(2,3) h(1) l
    by (simp add: on_get_peers_request_def tok run_outcome_def Let_def del: benc.simps)
qed

lemma get_peers_answered_example:
  "\<exists>p c'. example_packet example_get_peers = Ok p
     \<and> on_get_peers_request p \<lparr>ip = ''abcd'', port = 80\<rparr> (example_crawler example_get_peers) = Done c'
     \<and> map snd (c_out c') = [\<lparr>ip = ''abcd'', port = 80\<rparr>]
     \<and> map fst (c_out c') = [benc id (AMap
         [(''r'', AMap [(''id'', ABytes ''HHHHHHHHHHmmmmmmmmmm''), (''nodes'', AString []),
                        (''token'', ABytes ''HHHHHHHHHHmmmmmmmmmm'')]),
          (''t'', ABytes ''xx''), (''y'', AString ''r'')])]"
proof -
  let ?c = "example_crawler example_get_peers"
  let ?s = "\<lambda>off n cap. \<lparr>sl_arr = 1, sl_off = off, sl_len = n, sl_cap = cap\<rparr>"
  let ?t = "?s 86 2 9" and ?ih = "?s 46 20 49"
  let ?p = "\<lparr>p_buf = ?s 0 95 95, p_data = [(''a'', AMap [(''id'', ABytes (?s 12 20 83)), (''info_hash'', ABytes ?ih)]),
      (''q'', ABytes (?s 72 9 23)), (''t'', ABytes ?t), (''y'', ABytes (?s 93 1 2))], p_addr = None\<rparr>"
  have p: "example_packet example_get_peers = Ok ?p" by code_simp
  have h: "own_id_ok ?c" "get_t ?p = Ok (Some ?t)" "gp_info_hash ?p = Some ?ih" "slice_wf (c_heap ?c) ?t"
    "slice_wf (c_heap ?c) ?ih" "clear_of ?t ?ih" by code_simp+
  have h2: "sl_len ?t < 2 ^ 63" "length (c_out ?c) < c_packet_cap ?c" by (simp_all add: example_crawler_def)
  have nb: "''HHHHHHHHHHmmmmmmmmmm'' = take 10 (sl_read (c_heap ?c) ?ih) @ drop 10 (sl_read (c_heap ?c) (c_node_id ?c))"
    by code_simp
  have t: "sl_read (c_heap ?c) ?t = ''xx''" and o: "c_out ?c = []" by code_simp+
  show ?thesis
    using p get_peers_answered [OF h h2 nb, of "\<lparr>ip = ''abcd'', port = 80\<rparr>"] by (fastforce simp only: t o append_Nil list.map fst_conv snd_conv)
qed

text \<open>
  An \<^verbatim>\<open>announce_peer\<close> query with a transaction and a 20-byte node identifier is answered with
  one response to the sender and hands exactly one request to the torrent fetcher: the announced hash,
  and the sender's address with the announced port, or with its own port when it asked for that.
\<close>

lemma announce_peer_handled:
  assumes "own_id_ok c" "get_t req = Ok (Some t)" "ap_node_id req = Some nid" "ap_info_hash req = Some ih"
    and "slice_wf (c_heap c) t" "slice_wf (c_heap c) nid" "slice_wf (c_heap c) ih" "sl_len nid = 20"
    and "clear_of t nid" "clear_of ih nid" "clear_of (c_node_id c) nid" "sl_len t < 2 ^ 63"
    and "length (c_out c) < c_packet_cap c"
    and nb: "nb = take 10 (sl_read (c_heap c) nid) @ drop 10 (sl_read (c_heap c) (c_node_id c))"
  shows "\<exists>c'. on_announce_peer_request req addr c = Done c'
     \<and> c_out c' = c_out c @ [(benc id (AMap [(''r'', AMap [(''id'', ABytes nb)]),
          (''t'', ABytes (sl_read (c_heap c) t)), (''y'', AString ''r'')]), addr)]
     \<and> c_requests c' = c_requests c @
         [\<lparr>treq_node_id = sl_read (c_heap c) (c_node_id c), treq_info_hash = sl_read (c_heap c) ih,
           treq_addr = (if ap_implied_port req = 0 then ip_string (ip addr) @ '':'' @ itoa (ap_port req)
                        else udp_addr_string addr)\<rparr>]"
proof -
  let ?c = "metric ''dht_receive'' ''announce_peer'' 1 c"
  have own: "slice_wf (c_heap c) (c_node_id c)" using assms(1) by (simp add: own_id_ok_def)
  obtain h where h: "get_neighbour_id (c_heap c) nid (c_node_id c) = Ok (h, nid)" "sl_read h nid = nb"
      "slice_wf h nid" "slice_wf h t" "slice_wf h ih" "slice_wf h (c_node_id c)" "sl_read h t = sl_read (c_heap c) t"
      "sl_read h ih = sl_read (c_heap c) ih" "sl_read h (c_node_id c) = sl_read (c_heap c) (c_node_id c)"
    by (rule neighbour_of_query [OF assms(1,6,8)]) (use assms(5-11) own nb in auto)
  let ?res = "set_t (Some t) (new_empty_response_packet nid)"
  let ?c1 = "?c\<lparr>c_heap := h\<rparr>"
  have "length nb = 20" using length_sl_read [OF h(3)] h(2) assms(8) by simp
  then have "encodable (sl_read (c_heap ?c1)) (AMap (p_data ?res))"
    using h(2,7) small_slice [OF assms(5,12)] by (simp add: response_data small_int64 less_char_def)
  then obtain pkt h2 where s: "send_packet ?res addr ?c1 = Done (pkt, ?c1\<lparr>c_heap := h2,
       c_out := c_out ?c1 @ [(benc (sl_read (c_heap ?c1)) (AMap (p_data ?res)), addr)]\<rparr>)"
      "\<forall>u. slice_wf h u \<longrightarrow> sl_read h2 u = sl_read h u \<and> slice_wf h2 u"
    using send_packet_ok [of ?c1 ?res addr] assms(13) by auto
  have "benc (sl_read (c_heap ?c1)) (AMap (p_data ?res)) = benc id (AMap [(''r'', AMap [(''id'', ABytes nb)]),
          (''t'', ABytes (sl_read (c_heap c) t)), (''y'', AString ''r'')])"
    by (simp add: response_data h(2,7))
  moreover have "sl_read h2 ih = sl_read (c_heap c) ih" "sl_read h2 (c_node_id c) = sl_read (c_heap c) (c_node_id c)"
    using s(2) h(5,6,8,9) by auto
  ultimately show ?thesis
    using s(1) assms(2-4) h(1)
    by (simp add: on_announce_peer_request_def slice_of_def read_opt_def run_outcome_def Let_def del: benc.simps)
qed

lemma announce_peer_handled_example:
  "\<exists>p c'. example_packet example_announce_peer = Ok p
     \<and> on_announce_peer_request p \<lparr>ip = ''abcd'', port = 80\<rparr> (example_crawler example_announce_peer) = Done c'
     \<and> c_requests c' = [\<lparr>treq_node_id = ''NNNNNNNNNNmmmmmmmmmm'', treq_info_hash = ''HHHHHHHHHHhhhhhhhhhh'',
          treq_addr = ''97.98.99.100:80''\<rparr>]"
proof -
  let ?c = "example_crawler example_announce_peer"
  let ?s = "\<lambda>off n cap. \<lparr>sl_arr = 1, sl_off = off, sl_len = n, sl_cap = cap\<rparr>"
  let ?t = "?s 109 2 9" and ?ih = "?s 64 20 54" and ?id = "?s 12 20 106"
  let ?p = "\<lparr>p_buf = ?s 0 118 118, p_data = [(''a'', AMap [(''id'', ABytes ?id), (''implied_port'', AInt 1),
      (''info_hash'', ABytes ?ih)]), (''q'', ABytes (?s 91 13 27)), (''t'', ABytes ?t), (''y'', ABytes (?s 116 1 2))],
      p_addr = None\<rparr>"
  let ?a = "\<lparr>ip = ''abcd'', port = 80\<rparr>"
  have p: "example_packet example_announce_peer = Ok ?p" by code_simp
  have h: "own_id_ok ?c" "get_t ?p = Ok (Some ?t)" "ap_node_id ?p = Some ?id" "ap_info_hash ?p = Some ?ih"
    "slice_wf (c_heap ?c) ?t" "slice_wf (c_heap ?c) ?id" "slice_wf (c_heap ?c) ?ih" "sl_len ?id = 20"
    "clear_of ?t ?id" "clear_of ?ih ?id" "clear_of (c_node_id ?c) ?id" by code_simp+
  have h2: "sl_len ?t < 2 ^ 63" "length (c_out ?c) < c_packet_cap ?c" by (simp_all add: example_crawler_def)
  have e: "sl_read (c_heap ?c) (c_node_id ?c) = ''NNNNNNNNNNmmmmmmmmmm''" "sl_read (c_heap ?c) ?ih = ''HHHHHHHHHHhhhhhhhhhh''"
    "(ap_implied_port ?p = 0) = False" "udp_addr_string ?a = ''97.98.99.100:80''" "c_requests ?c = []"
    by code_simp+
  show ?thesis
    using p announce_peer_handled [OF h h2 refl, of ?a] by (fastforce simp only: e append_Nil if_False)
qed

text \<open>
  Property C23. What a \<^verbatim>\<open>find_node\<close> response queues, as long as the cache of seen nodes has room: the
  handler does not wait; the queued nodes are, in order, nodes of the response with a usable address
  that are not ourselves, none of them seen before and no two with the same address, and all of them
  are remembered; the queue stays within the configured size.
\<close>

theorem find_node_queues_fresh:
  assumes "0 < c_max_queue c" "c_max_queue c \<le> int (c_neighbours_cap c)"
    and "length (c_tokens (c_seen c)) + length nodes \<le> c_max_size (c_seen c)"
  shows "\<exists>c' ns. on_find_node_response nodes c = Done c' \<and> c_neighbours c' = c_neighbours c @ ns \<and> subseq ns nodes
     \<and> list_all (usable c) ns \<and> distinct (map node_key ns)
     \<and> (\<forall>n \<in> set ns. cache_get (c_seen c) (node_key n) = None \<and> cache_get (c_seen c') (node_key n) = Some ())
     \<and> int (length (c_neighbours c')) \<le> max (int (length (c_neighbours c))) (c_max_queue c)"
  using find_node_loop [of "metric ''dht_receive'' ''find_node'' 1 c" nodes] assms
  by (fastforce simp: on_find_node_response_def)

theorem find_node_queues_fresh_witness:
  "let nid = \<lparr>sl_arr = 0, sl_off = 0, sl_len = 1, sl_cap = 1\<rparr>;
       n = \<lparr>node_raw_ip = nid, node_raw_port = nid, node_addr = \<lparr>ip = ''abcd'', port = 80\<rparr>, node_id = nid\<rparr>;
       c = \<lparr>c_heap = [''n''], c_node_id = nil_slice, c_bootstrap = [], c_neighbours = [], c_neighbours_cap = 10,
            c_seen = new_lrw_cache 300 10 False, c_tm = \<lparr>tm_next = 0\<rparr>, c_raw = [], c_decoded = [], c_out = [],
            c_packet_cap = 10, c_max_queue = 10, c_proxied = False, c_conn = OpenConn, c_listeners = 1, c_stopped = False, c_requests = [],
            c_sent = [], c_metrics = []\<rparr>
   in \<exists>c' ns. on_find_node_response [n, n] c = Done c' \<and> c_neighbours c' = ns \<and> distinct (map node_key ns)"
proof -
  let ?nid = "\<lparr>sl_arr = 0, sl_off = 0, sl_len = 1, sl_cap = 1\<rparr>"
  let ?n = "\<lparr>node_raw_ip = ?nid, node_raw_port = ?nid, node_addr = \<lparr>ip = ''abcd'', port = 80\<rparr>, node_id = ?nid\<rparr>"
  let ?c = "\<lparr>c_heap = [''n''], c_node_id = nil_slice, c_bootstrap = [], c_neighbours = [], c_neighbours_cap = 10,
            c_seen = new_lrw_cache 300 10 False, c_tm = \<lparr>tm_next = 0\<rparr>, c_raw = [], c_decoded = [], c_out = [],
            c_packet_cap = 10, c_max_queue = 10, c_proxied = False, c_conn = OpenConn, c_listeners = 1, c_stopped = False, c_requests = [],
            c_sent = [], c_metrics = []\<rparr>"
  have "0 < c_max_queue ?c" "c_max_queue ?c \<le> int (c_neighbours_cap ?c)"
    "length (c_tokens (c_seen ?c)) + length [?n, ?n] \<le> c_max_size (c_seen ?c)"
    by (simp_all add: new_lrw_cache_def)
  from find_node_queues_fresh [OF this] show ?thesis unfolding Let_def by fastforce
qed

text \<open>
  A response whose \<^verbatim>\<open>r\<close> is not a dictionary crashes the crawler: the path check accepts it,
  parsing it fails, and the handler goes on to use the missing result.
\<close>

lemma response_without_dictionary_crashes:
  assumes "get_y (c_heap c) packet = Ok ''r''" "get_t packet = Ok tid"
    "map_of (p_data packet) ''r'' = Some v" "\<not> is_map v"
  shows "on_message packet addr c = Crash NilDereference"
proof -
  have "check_map_path (p_data packet) ''r.nodes''"
    using get_by_path_two [of "''r''" "''nodes''" "p_data packet"] assms(3,4)
    by (cases v) (simp_all add: check_map_path_def check_loop_path_loop get_by_path_def)
  moreover have "new_find_node_response (c_heap c) packet = Err (Errorf ''illegal packet Data structure'')"
    using assms(2-4) by (cases v) (simp_all add: new_find_node_response_def packet_get_def)
  ultimately show ?thesis using assms(1) by (simp add: on_message_def run_outcome_def)
qed

lemma response_without_dictionary_crashes_example:
  "\<exists>p. packet_decode [''d1:r1:x1:y1:re''] (new_packet_from_buffer \<lparr>sl_arr = 0, sl_off = 0, sl_len = 14, sl_cap = 14\<rparr>) = Ok p
     \<and> (\<forall>c addr. c_heap c = [''d1:r1:x1:y1:re''] \<longrightarrow> on_message p addr c = Crash NilDereference)"
proof -
  let ?h = "[''d1:r1:x1:y1:re'']"
  let ?p = "\<lparr>p_buf = \<lparr>sl_arr = 0, sl_off = 0, sl_len = 14, sl_cap = 14\<rparr>,
     p_data = [(''r'', ABytes \<lparr>sl_arr = 0, sl_off = 6, sl_len = 1, sl_cap = 8\<rparr>),
               (''y'', ABytes \<lparr>sl_arr = 0, sl_off = 12, sl_len = 1, sl_cap = 2\<rparr>)], p_addr = None\<rparr>"
  have p: "packet_decode ?h (new_packet_from_buffer \<lparr>sl_arr = 0, sl_off = 0, sl_len = 14, sl_cap = 14\<rparr>) = Ok ?p"
    by code_simp
  have y: "get_y ?h ?p = Ok ''r''" by code_simp
  have t: "get_t ?p = Ok None" by (simp add: get_t_def)
  have r: "map_of (p_data ?p) ''r'' = Some (ABytes \<lparr>sl_arr = 0, sl_off = 6, sl_len = 1, sl_cap = 8\<rparr>)" by simp
  have "on_message ?p addr c = Crash NilDereference" if "c_heap c = ?h" for addr c
    using response_without_dictionary_crashes [of c ?p None, OF _ t r] y that by simp
  with p show ?thesis by blast
qed

end
