(* ===== verification/Crawler_System.thy ===== *)
theory Crawler_System
  imports Crawler
begin

text \<open>
  The goroutines of the crawler together: a step relation whose steps are the loop iterations of
  \<^verbatim>\<open>crawler/internal/svc/crawler.go\<close>, in any order and with any datagrams. The lemmas give the type invariant
  of the crawler: every slice it holds is a window of an allocated array, the channels keep their
  capacities, a queued packet has a sender, and no handler writes to the crawler's own identifier.
\<close>

section \<open>Steps\<close>

inductive crawler_step :: "crawler \<Rightarrow> crawler \<Rightarrow> bool" where
  cs_start: "crawler_start listen c = Done c' \<Longrightarrow> crawler_step c c'"
| cs_listen: "listen_one rd c = Done c' \<Longrightarrow> crawler_step c c'"
| cs_decode: "decode_one c = Done c' \<Longrightarrow> crawler_step c c'"
| cs_handle: "handler_one c = Done c' \<Longrightarrow> crawler_step c c'"
| cs_send: "send_one listen wr c = Done c' \<Longrightarrow> crawler_step c c'"
| cs_neighbour: "neighbour_one gen c = Done c' \<Longrightarrow> crawler_step c c'"
| cs_bootstrap: "bootstrap_tick fetching c = Done c' \<Longrightarrow> crawler_step c c'"
| cs_reconnect: "crawler_reconnect listen c = Done (c', r) \<Longrightarrow> crawler_step c c'"
| cs_stop: "crawler_stop c = Done c' \<Longrightarrow> crawler_step c c'"

inductive_cases crawler_stepE: "crawler_step c c'"

definition crawler_begin :: "bytes \<Rightarrow> crawler \<Rightarrow> bool" where
  "crawler_begin nid c \<longleftrightarrow> (\<exists>conf gen listen addrs. new_crawler conf gen listen addrs = Ok c \<and> sl_read (c_heap c) (c_node_id c) = nid)"

section \<open>The type invariant\<close>

text \<open>A packet's slices are windows of arrays other than the one of our own identifier.\<close>

definition foreign :: "store \<Rightarrow> slice \<Rightarrow> slice \<Rightarrow> bool" where
  "foreign h own s \<longleftrightarrow> slice_wf h s \<and> sl_arr s \<noteq> sl_arr own"

definition packet_ok :: "store \<Rightarrow> slice \<Rightarrow> packet \<Rightarrow> bool" where
  "packet_ok h own p \<longleftrightarrow> foreign h own (p_buf p) \<and> (\<forall>s \<in> set_any (AMap (p_data p)). foreign h own s) \<and> p_addr p \<noteq> None"

text \<open>A node came out of a packet, or is a bootstrap node with our own identifier.\<close>

definition node_ok :: "store \<Rightarrow> slice \<Rightarrow> node \<Rightarrow> bool" where
  "node_ok h own n \<longleftrightarrow> slice_wf h (node_raw_ip n) \<and> slice_wf h (node_raw_port n)
     \<and> (foreign h own (node_id n) \<or> node_id n = own)"

definition crawler_ok :: "bytes \<Rightarrow> crawler \<Rightarrow> bool" where
  "crawler_ok nid c \<longleftrightarrow>
     slice_wf (c_heap c) (c_node_id c) \<and> sl_read (c_heap c) (c_node_id c) = nid
   \<and> list_all (node_ok (c_heap c) (c_node_id c)) (c_bootstrap c @ c_neighbours c)
   \<and> list_all (packet_ok (c_heap c) (c_node_id c)) (c_raw c @ c_decoded c)
   \<and> length (c_neighbours c) \<le> c_neighbours_cap c \<and> length (c_raw c) \<le> c_packet_cap c
   \<and> length (c_decoded c) \<le> c_packet_cap c \<and> length (c_out c) \<le> c_packet_cap c"

section \<open>Changes of the store\<close>

text \<open>A store in which every slice is still a window, and our own identifier is the same.\<close>

definition heap_ext :: "slice \<Rightarrow> store \<Rightarrow> store \<Rightarrow> bool" where
  "heap_ext own h h' \<longleftrightarrow> (\<forall>u. slice_wf h u \<longrightarrow> slice_wf h' u) \<and> sl_read h' own = sl_read h own"

lemma heap_ext_refl [simp]: "heap_ext own h h"
  by (simp add: heap_ext_def)

lemma heap_ext_trans: "heap_ext own h h1 \<Longrightarrow> heap_ext own h1 h2 \<Longrightarrow> heap_ext own h h2"
  by (simp add: heap_ext_def)

lemma heap_ext_ok:
  assumes "heap_ext own h h'"
  shows "foreign h own s \<Longrightarrow> foreign h' own s" "packet_ok h own p \<Longrightarrow> packet_ok h' own p" "node_ok h own n \<Longrightarrow> node_ok h' own n"
  using assms by (auto simp: heap_ext_def foreign_def packet_ok_def node_ok_def)

lemma alloc_ext:
  assumes "alloc h bs = (h', s)" "slice_wf h own"
  shows "heap_ext own h h'" "foreign h' own s"
  using alloc_old [OF assms(1)] alloc_wf [OF assms(1)] assms by (auto simp: heap_ext_def foreign_def alloc_def slice_wf_def)

text \<open>\<^verbatim>\<open>GetNeighbourID\<close> on our own identifier writes the bytes that are already there.\<close>

lemma neighbour_ext:
  assumes "get_neighbour_id h target own = Ok (h', nb)" "slice_wf h own" "foreign h own target \<or> target = own"
  shows "heap_ext own h h'"
proof -
  have target: "slice_wf h target" using assms(2,3) by (auto simp: foreign_def)
  obtain head tail where r: "reslice target 0 10 = Ok head" "10 \<le> sl_len own" "reslice own 10 (sl_len own) = Ok tail"
    "append_slice h head (sl_read h tail) = (h', nb)"
    using assms(1) by (auto simp: get_neighbour_id_def outcome_simps split: if_splits)
  have head: "slice_wf h head" by (rule reslice_wf [OF target r(1)])
  have wf: "\<forall>u. slice_wf h u \<longrightarrow> slice_wf h' u" using append_slice_wf(2) [OF head r(4)] by blast
  show ?thesis
  proof (cases "target = own")
    case True
    have tail: "sl_read h tail = sub (sl_read h own) 10 (sl_len own)"
      by (rule reslice_read [OF assms(2) r(3)]) simp
    have hd: "sl_read h head = sub (sl_read h own) 0 10" using reslice_read [OF target r(1)] r(2) True by simp
    have own: "length (sl_read h own) = sl_len own" by (rule length_sl_read [OF assms(2)])
    have "nb = own"
      using r True own tail assms(2)
      by (auto simp: append_slice_def reslice_def slice_wf_def split: if_splits)
    then have "sl_read h' own = sl_read h head @ sl_read h tail" using append_slice_read [OF head r(4)] by simp
    also have "\<dots> = sl_read h own" using own by (simp add: hd tail sub_def)
    finally show ?thesis using wf by (simp add: heap_ext_def)
  next
    case False
    have "sl_arr own \<noteq> sl_arr head" using assms(3) False r(1) by (auto simp: foreign_def reslice_def split: if_splits)
    then show ?thesis using wf append_slice_frame [OF head assms(2) r(4)] by (simp add: heap_ext_def)
  qed
qed

lemma crawler_ok_heap:
  "crawler_ok nid c \<Longrightarrow> heap_ext (c_node_id c) (c_heap c) h \<Longrightarrow> crawler_ok nid (c\<lparr>c_heap := h\<rparr>)"
  using heap_ext_ok [of "c_node_id c" "c_heap c" h] by (auto simp: crawler_ok_def list_all_iff heap_ext_def)

lemma crawler_ok_metric [simp]: "crawler_ok nid (metric k l n c) = crawler_ok nid c"
  by (simp add: crawler_ok_def metric_def)

section \<open>The slices of a packet\<close>

lemma map_of_set_any: "map_of d k = Some v \<Longrightarrow> set_any v \<subseteq> set_any (AMap d)"
  by (auto dest!: map_of_SomeD)

lemma path_loop_set_any: "path_loop m ps = Some v \<Longrightarrow> set_any v \<subseteq> set_any m"
proof (induction m ps rule: path_loop.induct)
  case (2 d p ps)
  obtain m where m: "map_of d p = Some m" "path_loop m ps = Some v" using "2.prems" by (auto split: option.splits)
  from map_of_set_any [OF m(1)] "2.IH" [OF m] show ?case by blast
qed (auto split: if_splits)

lemma must_get_bytes_set_any: "must_get_bytes d key = Some s \<Longrightarrow> s \<in> set_any (AMap d)"
proof -
  assume "must_get_bytes d key = Some s"
  then have "path_loop (AMap d) (split_on CHR ''.'' key) = Some (ABytes s)"
    by (auto simp: must_get_bytes_def get_by_path_def split: option.splits any.splits)
  from path_loop_set_any [OF this] show ?thesis by (simp del: any.set(5))
qed

lemma packet_slices:
  assumes "packet_ok h own p"
  shows "must_get_bytes (p_data p) key = Some s \<Longrightarrow> foreign h own s"
    and "get_t p = Ok (Some s) \<Longrightarrow> foreign h own s"
    and "packet_get p k = Some (AMap m) \<Longrightarrow> map_bytes m l = Ok s \<Longrightarrow> foreign h own s"
proof -
  have ok: "s \<in> set_any (AMap (p_data p)) \<Longrightarrow> foreign h own s" for s using assms unfolding packet_ok_def by blast
  show "foreign h own s" if "must_get_bytes (p_data p) key = Some s"
    by (rule ok [OF must_get_bytes_set_any [OF that]])
  show "foreign h own s" if "get_t p = Ok (Some s)"
  proof -
    have "map_of (p_data p) ''t'' = Some (ABytes s)" using that by (auto simp: get_t_def split: option.splits any.splits)
    from map_of_set_any [OF this] show ?thesis by (intro ok) auto
  qed
  show "foreign h own s" if "packet_get p k = Some (AMap m)" "map_bytes m l = Ok s"
  proof -
    have "map_of m l = Some (ABytes s)" using that(2) by (auto simp: map_bytes_def split: option.splits any.splits)
    from map_of_set_any [OF this] map_of_set_any [OF that(1) [unfolded packet_get_def]] show ?thesis by (intro ok) auto
  qed
qed

lemma foreign_reslice: "foreign h own s \<Longrightarrow> reslice s lo hi = Ok t \<Longrightarrow> foreign h own t"
  using reslice_wf [of h s lo hi t] by (auto simp: foreign_def reslice_def split: if_splits)

lemma packet_decode_slices:
  assumes "packet_decode h p = Ok p'" "packet_ok h own p"
  shows "packet_ok h own p'"
proof -
  obtain v m where v: "bdecode (sl_read h (p_buf p)) = Ok v" "map_any (window (p_buf p)) v = AMap m" "p' = p\<lparr>p_data := m\<rparr>"
  proof -
    obtain v where v: "bdecode (sl_read h (p_buf p)) = Ok v"
      "(case map_any (window (p_buf p)) v of AMap m \<Rightarrow> Ok (p\<lparr>p_data := m\<rparr>) | _ \<Rightarrow> Err (Errorf ''illegal packet'')) = Ok p'"
      using assms(1) by (auto simp: packet_decode_def outcome_simps)
    from v show thesis by (cases "map_any (window (p_buf p)) v") (auto intro: that)
  qed
  have buf: "foreign h own (p_buf p)" using assms(2) by (simp add: packet_ok_def)
  have "foreign h own s" if s: "s \<in> set_any (AMap m)" for s
  proof -
    obtain x where x: "x \<in> set_any v" "s = window (p_buf p) x"
      using s v(2) any.set_map [of "window (p_buf p)" v] by (auto simp del: any.set)
    have "span_ok (sl_read h (p_buf p)) x" by (rule any_ok_set [OF bdecode_ok [OF v(1)] x(1)])
    then show ?thesis using window_wf buf x(2) by (auto simp: foreign_def window_def)
  qed
  then show ?thesis using assms(2) v(3) by (simp add: packet_ok_def del: any.set)
qed

lemma new_node_ok:
  assumes "new_node_from_raw h raw = Ok n" "foreign h own raw"
  shows "node_ok h own n"
  using assms foreign_reslice [OF assms(2)]
  by (auto simp: new_node_from_raw_def outcome_simps node_ok_def) (auto simp: foreign_def)

lemma nodes_loop_node_ok:
  assumes "nodes_loop h raw i nodes = Ok ns" "foreign h own raw" "list_all (node_ok h own) nodes"
  shows "list_all (node_ok h own) ns"
  using assms
proof (induction h raw i nodes rule: nodes_loop.induct)
  case (1 h raw i nodes)
  show ?case
  proof (cases "(i + 1) * raw_node_length < sl_len raw")
    case True
    then obtain r n where n: "reslice raw (i * raw_node_length) ((i + 1) * raw_node_length) = Ok r" "new_node_from_raw h r = Ok n"
      "nodes_loop h raw (i + 1) (nodes @ [n]) = Ok ns"
      using "1.prems"(1) by (subst (asm) nodes_loop.simps) (auto simp: outcome_simps split: outcome.splits)
    have "node_ok h own n" by (rule new_node_ok [OF n(2) foreign_reslice [OF "1.prems"(2) n(1)]])
    then show ?thesis using "1.IH" [OF True _ n(3)] n(1,2) "1.prems"(2,3) by simp
  next
    case False
    then show ?thesis using "1.prems" by (subst (asm) nodes_loop.simps) simp
  qed
qed

lemma find_node_response_ok:
  assumes "new_find_node_response h p = Ok res" "packet_ok h own p"
  shows "list_all (node_ok h own) (fnr_nodes res)"
proof -
  obtain m raw ns where "packet_get p ''r'' = Some (AMap m)" "map_bytes m ''nodes'' = Ok raw" "nodes_loop h raw 0 [] = Ok ns" "fnr_nodes res = ns"
    using assms(1)
    by (cases "packet_get p ''r''"; cases "the (packet_get p ''r'')") (auto simp: new_find_node_response_def outcome_simps)
  then show ?thesis using nodes_loop_node_ok [of h raw 0 "[]" ns own] packet_slices(3) [OF assms(2)] by auto
qed

section \<open>Every operation keeps the invariant\<close>

lemma crawler_okD:
  assumes "crawler_ok nid c"
  shows "slice_wf (c_heap c) (c_node_id c)" "length (c_out c) \<le> c_packet_cap c"
  using assms by (simp_all add: crawler_ok_def)

lemma send_packet_wf:
  assumes "send_packet pkt addr c = Done (pkt', c')" "crawler_ok nid c"
  shows "crawler_ok nid c' \<and> c_node_id c' = c_node_id c"
proof (cases "packet_encode (c_heap c) (pkt\<lparr>p_addr := Some addr\<rparr>)")
  case (Ok x)
  obtain encoded h q where x: "x = (encoded, h, q)" by (cases x)
  obtain h0 b where a0: "alloc (c_heap c) encoded = (h0, b)" by fastforce
  then have a: "alloc (c_heap c) encoded = (h, b)" using Ok x by (auto simp: packet_encode_def outcome_simps Let_def alloc_def)
  have "crawler_ok nid (c\<lparr>c_heap := h\<rparr>)"
    by (rule crawler_ok_heap [OF assms(2) alloc_ext(1) [OF a crawler_okD(1) [OF assms(2)]]])
  moreover have "c' = c\<lparr>c_heap := h, c_out := c_out c @ [(encoded, addr)]\<rparr>" "length (c_out c) < c_packet_cap c"
    using assms(1) Ok x by (auto simp: send_packet_def run_outcome_def split: if_splits)
  ultimately show ?thesis by (auto simp: crawler_ok_def)
qed (use assms in \<open>auto simp: send_packet_def run_outcome_def\<close>)

lemma send_find_node_wf:
  assumes "send_find_node nodeID target addr c = Done c'" "crawler_ok nid c"
  shows "crawler_ok nid c'"
proof -
  obtain tid tm h t where t: "next_transaction_id (c_tm c) = (tid, tm)" "alloc (c_heap c) tid = (h, t)" by (metis surj_pair)
  have "crawler_ok nid (c\<lparr>c_heap := h\<rparr>)"
    by (rule crawler_ok_heap [OF assms(2) alloc_ext(1) [OF t(2) crawler_okD(1) [OF assms(2)]]])
  then have "crawler_ok nid (c\<lparr>c_tm := tm, c_heap := h\<rparr>)" by (simp add: crawler_ok_def)
  with assms(1) t show ?thesis
    by (auto simp: send_find_node_def rbind_eq_Done Let_def dest: send_packet_wf)
qed

lemma find_node_loop_wf:
  assumes "on_find_node_response_loop nodes c = Done c'" "crawler_ok nid c"
    and "list_all (node_ok (c_heap c) (c_node_id c)) nodes"
  shows "crawler_ok nid c'"
  using assms
proof (induction nodes c rule: on_find_node_response_loop.induct)
  case (2 node nodes c)
  let ?c = "\<lambda>seen. metric ''crawler_event'' ''queue_node'' 1 (c\<lparr>c_seen := seen, c_neighbours := c_neighbours c @ [node]\<rparr>)"
  have q: "crawler_ok nid (?c seen)" if "length (c_neighbours c) < c_neighbours_cap c" for seen
    using "2.prems"(2,3) that by (simp add: crawler_ok_def metric_def)
  show ?case using 2 q by (auto simp: Let_def rbind_eq_Done split: if_splits option.splits)
qed simp

lemma run_outcome_Done: "run_outcome m onErr f = Done c \<longleftrightarrow> (\<exists>x. m = Ok x \<and> f x = Done c) \<or> (\<exists>e. m = Err e \<and> onErr e = Done c)"
  by (cases m) (simp_all add: run_outcome_def)

lemma foreign_shorter: "foreign h own s \<Longrightarrow> n \<le> sl_len s \<Longrightarrow> foreign h own (s\<lparr>sl_len := n\<rparr>)"
  by (simp add: foreign_def slice_wf_def)

lemma get_peers_wf:
  assumes "on_get_peers_request req addr c = Done c'" "crawler_ok nid c" "packet_ok (c_heap c) (c_node_id c) req"
  shows "crawler_ok nid c'"
proof -
  let ?c = "metric ''dht_receive'' ''get_peers'' 1 c"
  consider (none) "c' = ?c" | (query) t ih where "get_t req = Ok (Some t)" "gp_info_hash req = Some ih" "20 \<le> sl_len ih"
    using assms(1)
    by (auto simp: on_get_peers_request_def Let_def run_outcome_def split: outcome.splits option.splits if_splits)
  then show ?thesis
  proof cases
    case (query t ih)
    have ih: "foreign (c_heap c) (c_node_id c) ih"
      using query(2) packet_slices(1) [OF assms(3)] foreign_shorter
      by (auto simp: gp_info_hash_def gp_raw_info_hash_def split: option.splits if_splits)
    show ?thesis
    proof (cases "get_neighbour_id (c_heap c) ih (c_node_id c)")
      case (Ok x)
      obtain h nb where x: "x = (h, nb)" by fastforce
      have "heap_ext (c_node_id c) (c_heap c) h"
        using neighbour_ext [OF Ok [unfolded x] crawler_okD(1) [OF assms(2)]] ih by blast
      then have "crawler_ok nid (?c\<lparr>c_heap := h\<rparr>)" using assms(2) by (intro crawler_ok_heap) simp_all
      with assms(1) query Ok x show ?thesis
        by (auto simp: on_get_peers_request_def run_outcome_def Let_def rbind_eq_Done dest: send_packet_wf)
    qed (use assms(1,2) query in \<open>auto simp: on_get_peers_request_def run_outcome_def Let_def\<close>)
  qed (use assms(2) in simp)
qed

lemma announce_peer_wf:
  assumes "on_announce_peer_request req addr c = Done c'" "crawler_ok nid c" "packet_ok (c_heap c) (c_node_id c) req"
  shows "crawler_ok nid c'"
proof (cases "get_t req")
  case (Ok tid)
  let ?c = "metric ''dht_receive'' ''announce_peer'' 1 c"
  let ?nid = "slice_of (ap_node_id req)"
  show ?thesis
  proof (cases "get_neighbour_id (c_heap c) ?nid (c_node_id c)")
    case (Ok x)
    obtain h nb where x: "x = (h, nb)" by fastforce
    have "ap_node_id req \<noteq> None"
      using Ok by (cases "ap_node_id req") (auto simp: get_neighbour_id_def slice_of_def nil_slice_def reslice_def)
    then have "foreign (c_heap c) (c_node_id c) ?nid"
      using packet_slices(1) [OF assms(3)] by (auto simp: ap_node_id_def slice_of_def)
    then have "heap_ext (c_node_id c) (c_heap c) h"
      using neighbour_ext [OF Ok [unfolded x] crawler_okD(1) [OF assms(2)]] by blast
    then have c: "crawler_ok nid (?c\<lparr>c_heap := h\<rparr>)" using assms(2) by (intro crawler_ok_heap) simp_all
    have q: "crawler_ok nid (d\<lparr>c_requests := r\<rparr>) = crawler_ok nid d" for d r by (simp add: crawler_ok_def)
    from assms(1) \<open>get_t req = Ok tid\<close> Ok x c show ?thesis
      by (auto simp: on_announce_peer_request_def run_outcome_def Let_def rbind_eq_Done q dest: send_packet_wf)
  qed (use assms(1,2) Ok in \<open>auto simp: on_announce_peer_request_def run_outcome_def Let_def\<close>)
qed (use assms(1,2) in \<open>auto simp: on_announce_peer_request_def run_outcome_def Let_def\<close>)

lemma on_message_wf:
  assumes "on_message p addr c = Done c'" "crawler_ok nid c" "packet_ok (c_heap c) (c_node_id c) p"
  shows "crawler_ok nid c'"
proof -
  have fn: "crawler_ok nid d" if "new_find_node_response (c_heap c) p = Ok res" "on_find_node_response (fnr_nodes res) c = Done d" for res d
    using that(2) assms(2) find_node_response_ok [OF that(1) assms(3)]
    by (auto simp: on_find_node_response_def intro: find_node_loop_wf)
  from assms(1,2) fn show ?thesis
    by (auto simp: on_message_def run_outcome_Done rbind_eq_Done split: if_splits dest: get_peers_wf [OF _ assms(2,3)] announce_peer_wf [OF _ assms(2,3)])
qed

text \<open>Fields that the invariant does not mention.\<close>

lemma crawler_ok_other [simp]:
  "crawler_ok nid (c\<lparr>c_conn := x\<rparr>) = crawler_ok nid c" "crawler_ok nid (c\<lparr>c_listeners := n\<rparr>) = crawler_ok nid c"
  "crawler_ok nid (c\<lparr>c_sent := l\<rparr>) = crawler_ok nid c" "crawler_ok nid (c\<lparr>c_stopped := b\<rparr>) = crawler_ok nid c"
  by (simp_all add: crawler_ok_def)

lemma disconnect_wf: "crawler_disconnect c = Done c' \<Longrightarrow> crawler_ok nid c \<Longrightarrow> crawler_ok nid c'"
  by (auto simp: crawler_disconnect_def split: packet_conn.splits)

lemma connect_wf: "crawler_connect listen c = (c', r) \<Longrightarrow> crawler_ok nid c \<Longrightarrow> crawler_ok nid c'"
  by (auto simp: crawler_connect_def split: outcome.splits if_splits)

lemma listen_wf:
  assumes "listen_one rd c = Done c'" "crawler_ok nid c"
  shows "crawler_ok nid c'"
proof (cases rd)
  case (Ok x)
  obtain datagram addr where x: "x = (datagram, addr)" by fastforce
  obtain h msg where a: "alloc (c_heap c) (take 65536 datagram) = (h, msg)" by fastforce
  note e = alloc_ext [OF a crawler_okD(1) [OF assms(2)]]
  have "packet_ok h (c_node_id c) ((new_packet_from_buffer msg)\<lparr>p_addr := Some addr\<rparr>)"
    using e(2) by (simp add: packet_ok_def new_packet_from_buffer_def)
  with crawler_ok_heap [OF assms(2) e(1)] assms(1) Ok x a show ?thesis
    by (auto simp: listen_one_def crawler_ok_def split: if_splits)
qed (use assms disconnect_wf [of "c\<lparr>c_listeners := c_listeners c - 1\<rparr>" c' nid] in \<open>auto simp: listen_one_def\<close>)

lemma decode_wf:
  assumes "decode_one c = Done c'" "crawler_ok nid c"
  shows "crawler_ok nid c'"
proof (cases "c_raw c")
  case (Cons pkt pkts)
  have p: "packet_ok (c_heap c) (c_node_id c) pkt" "crawler_ok nid (c\<lparr>c_raw := pkts\<rparr>)"
    using assms(2) Cons by (simp_all add: crawler_ok_def)
  consider "c' = c\<lparr>c_raw := pkts\<rparr>" | q where "packet_decode (c_heap c) pkt = Ok q" "length (c_decoded c) < c_packet_cap c"
    "c' = c\<lparr>c_raw := pkts, c_decoded := c_decoded c @ [q]\<rparr>"
    using assms(1) Cons by (auto simp: decode_one_def Let_def run_outcome_Done split: if_splits)
  then show ?thesis
  proof cases
    case (2 q)
    with p packet_decode_slices [OF 2(1) p(1)] show ?thesis by (simp add: crawler_ok_def)
  qed (use p in simp)
qed (use assms in \<open>simp add: decode_one_def\<close>)

lemma handler_wf:
  assumes "handler_one c = Done c'" "crawler_ok nid c"
  shows "crawler_ok nid c'"
proof (cases "c_decoded c")
  case (Cons pkt pkts)
  have "packet_ok (c_heap c) (c_node_id c) pkt" "crawler_ok nid (c\<lparr>c_decoded := pkts\<rparr>)"
    using assms(2) Cons by (simp_all add: crawler_ok_def)
  with assms(1) Cons on_message_wf show ?thesis by (fastforce simp: handler_one_def split: option.splits)
qed (use assms in \<open>simp add: handler_one_def\<close>)

lemma send_wf:
  assumes "send_one listen wr c = Done c'" "crawler_ok nid c"
  shows "crawler_ok nid c'"
proof (cases "c_out c")
  case (Cons x pkts)
  obtain data addr where x: "x = (data, addr)" by fastforce
  let ?c = "c\<lparr>c_out := pkts\<rparr>"
  have c: "crawler_ok nid ?c" using assms(2) Cons by (simp add: crawler_ok_def)
  obtain d r where d: "(if c_conn ?c \<noteq> NoConn then (?c, Ok ()) else crawler_connect listen ?c) = (d, r)" by fastforce
  then have "crawler_ok nid d" using c connect_wf [of listen ?c d r nid] by (auto split: if_splits)
  with assms(1) Cons x c d show ?thesis
    by (auto simp: send_one_def Let_def split: if_splits outcome.splits dest: disconnect_wf)
qed (use assms in \<open>simp add: send_one_def\<close>)

lemma neighbour_wf:
  assumes "neighbour_one gen c = Done c'" "crawler_ok nid c"
  shows "crawler_ok nid c'"
proof (cases "c_neighbours c")
  case (Cons node nodes)
  let ?c = "c\<lparr>c_neighbours := nodes\<rparr>"
  have c: "crawler_ok nid ?c" "node_ok (c_heap c) (c_node_id c) node" using assms(2) Cons by (simp_all add: crawler_ok_def)
  show ?thesis
  proof (cases "get_neighbour_id (c_heap c) (node_id node) (c_node_id c)")
    case (Ok x)
    obtain h nb where x: "x = (h, nb)" by fastforce
    have e: "heap_ext (c_node_id c) (c_heap c) h"
      using neighbour_ext [OF Ok [unfolded x] crawler_okD(1) [OF assms(2)]] c(2) by (simp add: node_ok_def)
    obtain h2 target where a: "alloc h gen = (h2, target)" by fastforce
    have "slice_wf h (c_node_id c)" using e crawler_okD(1) [OF assms(2)] by (simp add: heap_ext_def)
    from heap_ext_trans [OF e alloc_ext(1) [OF a this]] have "crawler_ok nid (?c\<lparr>c_heap := h2\<rparr>)"
      using c(1) by (intro crawler_ok_heap) simp_all
    with assms(1) Cons Ok x a show ?thesis
      by (auto simp: neighbour_one_def run_outcome_def Let_def intro: send_find_node_wf)
  qed (use assms(1) Cons c in \<open>auto simp: neighbour_one_def run_outcome_def Let_def\<close>)
qed (use assms in \<open>simp add: neighbour_one_def\<close>)

lemma crawler_ok_step: "crawler_ok nid c \<Longrightarrow> crawler_step c c' \<Longrightarrow> crawler_ok nid c'"
proof (erule crawler_stepE, goal_cases)
  case (1 listen)
  then show ?case using connect_wf [of listen c] by (auto simp: crawler_start_def split: prod.splits outcome.splits)
next
  case (7 fetching)
  then show ?case by (auto simp: bootstrap_tick_def queue_gauges_def metric_def crawler_ok_def Let_def split: if_splits)
next
  case (8 listen r)
  then show ?case by (auto simp: crawler_reconnect_def rbind_eq_Done dest: disconnect_wf intro: connect_wf)
next
  case 9
  then show ?case by (auto simp: crawler_stop_def rbind_eq_Done dest: disconnect_wf)
qed (blast intro: listen_wf decode_wf handler_wf send_wf neighbour_wf)+

lemma crawler_ok_init:
  assumes "crawler_begin nid c"
  shows "crawler_ok nid c"
proof -
  obtain conf gen listen addrs where c: "new_crawler conf gen listen addrs = Ok c" "sl_read (c_heap c) (c_node_id c) = nid"
    using assms by (auto simp: crawler_begin_def)
  have n: "slice_wf (c_heap c) (c_node_id c) \<and> slice_wf (c_heap c) nil_slice"
    using c(1)
    by (auto simp: new_crawler_def set_bootstrap_nodes_def alloc_def slice_wf_def nil_slice_def outcome_simps Let_def
        split: outcome.splits if_splits)
  have "list_all (node_ok (c_heap c) (c_node_id c)) (c_bootstrap c)"
    using c(1) n
    by (auto simp: new_crawler_def set_bootstrap_nodes_def outcome_simps list_all_iff node_ok_def Let_def
        split: prod.splits outcome.splits)
  moreover have "c_neighbours c = []" "c_raw c = []" "c_decoded c = []" "c_out c = []"
    using c(1) by (auto simp: new_crawler_def set_bootstrap_nodes_def outcome_simps Let_def split: prod.splits)
  ultimately show ?thesis using n c(2) by (simp add: crawler_ok_def)
qed

interpretation dc: inv_system "crawler_begin nid" crawler_step "crawler_ok nid" for nid
  by unfold_locales (rule crawler_ok_init, assumption, rule crawler_ok_step)

section \<open>Metrics\<close>

text \<open>Every update of a metric is one of a registered vector: the library panics on any other.\<close>

definition is_vector :: "string \<Rightarrow> bool" where
  "is_vector v \<longleftrightarrow> v \<in> fst ` set crawler_vectors"

definition metrics_registered :: "crawler \<Rightarrow> bool" where
  "metrics_registered c \<longleftrightarrow> list_all (\<lambda>m. is_vector (fst m)) (c_metrics c)"

lemma is_vector_simps [simp]:
  "is_vector ''dht_send''" "is_vector ''dht_receive''" "is_vector ''traffic''" "is_vector ''queue_size''" "is_vector ''crawler_event''"
  by (simp_all add: is_vector_def crawler_vectors_def)

lemma metrics_registered_metric [simp]: "metrics_registered (metric v l n c) \<longleftrightarrow> metrics_registered c \<and> is_vector v"
  by (simp add: metrics_registered_def metric_def)

lemma metrics_registered_frame [simp]:
  "metrics_registered (c\<lparr>c_heap := h\<rparr>) = metrics_registered c" "metrics_registered (c\<lparr>c_tm := tm\<rparr>) = metrics_registered c"
  "metrics_registered (c\<lparr>c_raw := ps\<rparr>) = metrics_registered c" "metrics_registered (c\<lparr>c_decoded := ps\<rparr>) = metrics_registered c"
  "metrics_registered (c\<lparr>c_out := q\<rparr>) = metrics_registered c" "metrics_registered (c\<lparr>c_sent := q\<rparr>) = metrics_registered c"
  "metrics_registered (c\<lparr>c_neighbours := ns\<rparr>) = metrics_registered c" "metrics_registered (c\<lparr>c_seen := sn\<rparr>) = metrics_registered c"
  "metrics_registered (c\<lparr>c_conn := cn\<rparr>) = metrics_registered c" "metrics_registered (c\<lparr>c_listeners := k\<rparr>) = metrics_registered c"
  "metrics_registered (c\<lparr>c_stopped := b\<rparr>) = metrics_registered c" "metrics_registered (c\<lparr>c_requests := rs\<rparr>) = metrics_registered c"
  by (simp_all add: metrics_registered_def)

lemma send_packet_metrics: "send_packet p a c = Done (q, c') \<Longrightarrow> metrics_registered c' = metrics_registered c"
  by (auto simp: send_packet_def run_outcome_def Let_def split: outcome.splits if_splits)

lemma connection_metrics:
  "crawler_disconnect c = Done c' \<Longrightarrow> metrics_registered c' = metrics_registered c"
  "crawler_connect listen c = (c'', r) \<Longrightarrow> metrics_registered c'' = metrics_registered c"
  by (auto simp: crawler_disconnect_def crawler_connect_def split: packet_conn.splits outcome.splits if_splits)

lemma send_find_node_metrics: "send_find_node n t a c = Done c' \<Longrightarrow> metrics_registered c \<Longrightarrow> metrics_registered c'"
  by (auto simp: send_find_node_def Let_def rbind_eq_Done split: prod.splits dest!: send_packet_metrics)

lemma find_node_loop_metrics:
  "on_find_node_response_loop ns c = Done c' \<Longrightarrow> metrics_registered c \<Longrightarrow> metrics_registered c'"
  by (induction ns c rule: on_find_node_response_loop.induct)
    (auto simp: Let_def rbind_eq_Done split: if_splits option.splits)

lemma on_message_metrics:
  assumes "on_message pkt addr c = Done c'" "metrics_registered c"
  shows "metrics_registered c'"
proof -
  have "metrics_registered d'" if "on_get_peers_request pkt addr d = Done d'" "metrics_registered d" for d d'
    using that by (auto simp: on_get_peers_request_def run_outcome_def rbind_eq_Done Let_def
        split: outcome.splits option.splits if_splits prod.splits dest!: send_packet_metrics)
  moreover have "metrics_registered d'" if "on_announce_peer_request pkt addr d = Done d'" "metrics_registered d" for d d'
    using that by (auto simp: on_announce_peer_request_def run_outcome_def rbind_eq_Done Let_def
        split: outcome.splits option.splits if_splits prod.splits dest!: send_packet_metrics)
  moreover have "metrics_registered d'" if "on_find_node_response ns d = Done d'" "metrics_registered d" for ns d d'
    using that by (auto simp: on_find_node_response_def dest: find_node_loop_metrics)
  ultimately show ?thesis
    using assms by (auto simp: on_message_def run_outcome_def rbind_eq_Done split: outcome.splits if_splits)
qed

lemma metrics_step: "crawler_step c c' \<Longrightarrow> metrics_registered c \<Longrightarrow> metrics_registered c'"
proof (induction rule: crawler_step.induct)
  case (cs_neighbour gen c c')
  then show ?case
    by (auto simp: neighbour_one_def run_outcome_def Let_def split: list.splits outcome.splits prod.splits intro: send_find_node_metrics)
next
  case (cs_handle c c')
  then show ?case by (auto simp: handler_one_def split: list.splits option.splits dest: on_message_metrics)
next
  case (cs_send listen wr c c')
  then show ?case
    by (auto simp: send_one_def Let_def split: list.splits if_splits outcome.splits prod.splits dest!: connection_metrics)
qed (auto simp: crawler_start_def listen_one_def decode_one_def bootstrap_tick_def queue_gauges_def crawler_reconnect_def crawler_stop_def
    run_outcome_def rbind_eq_Done Let_def split: list.splits outcome.splits prod.splits if_splits dest: connection_metrics)

lemma new_crawler_metrics: "crawler_begin nid c \<Longrightarrow> metrics_registered c"
  by (auto simp: crawler_begin_def new_crawler_def set_bootstrap_nodes_def metrics_registered_def obind_eq_Ok case_prod_unfold Let_def)

interpretation mr: inv_system "crawler_begin nid" crawler_step metrics_registered for nid
  by unfold_locales (rule new_crawler_metrics, assumption, rule metrics_step)

lemmas crawler_metrics_registered = mr.reach_inv

section \<open>Properties\<close>

text \<open>
  Property C8. The state of the crawler is well typed at all times: from a new crawler on, whatever
  datagrams arrive and however its goroutines interleave, every slice of a queued packet and of a queued
  node is a window of an allocated array, every queued packet has a sender, the four channels hold no
  more than their capacities, and the crawler's own identifier, which \<^verbatim>\<open>GetNeighbourID\<close> appends to other
  slices and to itself, still has the bytes it was created with.
\<close>

theorem crawler_state_well_typed:
  assumes "reach (crawler_begin nid) crawler_step c"
  shows "sl_read (c_heap c) (c_node_id c) = nid
     \<and> (\<forall>p \<in> set (c_raw c @ c_decoded c). slice_wf (c_heap c) (p_buf p)
          \<and> (\<forall>s \<in> set_any (AMap (p_data p)). slice_wf (c_heap c) s) \<and> p_addr p \<noteq> None)
     \<and> (\<forall>n \<in> set (c_bootstrap c @ c_neighbours c). slice_wf (c_heap c) (node_id n))
     \<and> length (c_neighbours c) \<le> c_neighbours_cap c \<and> length (c_raw c) \<le> c_packet_cap c
     \<and> length (c_decoded c) \<le> c_packet_cap c \<and> length (c_out c) \<le> c_packet_cap c"
proof -
  have ok: "crawler_ok nid c" using assms by (rule dc.reach_inv)
  have "slice_wf (c_heap c) (node_id n)" if "n \<in> set (c_bootstrap c @ c_neighbours c)" for n
    using ok that by (auto simp: crawler_ok_def list_all_iff node_ok_def foreign_def)
  moreover have "slice_wf (c_heap c) (p_buf p) \<and> (\<forall>s \<in> set_any (AMap (p_data p)). slice_wf (c_heap c) s) \<and> p_addr p \<noteq> None"
    if "p \<in> set (c_raw c @ c_decoded c)" for p
  proof -
    have "packet_ok (c_heap c) (c_node_id c) p" using ok that by (auto simp: crawler_ok_def list_all_iff)
    then show ?thesis unfolding packet_ok_def foreign_def by blast
  qed
  ultimately show ?thesis using ok by (simp add: crawler_ok_def)
qed

theorem crawler_state_well_typed_witness:
  "\<exists>c p. reach (crawler_begin (replicate 20 CHR ''n'')) crawler_step c \<and> c_raw c = [p]
     \<and> slice_wf (c_heap c) (p_buf p) \<and> sl_read (c_heap c) (c_node_id c) = replicate 20 CHR ''n''"
proof -
  let ?nid = "replicate 20 CHR ''n''"
  let ?conf = "\<lparr>cc_node_id = [], cc_proxied = False, cc_packet_queue = 1, cc_max_queue = 1, cc_seen_ttl = 300, cc_seen_size = 10\<rparr>"
  obtain c where c: "new_crawler ?conf ?nid (Ok ()) [] = Ok c" "sl_read (c_heap c) (c_node_id c) = ?nid" "c_raw c = []" "c_packet_cap c = 1"
    by (simp add: new_crawler_def set_bootstrap_nodes_def alloc_def sl_read_def sub_def)
  have 0: "reach (crawler_begin ?nid) crawler_step c" by (rule reach_init) (use c in \<open>auto simp: crawler_begin_def\<close>)
  obtain c' p where l: "listen_one (Ok (''de'', \<lparr>ip = ''abcd'', port = 80\<rparr>)) c = Done c'" "c_raw c' = [p]"
    using c(3,4) by (simp add: listen_one_def alloc_def)
  have r: "reach (crawler_begin ?nid) crawler_step c'" by (rule reach_step [OF 0 cs_listen [OF l(1)]])
  from crawler_state_well_typed [OF r] r l(2) show ?thesis by auto
qed

end
