(* ===== verification/Crawler_Datagrams.thy ===== *)
theory Crawler_Datagrams
  imports Crawler_System Bencode_Layout
begin

text \<open>
  From a datagram to its effect: the listener, a decoder and a handler of the crawler in sequence. The
  lemmas take a query from the bytes on the wire through the decoder to the handlers, using that the
  values of a decoded packet do not overlap, so that the bytes a handler overwrites are none that it
  still reads.
\<close>

section \<open>Looking up what was sent\<close>

text \<open>The dictionary \<open>d\<close> that was encoded and the dictionary \<open>m\<close> of spans that was decoded.\<close>

definition decodes_to :: "bytes \<Rightarrow> (string \<times> bytes any) list \<Rightarrow> (string \<times> span any) list \<Rightarrow> bool" where
  "decodes_to dg d m \<longleftrightarrow> map (map_prod id (map_any (span_read dg))) m = map (map_prod id (norm_any id)) d
     \<and> any_ok (span_ok dg) (AMap m) \<and> laid_out (AMap m)"

lemma decodes_to_lookup:
  assumes "decodes_to dg d m"
  shows "map_option (map_any (span_read dg)) (map_of m k) = map_option (norm_any id) (map_of d k)"
proof -
  have "map_of (map (map_prod id (map_any (span_read dg))) m) k = map_of (map (map_prod id (norm_any id)) d) k"
    using assms by (simp only: decodes_to_def)
  then show ?thesis by (simp only: map_of_map_prod_id)
qed

lemma any_ok_lookup: "any_ok ok (AMap m) \<Longrightarrow> map_of m k = Some v \<Longrightarrow> any_ok ok v"
  by (fastforce simp: list_all_iff dest!: map_of_SomeD)

lemma decodes_to_bytes:
  assumes "decodes_to dg d m" "map_of d k = Some (ABytes b)"
  obtains s where "map_of m k = Some (ABytes s)" "span_read dg s = b" "span_ok dg s"
proof -
  obtain v where v: "map_of m k = Some v" "map_any (span_read dg) v = ABytes b"
    using decodes_to_lookup [OF assms(1), of k] assms(2) by auto
  then obtain s where s: "v = ABytes s" "span_read dg s = b" by (cases v) auto
  have "any_ok (span_ok dg) v" using assms(1) v(1) any_ok_lookup unfolding decodes_to_def by blast
  with s v(1) show thesis by (intro that) auto
qed

lemma decodes_to_map:
  assumes "decodes_to dg d m" "map_of d k = Some (AMap a)"
  obtains n where "map_of m k = Some (AMap n)" "decodes_to dg a n"
proof -
  obtain v where v: "map_of m k = Some v" "map_any (span_read dg) v = norm_any id (AMap a)"
    using decodes_to_lookup [OF assms(1), of k] assms(2) by auto
  then obtain n where n: "v = AMap n" by (cases v) auto
  have "any_ok (span_ok dg) v" "laid_out v"
    using assms(1) v(1) any_ok_lookup laid_out_value unfolding decodes_to_def by blast+
  with n v show thesis by (intro that [of n]) (auto simp: decodes_to_def)
qed

lemma decodes_to_int: "decodes_to dg d m \<Longrightarrow> get_int m key = get_int d key"
  by (metis decodes_to_def get_int_map_any get_int_norm)

section \<open>Receiving\<close>

text \<open>The buffer that the listener copies a datagram into, and the packet the decoder makes of it.\<close>

definition buffer_of :: "bytes \<Rightarrow> crawler \<Rightarrow> slice" where
  "buffer_of dg c = \<lparr>sl_arr = length (c_heap c), sl_off = 0, sl_len = length dg, sl_cap = length dg\<rparr>"

definition packet_of :: "bytes \<Rightarrow> (string \<times> span any) list \<Rightarrow> udp_addr \<Rightarrow> crawler \<Rightarrow> packet" where
  "packet_of dg m addr c =
     \<lparr>p_buf = buffer_of dg c, p_data = map (map_prod id (map_any (window (buffer_of dg c)))) m, p_addr = Some addr\<rparr>"

definition with_datagram :: "bytes \<Rightarrow> crawler \<Rightarrow> crawler" where
  "with_datagram dg c = c\<lparr>c_heap := c_heap c @ [dg]\<rparr>"

lemma with_datagram_frame [simp]:
  "c_node_id (with_datagram dg c) = c_node_id c" "c_out (with_datagram dg c) = c_out c"
  "c_packet_cap (with_datagram dg c) = c_packet_cap c" "c_requests (with_datagram dg c) = c_requests c"
  "c_heap (with_datagram dg c) = c_heap c @ [dg]"
  by (simp_all add: with_datagram_def)

lemma buffer_wf: "slice_wf (c_heap c @ [dg]) (buffer_of dg c)" "sl_read (c_heap c @ [dg]) (buffer_of dg c) = dg"
  by (simp_all add: slice_wf_def buffer_of_def sl_read_def)

lemma own_id_with_datagram:
  assumes "own_id_ok c"
  shows "own_id_ok (with_datagram dg c)" "sl_read (c_heap c @ [dg]) (c_node_id c) = sl_read (c_heap c) (c_node_id c)"
    "clear_of (c_node_id c) (window (buffer_of dg c) s)"
  using assms by (auto simp: own_id_ok_def slice_wf_def sl_read_def nth_append clear_of_def window_def buffer_of_def)

lemma window_of:
  assumes "span_ok dg s"
  shows "slice_wf (c_heap c @ [dg]) (window (buffer_of dg c) s)" "sl_len (window (buffer_of dg c) s) = snd s - fst s"
    "sl_read (c_heap c @ [dg]) (window (buffer_of dg c) s) = span_read dg s" "length (span_read dg s) = snd s - fst s"
  using window_wf [of "c_heap c @ [dg]" "buffer_of dg c" s] window_read [of "c_heap c @ [dg]" "buffer_of dg c" s] assms buffer_wf [of c dg]
  by (auto simp: window_def span_read_def span_ok_def)

lemma apart_clear:
  assumes "apart (ABytes s) (ABytes u)" "span_ok dg s" "span_ok dg u" "snd u = fst u + 20"
  shows "clear_of (window (buffer_of dg c) s) (window (buffer_of dg c) u)"
  using assms by (auto simp: apart_def apart_spans_def clear_of_def window_def buffer_of_def span_ok_def)

text \<open>Within a dictionary, and across a nested one.\<close>

lemma apart_nested: "apart v (AMap m) \<Longrightarrow> map_of m k = Some w \<Longrightarrow> apart v w"
  unfolding apart_def set_any_AMap by (force dest!: map_of_SomeD)

lemma datagram_received:
  assumes "c_raw c = []" "c_decoded c = []" "0 < c_packet_cap c"
    and "encodable id (AMap d)" "dg = benc id (AMap d)" "length dg \<le> 65536"
  obtains c1 c2 m where "listen_one (Ok (dg, addr)) c = Done c1" "decode_one c1 = Done c2" "decodes_to dg d m"
    "handler_one c2 = on_message (packet_of dg m addr c) addr (with_datagram dg c)"
proof -
  obtain w where w: "bdecode dg = Ok w" "map_any (span_read dg) w = norm_any id (AMap d)" "any_ok (span_ok dg) w"
    using bdecode_benc [OF assms(4)] assms(5) by metis
  from w(2) obtain m where m: "w = AMap m" by (cases w) auto
  have D: "decodes_to dg d m"
    using w bdecode_laid_out [OF w(1)] unfolding m decodes_to_def by simp
  let ?p = "(new_packet_from_buffer (buffer_of dg c))\<lparr>p_addr := Some addr\<rparr>"
  let ?c1 = "c\<lparr>c_heap := c_heap c @ [dg], c_raw := [?p]\<rparr>"
  let ?c2 = "?c1\<lparr>c_raw := [], c_decoded := [packet_of dg m addr c]\<rparr>"
  have 1: "listen_one (Ok (dg, addr)) c = Done ?c1"
    using assms(1,3,6) by (simp add: listen_one_def alloc_def buffer_of_def)
  have "packet_decode (c_heap ?c1) ?p = Ok (packet_of dg m addr c)"
    using w(1) m buffer_wf(2) [of c dg] by (simp add: packet_decode_def packet_of_def new_packet_from_buffer_def)
  then have 2: "decode_one ?c1 = Done ?c2"
    using assms(2,3) by (simp add: decode_one_def run_outcome_def)
  have "?c2\<lparr>c_decoded := []\<rparr> = with_datagram dg c"
    using assms(1,2) by (simp add: with_datagram_def)
  then have "handler_one ?c2 = on_message (packet_of dg m addr c) addr (with_datagram dg c)"
    by (simp add: handler_one_def packet_of_def)
  with 1 2 D show thesis by (rule that)
qed

section \<open>Queries\<close>

text \<open>A query of the protocol: its kind, its name, a transaction and the arguments.\<close>

definition is_query :: "string \<Rightarrow> bytes \<Rightarrow> (string \<times> bytes any) list \<Rightarrow> (string \<times> bytes any) list \<Rightarrow> bool" where
  "is_query q tid args d \<longleftrightarrow> map_of d ''y'' = Some (ABytes ''q'') \<and> map_of d ''q'' = Some (ABytes q)
     \<and> map_of d ''t'' = Some (ABytes tid) \<and> map_of d ''a'' = Some (AMap args)"

lemma packet_of_lookup:
  "map_of (p_data (packet_of dg m addr c)) k = map_option (map_any (window (buffer_of dg c))) (map_of m k)"
  by (simp add: packet_of_def map_of_map_prod_id)

lemma packet_of_arg:
  assumes "map_of m ''a'' = Some (AMap n)" "map_of n k = Some (ABytes s)" "CHR ''.'' \<notin> set k"
  shows "must_get_bytes (p_data (packet_of dg m addr c)) (''a'' @ CHR ''.'' # k) = Some (window (buffer_of dg c) s)"
  using assms get_by_path_two [of "''a''" k "p_data (packet_of dg m addr c)"]
  by (simp add: must_get_bytes_def packet_of_lookup map_of_map_prod_id)

lemma packet_of_int: "decodes_to dg d m \<Longrightarrow> get_int (p_data (packet_of dg m addr c)) key = get_int d key"
  by (simp add: packet_of_def get_int_map_any decodes_to_int)

lemma query_fields:
  assumes "decodes_to dg d m" "is_query q tid args d"
  obtains n ts where "map_of m ''a'' = Some (AMap n)" "decodes_to dg args n"
    "map_of m ''t'' = Some (ABytes ts)" "span_read dg ts = tid" "span_ok dg ts"
    "get_t (packet_of dg m addr c) = Ok (Some (window (buffer_of dg c) ts))"
    "get_y (c_heap c @ [dg]) (packet_of dg m addr c) = Ok ''q''" "get_q (c_heap c @ [dg]) (packet_of dg m addr c) = Ok q"
proof -
  note q = assms(2) [unfolded is_query_def]
  obtain n where n: "map_of m ''a'' = Some (AMap n)" "decodes_to dg args n" using decodes_to_map [OF assms(1)] q by blast
  obtain ts where t: "map_of m ''t'' = Some (ABytes ts)" "span_read dg ts = tid" "span_ok dg ts"
    using decodes_to_bytes [OF assms(1)] q by blast
  obtain ys where y: "map_of m ''y'' = Some (ABytes ys)" "span_read dg ys = ''q''" "span_ok dg ys"
    using decodes_to_bytes [OF assms(1)] q by blast
  obtain qs where qs: "map_of m ''q'' = Some (ABytes qs)" "span_read dg qs = q" "span_ok dg qs"
    using decodes_to_bytes [OF assms(1)] q by blast
  show thesis
    by (rule that [OF n t]) (use t y qs in \<open>simp_all add: get_t_def get_y_def get_q_def packet_of_lookup window_of\<close>)
qed

lemma query_received:
  assumes "c_raw c = []" "c_decoded c = []" "length (c_out c) < c_packet_cap c"
    and "encodable id (AMap d)" "dg = benc id (AMap d)" "length dg \<le> 65536" "is_query q tid args d"
  obtains c1 c2 m n ts where "listen_one (Ok (dg, addr)) c = Done c1" "decode_one c1 = Done c2"
    "handler_one c2 = on_message (packet_of dg m addr c) addr (with_datagram dg c)"
    "decodes_to dg d m" "map_of m ''a'' = Some (AMap n)" "decodes_to dg args n"
    "map_of m ''t'' = Some (ABytes ts)" "span_read dg ts = tid" "span_ok dg ts" "length tid < 2 ^ 63"
    "get_t (packet_of dg m addr c) = Ok (Some (window (buffer_of dg c) ts))"
    "get_y (c_heap c @ [dg]) (packet_of dg m addr c) = Ok ''q''" "get_q (c_heap c @ [dg]) (packet_of dg m addr c) = Ok q"
proof -
  have "0 < c_packet_cap c" using assms(3) by simp
  then obtain c1 c2 m where r: "listen_one (Ok (dg, addr)) c = Done c1" "decode_one c1 = Done c2" "decodes_to dg d m"
    "handler_one c2 = on_message (packet_of dg m addr c) addr (with_datagram dg c)"
    using datagram_received [OF assms(1,2) _ assms(4-6)] by metis
  obtain n ts where q: "map_of m ''a'' = Some (AMap n)" "decodes_to dg args n" "map_of m ''t'' = Some (ABytes ts)"
    "span_read dg ts = tid" "span_ok dg ts" "get_t (packet_of dg m addr c) = Ok (Some (window (buffer_of dg c) ts))"
    "get_y (c_heap c @ [dg]) (packet_of dg m addr c) = Ok ''q''" "get_q (c_heap c @ [dg]) (packet_of dg m addr c) = Ok q"
    by (rule query_fields [OF r(3) assms(7)])
  have "length tid < 2 ^ 63" using window_of(4) [OF q(5)] q(4,5) assms(6) by (auto simp: span_ok_def)
  with r q show thesis by (intro that [of c1 c2 m n ts]) assumption+
qed

text \<open>An argument of 20 bytes, and the transaction outside it.\<close>

lemma arg_clear:
  assumes "decodes_to dg d m" "map_of m ''a'' = Some (AMap n)" "map_of m ''t'' = Some (ABytes ts)" "span_ok dg ts"
    and "map_of n k = Some (ABytes s)" "span_ok dg s" "snd s = fst s + 20"
  shows "clear_of (window (buffer_of dg c) ts) (window (buffer_of dg c) s)"
proof -
  have "apart (ABytes ts) (AMap n)"
    using assms(1-3) by (intro laid_out_keys [of m "''t''" _ "''a''"]) (auto simp: decodes_to_def)
  from apart_clear [OF apart_nested [OF this assms(5)] assms(4,6,7)] show ?thesis .
qed

text \<open>Where an announcing peer can be reached.\<close>

definition announced_addr :: "(string \<times> bytes any) list \<Rightarrow> udp_addr \<Rightarrow> string" where
  "announced_addr d addr =
     (if fst (get_int d ''a.implied_port'') = 0 then ip_string (ip addr) @ '':'' @ itoa (fst (get_int d ''a.port''))
      else udp_addr_string addr)"

lemma announce_datagram:
  assumes "own_id_ok c" "c_raw c = []" "c_decoded c = []" "length (c_out c) < c_packet_cap c"
    and "encodable id (AMap d)" "length (benc id (AMap d)) \<le> 65536" "is_query ''announce_peer'' tid args d"
    and "map_of args ''id'' = Some (ABytes nid)" "length nid = 20" "map_of args ''info_hash'' = Some (ABytes ih)"
    and own: "own = sl_read (c_heap c) (c_node_id c)"
  shows "\<exists>c1 c2 c3. listen_one (Ok (benc id (AMap d), addr)) c = Done c1 \<and> decode_one c1 = Done c2 \<and> handler_one c2 = Done c3
     \<and> c_out c3 = c_out c @ [(benc id (AMap [(''r'', AMap [(''id'', ABytes (take 10 nid @ drop 10 own))]),
          (''t'', ABytes tid), (''y'', AString ''r'')]), addr)]
     \<and> c_requests c3 = c_requests c @ [\<lparr>treq_node_id = own, treq_info_hash = ih,
         treq_addr = announced_addr d addr\<rparr>]"
proof -
  define dg where dg: "dg = benc id (AMap d)"
  have len: "length dg \<le> 65536" using assms(6) by (simp only: dg)
  obtain c1 c2 m n ts where r: "listen_one (Ok (dg, addr)) c = Done c1" "decode_one c1 = Done c2"
    "handler_one c2 = on_message (packet_of dg m addr c) addr (with_datagram dg c)"
    and q: "decodes_to dg d m" "map_of m ''a'' = Some (AMap n)" "decodes_to dg args n" "map_of m ''t'' = Some (ABytes ts)"
    "span_read dg ts = tid" "span_ok dg ts" "length tid < 2 ^ 63"
    "get_t (packet_of dg m addr c) = Ok (Some (window (buffer_of dg c) ts))" "get_y (c_heap c @ [dg]) (packet_of dg m addr c) = Ok ''q''"
    "get_q (c_heap c @ [dg]) (packet_of dg m addr c) = Ok ''announce_peer''"
    by (rule query_received [OF assms(2-5) dg len assms(7)])
  let ?p = "packet_of dg m addr c" and ?c = "with_datagram dg c" and ?w = "window (buffer_of dg c)"
  obtain ns where ns: "map_of n ''id'' = Some (ABytes ns)" "span_read dg ns = nid" "span_ok dg ns"
    by (rule decodes_to_bytes [OF q(3) assms(8)])
  obtain hs where hs: "map_of n ''info_hash'' = Some (ABytes hs)" "span_read dg hs = ih" "span_ok dg hs"
    by (rule decodes_to_bytes [OF q(3) assms(10)])
  have l: "snd ns = fst ns + 20" using ns window_of(4) [OF ns(3)] assms(9) by (auto simp: span_ok_def)
  have "apart (ABytes hs) (ABytes ns)"
    using q(3) laid_out_keys [OF _ hs(1) ns(1)] by (simp add: decodes_to_def)
  note clear = arg_clear [OF q(1,2,4,6) ns(1,3) l, of c] apart_clear [OF this hs(3) ns(3) l, of c]
  have args: "ap_node_id ?p = Some (?w ns)" "ap_info_hash ?p = Some (?w hs)"
    using packet_of_arg [OF q(2) ns(1)] packet_of_arg [OF q(2) hs(1)] by (simp_all add: ap_node_id_def ap_info_hash_def)
  have ints: "ap_implied_port ?p = fst (get_int d ''a.implied_port'')" "ap_port ?p = fst (get_int d ''a.port'')"
    by (simp_all add: ap_implied_port_def ap_port_def packet_of_int [OF q(1)])
  note w = window_of(1-3) [OF q(6), of c] window_of(4) [OF q(6)] window_of(1-3) [OF ns(3), of c] window_of(1-3) [OF hs(3), of c]
  obtain c' where c': "on_announce_peer_request ?p addr ?c = Done c'"
    "c_out c' = c_out c @ [(benc id (AMap [(''r'', AMap [(''id'', ABytes (take 10 nid @ drop 10 own))]),
          (''t'', ABytes tid), (''y'', AString ''r'')]), addr)]"
    "c_requests c' = c_requests c @ [\<lparr>treq_node_id = own, treq_info_hash = ih,
         treq_addr = announced_addr d addr\<rparr>]"
    using announce_peer_handled [OF own_id_with_datagram(1) [OF assms(1)] q(8) args _ _ _ _ _ _ _ _ _ refl, of dg addr]
      w clear own_id_with_datagram(2,3) [OF assms(1), of dg] own assms(4,9) ns(2) hs(2) q(5,7) ints l by (auto simp: announced_addr_def simp del: benc.simps)
  have "handler_one c2 = Done (metric ''traffic'' ''in_announce_peer'' (packet_size ?p) c')"
    using r(3) q(9,10) c'(1) by (simp add: on_message_def run_outcome_def)
  with r(1,2) c'(2,3) show ?thesis unfolding dg [symmetric] by (intro exI [of _ c1] exI [of _ c2] exI) (auto simp del: benc.simps)
qed

text \<open>The query that a peer with the identifier \<^verbatim>\<open>iii...\<close> announces the hash \<^verbatim>\<open>hhh...\<close> with.\<close>

definition announce_example :: "(string \<times> bytes any) list" where
  "announce_example =
     [(''a'', AMap [(''id'', ABytes (replicate 20 CHR ''i'')), (''info_hash'', ABytes (replicate 20 CHR ''h'')), (''port'', AInt 81)]),
      (''q'', ABytes ''announce_peer''), (''t'', ABytes ''aa''), (''y'', ABytes ''q'')]"

definition get_peers_example :: "(string \<times> bytes any) list" where
  "get_peers_example =
     [(''a'', AMap [(''id'', ABytes (replicate 20 CHR ''i'')), (''info_hash'', ABytes (replicate 20 CHR ''h''))]),
      (''q'', ABytes ''get_peers''), (''t'', ABytes ''aa''), (''y'', ABytes ''q'')]"

lemma example_queries_encodable: "encodable id (AMap announce_example)" "encodable id (AMap get_peers_example)"
  by code_simp+

lemma example_crawler_ready:
  "own_id_ok (example_crawler msg)" "c_raw (example_crawler msg) = []" "c_decoded (example_crawler msg) = []"
  "length (c_out (example_crawler msg)) < c_packet_cap (example_crawler msg)"
  "''NNNNNNNNNNmmmmmmmmmm'' = sl_read (c_heap (example_crawler msg)) (c_node_id (example_crawler msg))"
  by (simp_all add: example_crawler_def own_id_ok_def slice_wf_def sl_read_def sub_def)

section \<open>Properties\<close>

text \<open>
  Property C26. An \<^verbatim>\<open>announce_peer\<close> datagram reaches the fetcher: when the bytes of such a query, with a
  node identifier of 20 bytes and any further entries, are received by an idle crawler, the listener, the decoder and the
  handler run to their ends without waiting; one response is queued for the sender, with its transaction
  and as identifier ten bytes of its own followed by the tail of ours; and exactly one request is
  handed to the fetcher, for the announced hash, at the sender's address with the announced port, or with the
  port it sent from when it asked for that.
\<close>

theorem announce_datagram_fetched:
  assumes "own_id_ok c" "c_raw c = []" "c_decoded c = []" "length (c_out c) < c_packet_cap c"
    and "encodable id (AMap d)" "length (benc id (AMap d)) \<le> 65536" "is_query ''announce_peer'' tid args d"
    and "map_of args ''id'' = Some (ABytes nid)" "length nid = 20" "map_of args ''info_hash'' = Some (ABytes ih)"
    and own: "own = sl_read (c_heap c) (c_node_id c)"
  shows "\<exists>c1 c2 c3. listen_one (Ok (benc id (AMap d), addr)) c = Done c1 \<and> decode_one c1 = Done c2 \<and> handler_one c2 = Done c3
     \<and> c_out c3 = c_out c @ [(benc id (AMap [(''r'', AMap [(''id'', ABytes (take 10 nid @ drop 10 own))]),
          (''t'', ABytes tid), (''y'', AString ''r'')]), addr)]
     \<and> c_requests c3 = c_requests c @ [\<lparr>treq_node_id = own, treq_info_hash = ih,
         treq_addr = announced_addr d addr\<rparr>]"
  by (rule announce_datagram [OF assms])

theorem announce_datagram_fetched_witness:
  "\<exists>c1 c2 c3. listen_one (Ok (benc id (AMap announce_example), \<lparr>ip = ''abcd'', port = 80\<rparr>)) (example_crawler []) = Done c1
     \<and> decode_one c1 = Done c2 \<and> handler_one c2 = Done c3
     \<and> c_requests c3 = [\<lparr>treq_node_id = ''NNNNNNNNNNmmmmmmmmmm'', treq_info_hash = replicate 20 CHR ''h'', treq_addr = ''97.98.99.100:81''\<rparr>]"
proof -
  let ?args = "[(''id'', ABytes (replicate 20 CHR ''i'')), (''info_hash'', ABytes (replicate 20 CHR ''h'')), (''port'', AInt 81)]"
  have d: "length (benc id (AMap announce_example)) \<le> 65536" "is_query ''announce_peer'' ''aa'' ?args announce_example" by code_simp+
  have a: "map_of ?args ''id'' = Some (ABytes (replicate 20 CHR ''i''))" "length (replicate 20 CHR ''i'') = 20"
    "map_of ?args ''info_hash'' = Some (ABytes (replicate 20 CHR ''h''))" by simp_all
  have e: "fst (get_int announce_example ''a.implied_port'') = 0" "c_requests (example_crawler []) = []"
    "ip_string ''abcd'' @ '':'' @ itoa (fst (get_int announce_example ''a.port'')) = ''97.98.99.100:81''"
    by code_simp+
  from announce_datagram_fetched [OF example_crawler_ready(1-4) [of "[]"] example_queries_encodable(1) d a example_crawler_ready(5) [of "[]"],
      of "\<lparr>ip = ''abcd'', port = 80\<rparr>"] e
  show ?thesis by (auto simp: announced_addr_def simp del: benc.simps)
qed

text \<open>
  Property C25. A \<^verbatim>\<open>get_peers\<close> datagram is answered: received by an idle crawler, it leads to exactly one
  response to the sender, with its transaction, no nodes, and as identifier ten bytes of the wanted
  hash followed by the tail of ours. The token is the same identifier and not one of the hash: the
  identifier has been written over the hash in the packet's buffer before the token is read. Nothing is
  handed to the fetcher.
\<close>

theorem get_peers_datagram_answered:
  assumes "own_id_ok c" "c_raw c = []" "c_decoded c = []" "length (c_out c) < c_packet_cap c"
    and "encodable id (AMap d)" "length (benc id (AMap d)) \<le> 65536" "is_query ''get_peers'' tid args d"
    and "map_of args ''info_hash'' = Some (ABytes ih)" "length ih = 20"
    and nb: "nb = take 10 ih @ drop 10 (sl_read (c_heap c) (c_node_id c))"
  shows "\<exists>c1 c2 c3. listen_one (Ok (benc id (AMap d), addr)) c = Done c1 \<and> decode_one c1 = Done c2 \<and> handler_one c2 = Done c3
     \<and> c_requests c3 = c_requests c
     \<and> c_out c3 = c_out c @ [(benc id (AMap
         [(''r'', AMap [(''id'', ABytes nb), (''nodes'', AString []), (''token'', ABytes nb)]),
          (''t'', ABytes tid), (''y'', AString ''r'')]), addr)]"
proof -
  define dg where dg: "dg = benc id (AMap d)"
  have len: "length dg \<le> 65536" using assms(6) by (simp only: dg)
  obtain c1 c2 m n ts where r: "listen_one (Ok (dg, addr)) c = Done c1" "decode_one c1 = Done c2"
    "handler_one c2 = on_message (packet_of dg m addr c) addr (with_datagram dg c)"
    and q: "decodes_to dg d m" "map_of m ''a'' = Some (AMap n)" "decodes_to dg args n" "map_of m ''t'' = Some (ABytes ts)"
    "span_read dg ts = tid" "span_ok dg ts" "length tid < 2 ^ 63"
    "get_t (packet_of dg m addr c) = Ok (Some (window (buffer_of dg c) ts))" "get_y (c_heap c @ [dg]) (packet_of dg m addr c) = Ok ''q''"
    "get_q (c_heap c @ [dg]) (packet_of dg m addr c) = Ok ''get_peers''"
    by (rule query_received [OF assms(2-5) dg len assms(7)])
  let ?p = "packet_of dg m addr c" and ?c = "with_datagram dg c" and ?w = "window (buffer_of dg c)"
  obtain hs where hs: "map_of n ''info_hash'' = Some (ABytes hs)" "span_read dg hs = ih" "span_ok dg hs"
    by (rule decodes_to_bytes [OF q(3) assms(8)])
  have l: "snd hs = fst hs + 20" using hs window_of(4) [OF hs(3)] assms(9) by (auto simp: span_ok_def)
  note w = window_of(1-3) [OF q(6), of c] window_of(4) [OF q(6)] window_of(1-3) [OF hs(3), of c]
  have "?w hs\<lparr>sl_len := 20\<rparr> = ?w hs" using w(6) l by simp
  then have ih: "gp_info_hash ?p = Some (?w hs)"
    using packet_of_arg [OF q(2) hs(1)] w(6) l by (simp add: gp_info_hash_def gp_raw_info_hash_def)
  obtain c' where c': "on_get_peers_request ?p addr ?c = Done c'" "c_requests c' = c_requests c"
    "c_out c' = c_out c @ [(benc id (AMap
         [(''r'', AMap [(''id'', ABytes nb), (''nodes'', AString []), (''token'', ABytes nb)]),
          (''t'', ABytes tid), (''y'', AString ''r'')]), addr)]"
    using get_peers_answered [OF own_id_with_datagram(1) [OF assms(1)] q(8) ih _ _ _ _ _ refl, of dg addr]
      w arg_clear [OF q(1,2,4,6) hs(1,3) l, of c] own_id_with_datagram(2) [OF assms(1), of dg] nb assms(4) hs(2) q(5,7)
    by (auto simp del: benc.simps)
  have "handler_one c2 = Done (metric ''traffic'' ''in_get_peers'' (packet_size ?p) c')"
    using r(3) q(9,10) c'(1) by (simp add: on_message_def run_outcome_def)
  with r(1,2) c'(2,3) show ?thesis unfolding dg [symmetric] by (intro exI [of _ c1] exI [of _ c2] exI) (auto simp del: benc.simps)
qed

theorem get_peers_datagram_answered_witness:
  "\<exists>c1 c2 c3. listen_one (Ok (benc id (AMap get_peers_example), \<lparr>ip = ''abcd'', port = 80\<rparr>)) (example_crawler []) = Done c1
     \<and> decode_one c1 = Done c2 \<and> handler_one c2 = Done c3 \<and> c_requests c3 = []
     \<and> map snd (c_out c3) = [\<lparr>ip = ''abcd'', port = 80\<rparr>]"
proof -
  let ?args = "[(''id'', ABytes (replicate 20 CHR ''i'')), (''info_hash'', ABytes (replicate 20 CHR ''h''))]"
  have d: "length (benc id (AMap get_peers_example)) \<le> 65536" "is_query ''get_peers'' ''aa'' ?args get_peers_example" by code_simp+
  have a: "map_of ?args ''info_hash'' = Some (ABytes (replicate 20 CHR ''h''))" "length (replicate 20 CHR ''h'') = 20" by simp_all
  have e: "c_requests (example_crawler []) = []" "c_out (example_crawler []) = []" by code_simp+
  from get_peers_datagram_answered [OF example_crawler_ready(1-4) [of "[]"] example_queries_encodable(2) d a refl,
      of "\<lparr>ip = ''abcd'', port = 80\<rparr>"] e
  show ?thesis by (auto simp del: benc.simps)
qed

end
