(* ===== verification/Crawler_Crashes.thy ===== *)
theory Crawler_Crashes
  imports Crawler_Datagrams
begin

text \<open>
  Which datagrams crash the crawler. No loop of \<^verbatim>\<open>crawler/internal/svc/crawler.go\<close> recovers a panic, so one
  datagram from anybody can end the program. The predicate \<open>harmful_datagram\<close> says of the bytes of a datagram
  whether they do, without reference to the crawler; the lemmas show that it is exact in every well typed
  state.
\<close>

section \<open>Harmful messages\<close>

text \<open>
  \<open>rd\<close> reads a byte string of the message, and \<open>room\<close> counts the bytes of the datagram from its beginning on: a
  slice of the packet buffer can be extended up to there.
\<close>

definition absent_or_bytes :: "(string \<times> 'b any) list \<Rightarrow> string \<Rightarrow> bool" where
  "absent_or_bytes d k = (case map_of d k of None \<Rightarrow> True | Some (ABytes _) \<Rightarrow> True | Some _ \<Rightarrow> False)"

definition has_bytes :: "(string \<times> 'b any) list \<Rightarrow> string \<Rightarrow> bool" where
  "has_bytes d k = (case map_of d k of Some (ABytes _) \<Rightarrow> True | _ \<Rightarrow> False)"

definition harmful_response :: "(string \<times> 'b any) list \<Rightarrow> bool" where
  "harmful_response d =
     (case map_of d ''r'' of
        None \<Rightarrow> False
      | Some (AMap m) \<Rightarrow> map_of m ''nodes'' \<noteq> None \<and> (\<not> absent_or_bytes d ''t'' \<or> \<not> has_bytes m ''id'' \<or> \<not> has_bytes m ''nodes'')
      | Some _ \<Rightarrow> True)"

definition harmful_announce :: "('b \<Rightarrow> nat) \<Rightarrow> (string \<times> 'b any) list \<Rightarrow> bool" where
  "harmful_announce room d \<longleftrightarrow>
     \<not> absent_or_bytes d ''t'' \<or> (case must_get_bytes d ''a.id'' of None \<Rightarrow> True | Some s \<Rightarrow> room s < 10)"

definition harmful_query :: "('b \<Rightarrow> bytes) \<Rightarrow> ('b \<Rightarrow> nat) \<Rightarrow> (string \<times> 'b any) list \<Rightarrow> bool" where
  "harmful_query rd room d =
     (case map_of d ''q'' of
        None \<Rightarrow> False
      | Some (ABytes q) \<Rightarrow>
          if rd q = ''get_peers'' then \<not> absent_or_bytes d ''t''
          else if rd q = ''announce_peer'' then harmful_announce room d
          else False
      | Some _ \<Rightarrow> True)"

definition harmful :: "('b \<Rightarrow> bytes) \<Rightarrow> ('b \<Rightarrow> nat) \<Rightarrow> (string \<times> 'b any) list \<Rightarrow> bool" where
  "harmful rd room d =
     (case map_of d ''y'' of
        None \<Rightarrow> False
      | Some (ABytes y) \<Rightarrow>
          if rd y = ''r'' then harmful_response d
          else if rd y = ''q'' then harmful_query rd room d
          else False
      | Some _ \<Rightarrow> True)"

text \<open>A datagram that makes the decoder panic, or that is a harmful message.\<close>

definition harmful_datagram :: "bytes \<Rightarrow> bool" where
  "harmful_datagram datagram =
     (let dg = take 65536 datagram
      in case bdecode dg of
           Ok (AMap m) \<Rightarrow> harmful (span_read dg) (\<lambda>s. length dg - fst s) m
         | Ok _ \<Rightarrow> False
         | Err _ \<Rightarrow> False
         | Panic _ \<Rightarrow> True)"

text \<open>A datagram on its way through the listener, a decoder and a handler.\<close>

definition receive_datagram :: "bytes \<Rightarrow> udp_addr \<Rightarrow> crawler \<Rightarrow> crawler run" where
  "receive_datagram datagram addr c =
     rbind (listen_one (Ok (datagram, addr)) c) (\<lambda>c. rbind (decode_one c) handler_one)"

primrec crashes :: "'a run \<Rightarrow> bool" where
  "crashes (Done x) = False"
| "crashes Wait = False"
| "crashes (Crash p) = True"

section \<open>Steps that do not crash\<close>

lemma crashes_iff: "crashes m \<longleftrightarrow> (\<exists>p. m = Crash p)"
  by (cases m) simp_all

lemma crashes_rbind: "crashes (rbind m f) \<longleftrightarrow> crashes m \<or> (\<exists>x. m = Done x \<and> crashes (f x))"
  by (cases m) simp_all

lemma crashes_run_outcome:
  "crashes (run_outcome m onErr f) \<longleftrightarrow>
     is_panic m \<or> (\<exists>x. m = Ok x \<and> crashes (f x)) \<or> (\<exists>e. m = Err e \<and> crashes (onErr e))"
  by (cases m) (simp_all add: run_outcome_def is_panic_iff)

text \<open>The encoder reports what it cannot encode; it never panics.\<close>

lemma encode_no_panic:
  "\<not> is_panic (encode_any rd b v)" "\<not> is_panic (encode_map_loop rd b ks m)" "\<not> is_panic (encode_list_loop rd b xs)"
  by (induction rd b v and rd b ks m and rd b xs rule: encode_any_encode_map_loop_encode_list_loop.induct)
    (auto simp: is_panic_iff obind_eq_Panic split: option.splits)

lemma send_packet_no_crash: "\<not> crashes (send_packet pkt addr c)"
proof -
  have "\<not> is_panic (packet_encode h p)" for h p
    using encode_no_panic(1) by (auto simp: packet_encode_def bencode_def is_panic_iff obind_eq_Panic Let_def simp del: encode_any.simps split: prod.splits)
  then show ?thesis by (auto simp: send_packet_def Let_def crashes_run_outcome split: prod.splits)
qed

lemma find_node_loop_no_crash: "\<not> crashes (on_find_node_response_loop nodes c)"
  by (induction nodes c rule: on_find_node_response_loop.induct)
    (auto simp: Let_def crashes_rbind run_option_def split: option.splits)

section \<open>The handlers\<close>

lemma get_t_panic: "is_panic (get_t p) \<longleftrightarrow> \<not> absent_or_bytes (p_data p) ''t''"
  by (auto simp: get_t_def absent_or_bytes_def is_panic_iff split: option.splits any.splits)

lemma get_t_not_err: "get_t p \<noteq> Err e"
  by (auto simp: get_t_def split: option.splits any.splits)

lemma neighbour_id_panic:
  assumes "slice_wf h own" "10 \<le> sl_len own"
  shows "is_panic (get_neighbour_id h target own) \<longleftrightarrow> sl_cap target < 10" "get_neighbour_id h target own \<noteq> Err e"
  using assms by (auto simp: get_neighbour_id_def reslice_def is_panic_iff slice_wf_def)

lemma get_peers_crashes:
  assumes "slice_wf (c_heap c) (c_node_id c)" "10 \<le> sl_len (c_node_id c)" "packet_ok (c_heap c) (c_node_id c) req"
  shows "crashes (on_get_peers_request req addr c) \<longleftrightarrow> \<not> absent_or_bytes (p_data req) ''t''"
proof -
  have "\<not> sl_cap ih < 10" if "gp_info_hash req = Some ih" for ih
    using that packet_slices(1) [OF assms(3), of "''a.info_hash''"]
    by (auto simp: gp_info_hash_def gp_raw_info_hash_def foreign_def slice_wf_def split: option.splits if_splits)
  then show ?thesis
    using neighbour_id_panic [OF assms(1,2)] get_t_panic [of req] get_t_not_err [of req]
    by (auto simp: on_get_peers_request_def Let_def crashes_run_outcome crashes_rbind send_packet_no_crash is_panic_iff split: option.splits prod.splits)
qed

lemma announce_peer_crashes:
  assumes "slice_wf (c_heap c) (c_node_id c)" "10 \<le> sl_len (c_node_id c)"
  shows "crashes (on_announce_peer_request req addr c) \<longleftrightarrow> harmful_announce sl_cap (p_data req)"
  using neighbour_id_panic [OF assms] get_t_panic [of req] get_t_not_err [of req]
  by (cases "get_t req"; cases "ap_node_id req")
    (auto simp: on_announce_peer_request_def Let_def crashes_run_outcome crashes_rbind send_packet_no_crash harmful_announce_def
      is_panic_iff ap_node_id_def slice_of_def nil_slice_def split: prod.splits)

text \<open>What makes reading a response fail.\<close>

lemma map_bytes_panic: "map_bytes m k = (if has_bytes m k then Ok (case the (map_of m k) of ABytes b \<Rightarrow> b) else Panic BadTypeAssertion)"
  by (auto simp: map_bytes_def has_bytes_def split: option.splits any.splits)

lemma find_node_response_crashes:
  assumes "packet_ok h own p"
  shows "check_map_path (p_data p) ''r.nodes'' \<and> \<not> is_ok (new_find_node_response h p) \<longleftrightarrow> harmful_response (p_data p)"
proof (cases "map_of (p_data p) ''r''")
  case None
  then show ?thesis
    using get_by_path_two [of "''r''" "''nodes''" "p_data p"]
    by (simp add: check_map_path_def check_loop_path_loop get_by_path_def harmful_response_def)
next
  case (Some v)
  have path: "check_map_path (p_data p) ''r.nodes'' \<longleftrightarrow> (case v of AMap m \<Rightarrow> map_of m ''nodes'' \<noteq> None | _ \<Rightarrow> True)"
    using get_by_path_two [of "''r''" "''nodes''" "p_data p"] Some
    by (cases v) (simp_all add: check_map_path_def check_loop_path_loop get_by_path_def)
  show ?thesis
  proof (cases v)
    case (AMap m)
    have "is_ok (nodes_loop h raw 0 [])" if "map_bytes m ''nodes'' = Ok raw" for raw
      using nodes_loop_ok [of h raw 0 "[]"] packet_slices(3) [OF assms, of "''r''" m "''nodes''" raw] Some AMap that
      by (auto simp: is_ok_iff packet_get_def foreign_def)
    moreover have "is_ok (get_t p) \<longleftrightarrow> absent_or_bytes (p_data p) ''t''"
      using get_t_panic [of p] get_t_not_err [of p] by (cases "get_t p") (auto simp: is_panic_iff is_ok_iff)
    ultimately show ?thesis using path Some AMap
      by (auto simp: new_find_node_response_def packet_get_def harmful_response_def is_ok_iff obind_eq_Ok map_bytes_panic)
  qed (use Some path in \<open>auto simp: harmful_response_def new_find_node_response_def packet_get_def is_ok_iff obind_eq_Ok\<close>)
qed

lemma get_y_simps:
  "map_of (p_data p) ''y'' = None \<Longrightarrow> get_y h p = Ok []" "map_of (p_data p) ''y'' = Some (ABytes b) \<Longrightarrow> get_y h p = Ok (sl_read h b)"
  "map_of (p_data p) ''y'' = Some v \<Longrightarrow> \<forall>b. v \<noteq> ABytes b \<Longrightarrow> get_y h p = Panic BadTypeAssertion"
  by (auto simp: get_y_def split: any.splits)

lemma query_crashes:
  assumes "slice_wf (c_heap c) (c_node_id c)" "10 \<le> sl_len (c_node_id c)" "packet_ok (c_heap c) (c_node_id c) p"
    and "get_y (c_heap c) p = Ok ''q''"
  shows "crashes (on_message p addr c) \<longleftrightarrow> harmful_query (sl_read (c_heap c)) sl_cap (p_data p)"
  using assms(4) get_peers_crashes [OF assms(1-3)] announce_peer_crashes [OF assms(1,2)]
  by (cases "map_of (p_data p) ''q''"; cases "the (map_of (p_data p) ''q'')")
    (auto simp: on_message_def crashes_run_outcome crashes_rbind get_q_def harmful_query_def is_panic_iff)

lemma message_crashes:
  assumes "slice_wf (c_heap c) (c_node_id c)" "10 \<le> sl_len (c_node_id c)" "packet_ok (c_heap c) (c_node_id c) p"
  shows "crashes (on_message p addr c) \<longleftrightarrow> harmful (sl_read (c_heap c)) sl_cap (p_data p)"
proof (cases "map_of (p_data p) ''y''")
  case None
  then show ?thesis by (simp add: on_message_def crashes_run_outcome get_y_simps harmful_def is_panic_iff)
next
  case (Some v)
  show ?thesis
  proof (cases "\<exists>y. v = ABytes y")
    case True
    then obtain y where y: "v = ABytes y" by blast
    then have g: "get_y (c_heap c) p = Ok (sl_read (c_heap c) y)" using Some by (simp add: get_y_simps)
    consider "sl_read (c_heap c) y = ''r''" | "sl_read (c_heap c) y = ''q''" | "sl_read (c_heap c) y \<notin> {''r'', ''q''}" by blast
    then show ?thesis
    proof cases
      case 1
      have "crashes (on_message p addr c) \<longleftrightarrow> check_map_path (p_data p) ''r.nodes'' \<and> \<not> is_ok (new_find_node_response (c_heap c) p)"
        using g 1 find_node_loop_no_crash
        by (cases "new_find_node_response (c_heap c) p")
          (auto simp: on_message_def crashes_run_outcome crashes_rbind is_panic_iff is_ok_iff on_find_node_response_def)
      then show ?thesis using find_node_response_crashes [OF assms(3)] Some y 1 by (simp add: harmful_def)
    next
      case 2
      then show ?thesis using query_crashes [OF assms] g Some y by (simp add: harmful_def)
    next
      case 3
      then show ?thesis using g Some y by (simp add: on_message_def crashes_run_outcome harmful_def is_panic_iff)
    qed
  next
    case False
    then show ?thesis using Some get_y_simps(3) [of p v "c_heap c"]
      by (cases v) (simp_all add: on_message_def crashes_run_outcome harmful_def is_panic_iff)
  qed
qed

section \<open>From the bytes\<close>

text \<open>Being harmful does not depend on how the byte strings are held.\<close>

lemma lookup_mapped: "map_of (map (map_prod id (map_any f)) m) k = map_option (map_any f) (map_of m k)"
  by (rule map_of_map_prod_id)

lemma absent_or_bytes_mapped: "absent_or_bytes (map (map_prod id (map_any f)) m) k = absent_or_bytes m k"
  unfolding absent_or_bytes_def lookup_mapped by (auto split: option.splits any.splits)

lemma has_bytes_mapped: "has_bytes (map (map_prod id (map_any f)) m) k = has_bytes m k"
  unfolding has_bytes_def lookup_mapped by (auto split: option.splits any.splits)

lemma must_get_bytes_mapped: "must_get_bytes (map (map_prod id (map_any f)) m) k = map_option f (must_get_bytes m k)"
  using path_loop_map_any [of f "AMap m" "split_on CHR ''.'' k"]
  by (auto simp: must_get_bytes_def get_by_path_def split: option.splits any.splits)

lemmas harmful_defs = harmful_def harmful_query_def harmful_announce_def harmful_response_def

lemma harmful_mapped:
  "harmful rd room (map (map_prod id (map_any f)) m) = harmful (\<lambda>s. rd (f s)) (\<lambda>s. room (f s)) m"
proof -
  have r: "harmful_response (map (map_prod id (map_any f)) m) = harmful_response m"
    unfolding harmful_response_def lookup_mapped absent_or_bytes_mapped
    by (cases "map_of m ''r''"; cases "the (map_of m ''r'')") (auto simp: lookup_mapped has_bytes_mapped)
  have a: "harmful_announce room (map (map_prod id (map_any f)) m) = harmful_announce (\<lambda>s. room (f s)) m"
    unfolding harmful_announce_def absent_or_bytes_mapped must_get_bytes_mapped by (auto split: option.splits)
  have q: "harmful_query rd room (map (map_prod id (map_any f)) m) = harmful_query (\<lambda>s. rd (f s)) (\<lambda>s. room (f s)) m"
    unfolding harmful_query_def lookup_mapped a absent_or_bytes_mapped
    by (cases "map_of m ''q''"; cases "the (map_of m ''q'')") auto
  show ?thesis
    unfolding harmful_def lookup_mapped r q by (cases "map_of m ''y''"; cases "the (map_of m ''y'')") auto
qed

lemma window_reads: "sl_read (c_heap c @ [dg]) (window (buffer_of dg c) s) = span_read dg s"
  by (simp add: sl_read_def window_def buffer_of_def span_read_def sub_def nth_append)

text \<open>A datagram that finds the channels empty: what the decoder makes of it decides.\<close>

lemma receive_datagram_eq:
  assumes "c_raw c = []" "c_decoded c = []" "0 < c_packet_cap c" "dg = take 65536 datagram"
  shows "receive_datagram datagram addr c =
     (case bdecode dg of
        Ok v \<Rightarrow> (case v of AMap m \<Rightarrow> on_message (packet_of dg m addr c) addr (with_datagram dg c) | _ \<Rightarrow> Wait)
      | Err _ \<Rightarrow> Wait
      | Panic p \<Rightarrow> Crash p)"
proof -
  let ?p = "(new_packet_from_buffer (buffer_of dg c))\<lparr>p_addr := Some addr\<rparr>"
  let ?c1 = "c\<lparr>c_heap := c_heap c @ [dg], c_raw := [?p]\<rparr>"
  have 1: "listen_one (Ok (datagram, addr)) c = Done ?c1"
    using assms(1,3,4) by (simp add: listen_one_def alloc_def buffer_of_def Let_def)
  have rd: "sl_read (c_heap ?c1) (p_buf ?p) = dg"
    using buffer_wf(2) by (simp add: new_packet_from_buffer_def)
  have w: "with_datagram dg c = ?c1\<lparr>c_raw := [], c_decoded := []\<rparr>"
    using assms(1,2) by (cases c) (simp add: with_datagram_def)
  show ?thesis
  proof (cases "bdecode dg")
    case (Ok v)
    show ?thesis
    proof (cases v)
      case (AMap m)
      have "packet_decode (c_heap ?c1) ?p = Ok (packet_of dg m addr c)"
        using Ok AMap rd by (simp add: packet_decode_def packet_of_def new_packet_from_buffer_def map_any_AMap)
      then show ?thesis
        using 1 Ok AMap assms(2,3) w
        by (simp add: receive_datagram_def decode_one_def handler_one_def Let_def run_outcome_def packet_of_def)
    qed (use 1 Ok rd assms(2) in \<open>simp_all add: receive_datagram_def decode_one_def handler_one_def Let_def run_outcome_def packet_decode_def\<close>)
  qed (use 1 rd assms(2) in \<open>simp_all add: receive_datagram_def decode_one_def handler_one_def Let_def run_outcome_def packet_decode_def\<close>)
qed

lemma packet_of_ok:
  assumes "bdecode dg = Ok (AMap m)" "slice_wf (c_heap c) (c_node_id c)"
  shows "packet_ok (c_heap c @ [dg]) (c_node_id c) (packet_of dg m addr c)"
proof -
  let ?p = "(new_packet_from_buffer (buffer_of dg c))\<lparr>p_addr := Some addr\<rparr>"
  have "packet_ok (c_heap c @ [dg]) (c_node_id c) ?p"
    using assms(2) by (auto simp: packet_ok_def new_packet_from_buffer_def foreign_def buffer_wf) (auto simp: buffer_of_def slice_wf_def)
  moreover have "packet_decode (c_heap c @ [dg]) ?p = Ok (packet_of dg m addr c)"
    using assms(1) buffer_wf(2) [of c dg] by (simp add: packet_decode_def packet_of_def new_packet_from_buffer_def map_any_AMap)
  ultimately show ?thesis by (rule packet_decode_slices [rotated])
qed

section \<open>Property\<close>

text \<open>
  Property C14. Exactly which datagrams crash the crawler. In every well typed state with an identifier of at
  least ten bytes, a datagram that is read, decoded and handled ends in a panic if and only if the
  decoder panics on it or it is a dictionary with one of these faults: \<^verbatim>\<open>y\<close> or, in a query, \<^verbatim>\<open>q\<close> is not a string;
  a response whose \<^verbatim>\<open>r\<close> is not a dictionary; a response with \<^verbatim>\<open>nodes\<close> whose \<^verbatim>\<open>nodes\<close>, \<^verbatim>\<open>id\<close> or \<^verbatim>\<open>t\<close> is not a string; a
  get_peers or announce_peer query whose \<^verbatim>\<open>t\<close> is not a string; an announce_peer query without an \<^verbatim>\<open>id\<close>, or whose \<^verbatim>\<open>id\<close>
  begins less than ten bytes before the end of the datagram. No other datagram does.
\<close>

theorem datagram_crashes_iff:
  assumes "crawler_ok nid c" "10 \<le> length nid" "c_raw c = []" "c_decoded c = []" "0 < c_packet_cap c"
  shows "(\<exists>p. receive_datagram datagram addr c = Crash p) \<longleftrightarrow> harmful_datagram datagram"
proof -
  let ?dg = "take 65536 datagram"
  have own: "slice_wf (c_heap c) (c_node_id c)" "10 \<le> sl_len (c_node_id c)"
    using assms(1,2) length_sl_read [of "c_heap c" "c_node_id c"] by (auto simp: crawler_ok_def)
  note eq = receive_datagram_eq [OF assms(3-5) refl]
  show ?thesis
  proof (cases "bdecode ?dg")
    case (Ok v)
    show ?thesis
    proof (cases v)
      case (AMap m)
      let ?c = "with_datagram ?dg c"
      have ok: "packet_ok (c_heap ?c) (c_node_id ?c) (packet_of ?dg m addr c)"
        using packet_of_ok [OF Ok [unfolded AMap] own(1)] by simp
      have wf: "slice_wf (c_heap ?c) (c_node_id ?c)"
        using own(1) alloc_old [of "c_heap c" ?dg] by (auto simp: alloc_def)
      have "crashes (on_message (packet_of ?dg m addr c) addr ?c) \<longleftrightarrow> harmful (span_read ?dg) (\<lambda>s. length ?dg - fst s) m"
        using message_crashes [OF wf _ ok] own(2)
        by (simp add: packet_of_def harmful_mapped window_reads) (simp add: window_def buffer_of_def)
      then show ?thesis using eq Ok AMap by (simp add: crashes_iff harmful_datagram_def Let_def)
    qed (use eq Ok in \<open>simp_all add: harmful_datagram_def Let_def\<close>)
  qed (use eq in \<open>simp_all add: harmful_datagram_def Let_def\<close>)
qed

text \<open>An announcement whose identifier is the last string of the datagram, and the same with room behind it.\<close>

theorem datagram_crashes_iff_witness:
  "(\<exists>p. receive_datagram ''d1:q13:announce_peer1:y1:q1:ad2:id1:xee'' \<lparr>ip = ''abcd'', port = 80\<rparr> (example_crawler []) = Crash p)
   \<and> \<not> (\<exists>p. receive_datagram ''d1:ad2:id1:xe1:q13:announce_peer1:y1:qe'' \<lparr>ip = ''abcd'', port = 80\<rparr> (example_crawler []) = Crash p)"
proof -
  have ok: "crawler_ok ''NNNNNNNNNNmmmmmmmmmm'' (example_crawler [])"
    by (simp add: crawler_ok_def example_crawler_def slice_wf_def sl_read_def sub_def)
  have short: "harmful_datagram dg = (case bdecode dg of
      Ok (AMap m) \<Rightarrow> harmful (span_read dg) (\<lambda>s. length dg - fst s) m | Ok _ \<Rightarrow> False | Err _ \<Rightarrow> False | Panic _ \<Rightarrow> True)"
    if "length dg \<le> 65536" for dg
    using that by (simp add: harmful_datagram_def Let_def)
  have "harmful_datagram ''d1:q13:announce_peer1:y1:q1:ad2:id1:xee''" by (subst short) (simp, code_simp)
  moreover have "\<not> harmful_datagram ''d1:ad2:id1:xe1:q13:announce_peer1:y1:qe''" by (subst short) (simp, code_simp)
  moreover note crash = datagram_crashes_iff [OF ok _ example_crawler_ready(2,3) [of "[]"]]
  ultimately show ?thesis using example_crawler_ready(4) [of "[]"] by (simp add: crash)
qed

end
