(* ===== verification/Bootstrap_Race.thy ===== *)
theory Bootstrap_Race
  imports Crawler Step_System
begin

text \<open>
  \<^verbatim>\<open>SetBootstrapNodes\<close> of \<^verbatim>\<open>crawler/internal/svc/crawler.go\<close> with its goroutines: one for each address, all of which
  append to the same slice without a lock. \<^verbatim>\<open>nodes = append(nodes, node)\<close> is three steps: the goroutine loads the
  slice, writes the element behind its end, and stores the longer slice. The theory shows what can come
  of it: nodes may be lost, but nothing else goes wrong, and every outcome is one that \<^const>\<open>set_bootstrap_nodes\<close>
  gives for a selection of the addresses.
\<close>

section \<open>Goroutines\<close>

text \<open>Where a goroutine is, with the length of the slice it has loaded.\<close>

datatype resolver = Resolving | Loaded nat | Written nat | Finished

text \<open>
  The array behind \<^verbatim>\<open>nodes\<close> has room for one node of each goroutine. A slot holds the pointer to the node that a
  goroutine has made, and the goroutine's number stands for the pointer. \<open>b_len\<close> is the length of the shared slice.
\<close>

record boot =
  b_slots :: "nat option list"
  b_len :: nat
  b_procs :: "resolver list"

definition boot_begin :: "udp_addr outcome list \<Rightarrow> boot \<Rightarrow> bool" where
  "boot_begin addrs s \<longleftrightarrow>
     s = \<lparr>b_slots = replicate (length addrs) None, b_len = 0, b_procs = replicate (length addrs) Resolving\<rparr>"

inductive boot_step :: "udp_addr outcome list \<Rightarrow> boot \<Rightarrow> boot \<Rightarrow> bool" for addrs where
  bs_unresolved: "i < length (b_procs s) \<Longrightarrow> b_procs s ! i = Resolving \<Longrightarrow> \<not> is_ok (addrs ! i)
    \<Longrightarrow> boot_step addrs s (s\<lparr>b_procs := (b_procs s)[i := Finished]\<rparr>)"
| bs_load: "i < length (b_procs s) \<Longrightarrow> b_procs s ! i = Resolving \<Longrightarrow> is_ok (addrs ! i)
    \<Longrightarrow> boot_step addrs s (s\<lparr>b_procs := (b_procs s)[i := Loaded (b_len s)]\<rparr>)"
| bs_write: "i < length (b_procs s) \<Longrightarrow> b_procs s ! i = Loaded l \<Longrightarrow> l < length (b_slots s)
    \<Longrightarrow> boot_step addrs s (s\<lparr>b_slots := (b_slots s)[l := Some i], b_procs := (b_procs s)[i := Written l]\<rparr>)"
| bs_store: "i < length (b_procs s) \<Longrightarrow> b_procs s ! i = Written l
    \<Longrightarrow> boot_step addrs s (s\<lparr>b_len := l + 1, b_procs := (b_procs s)[i := Finished]\<rparr>)"

inductive_cases boot_stepE: "boot_step addrs s t"

text \<open>\<^verbatim>\<open>group.Wait()\<close> returns when every goroutine is done; the slice is then what is assigned.\<close>

definition boot_done :: "boot \<Rightarrow> bool" where
  "boot_done s \<longleftrightarrow> list_all (\<lambda>p. p = Finished) (b_procs s)"

definition boot_slice :: "boot \<Rightarrow> nat option list" where
  "boot_slice s = take (b_len s) (b_slots s)"

section \<open>The invariant\<close>

text \<open>The slots below \<open>l\<close> hold nodes.\<close>

definition filled :: "boot \<Rightarrow> nat \<Rightarrow> bool" where
  "filled s l \<longleftrightarrow> l \<le> length (b_slots s) \<and> (\<forall>j < l. b_slots s ! j \<noteq> None)"

fun proc_ok :: "boot \<Rightarrow> nat \<Rightarrow> resolver \<Rightarrow> bool" where
  "proc_ok s i Resolving \<longleftrightarrow> Some i \<notin> set (b_slots s)"
| "proc_ok s i (Loaded l) \<longleftrightarrow> Some i \<notin> set (b_slots s) \<and> filled s l"
| "proc_ok s i (Written l) \<longleftrightarrow> filled s (l + 1)"
| "proc_ok s i Finished \<longleftrightarrow> True"

definition boot_inv :: "udp_addr outcome list \<Rightarrow> boot \<Rightarrow> bool" where
  "boot_inv addrs s \<longleftrightarrow> length (b_slots s) = length addrs \<and> length (b_procs s) = length addrs
   \<and> filled s (b_len s) \<and> (\<forall>i < length addrs. proc_ok s i (b_procs s ! i))
   \<and> (\<forall>i < length addrs. b_procs s ! i \<noteq> Resolving \<and> b_procs s ! i \<noteq> Finished \<longrightarrow> is_ok (addrs ! i))
   \<and> (\<forall>i. Some i \<in> set (b_slots s) \<longrightarrow> i < length addrs \<and> is_ok (addrs ! i))
   \<and> distinct (filter (\<lambda>x. x \<noteq> None) (b_slots s))
   \<and> ((\<exists>i < length addrs. b_procs s ! i = Finished \<and> is_ok (addrs ! i)) \<longrightarrow> 0 < b_len s)"

lemma filled_frame [simp]: "filled (s\<lparr>b_len := n\<rparr>) l = filled s l" "filled (s\<lparr>b_procs := ps\<rparr>) l = filled s l"
  by (simp_all add: filled_def)

lemma proc_ok_frame [simp]: "proc_ok (s\<lparr>b_len := n\<rparr>) i p = proc_ok s i p" "proc_ok (s\<lparr>b_procs := ps\<rparr>) i p = proc_ok s i p"
  by (cases p, simp_all)+

text \<open>A slice that a goroutine has loaded leaves room for its node, because that node is in no slot yet.\<close>

lemma filled_room:
  assumes "filled s l" "Some i \<notin> set (b_slots s)" "i < length (b_slots s)"
    and "\<forall>k. Some k \<in> set (b_slots s) \<longrightarrow> k < length (b_slots s)" "distinct (filter (\<lambda>x. x \<noteq> None) (b_slots s))"
  shows "l < length (b_slots s)"
proof (rule ccontr)
  assume "\<not> l < length (b_slots s)"
  then have l: "l = length (b_slots s)" using assms(1) by (simp add: filled_def)
  then have all: "\<forall>x \<in> set (b_slots s). x \<noteq> None" using assms(1) by (metis filled_def in_set_conv_nth)
  then have "filter (\<lambda>x. x \<noteq> None) (b_slots s) = b_slots s" by (simp add: filter_id_conv)
  then have d: "distinct (b_slots s)" using assms(5) by simp
  have "set (b_slots s) \<subseteq> Some ` ({..<length (b_slots s)} - {i})"
  proof
    fix x assume x: "x \<in> set (b_slots s)"
    then obtain k where "x = Some k" using all by (cases x) auto
    with x assms(2,4) show "x \<in> Some ` ({..<length (b_slots s)} - {i})" by auto
  qed
  then have "card (set (b_slots s)) \<le> card ({..<length (b_slots s)} - {i})"
    by (intro order.trans [OF card_mono card_image_le]) auto
  then show False using distinct_card [OF d] assms(3) by simp
qed

lemma filter_update_distinct:
  assumes "distinct (filter (\<lambda>x. x \<noteq> None) xs)" "y \<notin> set xs"
  shows "distinct (filter (\<lambda>x. x \<noteq> None) (xs[l := y]))"
  using assms
proof (induction xs arbitrary: l)
  case (Cons x xs)
  show ?case
  proof (cases l)
    case (Suc k)
    have "set (xs[k := y]) \<subseteq> insert y (set xs)" by (rule set_update_subset_insert)
    then show ?thesis using Cons Suc by auto
  qed (use Cons in \<open>auto split: if_splits\<close>)
qed simp

section \<open>Every step keeps it\<close>

lemma boot_inv_init: "boot_begin addrs s \<Longrightarrow> boot_inv addrs s"
  by (auto simp: boot_begin_def boot_inv_def filled_def)

lemma boot_inv_procs:
  assumes "boot_inv addrs s" "i < length addrs" "proc_ok s i p"
    and "p \<noteq> Resolving \<and> p \<noteq> Finished \<longrightarrow> is_ok (addrs ! i)" "p = Finished \<and> is_ok (addrs ! i) \<longrightarrow> 0 < b_len s"
  shows "boot_inv addrs (s\<lparr>b_procs := (b_procs s)[i := p]\<rparr>)"
  using assms
  by (auto simp: boot_inv_def nth_list_update)

lemma boot_inv_write:
  assumes "boot_inv addrs s" "i < length addrs" "b_procs s ! i = Loaded l" "l < length (b_slots s)"
  shows "boot_inv addrs (s\<lparr>b_slots := (b_slots s)[l := Some i], b_procs := (b_procs s)[i := Written l]\<rparr>)" (is "boot_inv addrs ?t")
proof -
  have i: "Some i \<notin> set (b_slots s)" "filled s l" "is_ok (addrs ! i)"
    using assms(1-3) by (auto simp: boot_inv_def dest: spec [of _ i])
  have set: "set (b_slots ?t) \<subseteq> insert (Some i) (set (b_slots s))" by (simp add: set_update_subset_insert)
  have f: "filled ?t k" if "filled s k" for k
    using that assms(4) by (auto simp: filled_def nth_list_update)
  have p: "proc_ok ?t k (b_procs ?t ! k)" if k: "k < length addrs" for k
  proof (cases "k = i")
    case True
    then show ?thesis using i(2) assms(1,2,4) f [OF i(2)] by (auto simp: boot_inv_def filled_def nth_list_update less_Suc_eq)
  next
    case False
    have "proc_ok s k (b_procs s ! k)" using assms(1) k by (simp add: boot_inv_def)
    then show ?thesis using False f set by (cases "b_procs s ! k") auto
  qed
  have "filled ?t (b_len ?t)" using f assms(1) by (simp add: boot_inv_def)
  moreover have "distinct (filter (\<lambda>x. x \<noteq> None) (b_slots ?t))"
    using filter_update_distinct [OF _ i(1)] assms(1) by (simp add: boot_inv_def)
  ultimately show ?thesis
    using assms(1,2) p set i(3) unfolding boot_inv_def by (auto simp: nth_list_update split: if_splits)
qed

lemma boot_inv_store:
  assumes "boot_inv addrs s" "i < length addrs" "b_procs s ! i = Written l"
  shows "boot_inv addrs (s\<lparr>b_len := l + 1, b_procs := (b_procs s)[i := Finished]\<rparr>)"
proof -
  have "filled s (l + 1)" using assms by (auto simp: boot_inv_def dest: spec [of _ i])
  then have "boot_inv addrs (s\<lparr>b_len := l + 1\<rparr>)"
    using assms(1) by (auto simp: boot_inv_def)
  from boot_inv_procs [OF this assms(2), of Finished] show ?thesis by simp
qed

lemma boot_inv_step:
  assumes "boot_inv addrs s" "boot_step addrs s t"
  shows "boot_inv addrs t"
proof -
  have n: "length (b_procs s) = length addrs" using assms(1) by (simp add: boot_inv_def)
  from assms(2) show ?thesis
  proof (cases rule: boot_step.cases)
    case (bs_unresolved i)
    then show ?thesis using boot_inv_procs [OF assms(1), of i Finished] n by simp
  next
    case (bs_load i)
    then have "proc_ok s i (Loaded (b_len s))" using assms(1) n by (auto simp: boot_inv_def dest: spec [of _ i])
    then show ?thesis using boot_inv_procs [OF assms(1), of i "Loaded (b_len s)"] bs_load n by simp
  next
    case (bs_write i l)
    then show ?thesis using boot_inv_write [OF assms(1), of i l] n by simp
  next
    case (bs_store i l)
    then show ?thesis using boot_inv_store [OF assms(1), of i l] n by simp
  qed
qed

interpretation bt: inv_system "boot_begin addrs" "boot_step addrs" "boot_inv addrs" for addrs
  by unfold_locales (rule boot_inv_init, assumption, rule boot_inv_step)

section \<open>Every run ends\<close>

fun steps_left :: "resolver \<Rightarrow> nat" where
  "steps_left Resolving = 3"
| "steps_left (Loaded _) = 2"
| "steps_left (Written _) = 1"
| "steps_left Finished = 0"

definition work :: "boot \<Rightarrow> nat" where
  "work s = (\<Sum>p \<leftarrow> b_procs s. steps_left p)"

lemma work_update:
  assumes "i < length ps" "steps_left p < steps_left (ps ! i)"
  shows "(\<Sum>q \<leftarrow> ps[i := p]. steps_left q) < (\<Sum>q \<leftarrow> ps. steps_left q)"
  using assms by (induction ps arbitrary: i) (auto simp: nth_Cons' split: nat.splits)

lemma boot_step_work: "boot_step addrs s t \<Longrightarrow> work t < work s"
  by (cases rule: boot_step.cases) (auto simp: work_def intro!: work_update)

text \<open>No goroutine is ever stuck: the slice always has room for the node of a goroutine that has loaded it.\<close>

lemma boot_progress:
  assumes "boot_inv addrs s" "\<not> boot_done s"
  shows "\<exists>t. boot_step addrs s t"
proof -
  obtain i where i: "i < length (b_procs s)" "b_procs s ! i \<noteq> Finished"
    using assms(2) by (auto simp: boot_done_def list_all_length)
  show ?thesis
  proof (cases "b_procs s ! i")
    case Resolving
    then show ?thesis using i(1) bs_unresolved [of i s addrs] bs_load [of i s addrs] by blast
  next
    case (Loaded l)
    have n: "i < length addrs" "length (b_slots s) = length addrs" using assms(1) i(1) by (auto simp: boot_inv_def)
    have "proc_ok s i (b_procs s ! i)" using assms(1) n(1) by (simp add: boot_inv_def)
    then have "l < length (b_slots s)"
      using filled_room [of s l i] assms(1) n Loaded by (auto simp: boot_inv_def)
    then show ?thesis using i(1) Loaded bs_write [of i s l addrs] by blast
  next
    case (Written l)
    then show ?thesis using i(1) bs_store [of i s l addrs] by blast
  qed (use i in simp)
qed

lemma boot_finishes: "boot_inv addrs s \<Longrightarrow> \<exists>t. (boot_step addrs)\<^sup>*\<^sup>* s t \<and> boot_done t"
proof (induction "work s" arbitrary: s rule: less_induct)
  case less
  show ?case
  proof (cases "boot_done s")
    case False
    from boot_progress [OF less.prems False] obtain t where t: "boot_step addrs s t" by blast
    from less.hyps [OF boot_step_work [OF t] boot_inv_step [OF less.prems t]] t show ?thesis
      by (meson converse_rtranclp_into_rtranclp)
  qed auto
qed

section \<open>What is assigned\<close>

text \<open>The node that a goroutine makes, and the slice of pointers as nodes; a nil pointer would be \<^const>\<open>None\<close>.\<close>

definition pointer_node :: "udp_addr outcome list \<Rightarrow> crawler \<Rightarrow> nat \<Rightarrow> node option" where
  "pointer_node addrs c i =
     (case addrs ! i of
        Ok a \<Rightarrow> Some \<lparr>node_raw_ip = nil_slice, node_raw_port = nil_slice, node_addr = a, node_id = c_node_id c\<rparr>
      | _ \<Rightarrow> None)"

definition boot_nodes :: "udp_addr outcome list \<Rightarrow> crawler \<Rightarrow> boot \<Rightarrow> node option list" where
  "boot_nodes addrs c s = map (\<lambda>p. Option.bind p (pointer_node addrs c)) (boot_slice s)"

lemma boot_slice_pointers:
  assumes "boot_inv addrs s"
  obtains ks where "boot_slice s = map Some ks" "distinct ks" "\<forall>k \<in> set ks. k < length addrs \<and> is_ok (addrs ! k)" "length ks = b_len s"
proof -
  have f: "filled s (b_len s)" and d: "distinct (filter (\<lambda>x. x \<noteq> None) (b_slots s))" using assms by (simp_all add: boot_inv_def)
  let ?ks = "map the (boot_slice s)"
  have all: "\<forall>x \<in> set (boot_slice s). x \<noteq> None"
    using f by (auto simp: boot_slice_def filled_def in_set_conv_nth)
  then have m: "boot_slice s = map Some ?ks" by (auto simp: map_idI)
  have "distinct (filter (\<lambda>x. x \<noteq> None) (boot_slice s @ drop (b_len s) (b_slots s)))" using d by (simp add: boot_slice_def)
  then have "distinct (map Some ?ks)" using all m by (simp only: filter_append distinct_append filter_True)
  then have "distinct ?ks" by (simp only: distinct_map)
  moreover have "\<forall>k \<in> set ?ks. k < length addrs \<and> is_ok (addrs ! k)"
  proof
    fix k assume "k \<in> set ?ks"
    then have "Some k \<in> set (map Some ?ks)" by auto
    then have "Some k \<in> set (boot_slice s)" by (subst m)
    then have "Some k \<in> set (b_slots s)" unfolding boot_slice_def by (rule in_set_takeD)
    then show "k < length addrs \<and> is_ok (addrs ! k)" using assms by (simp add: boot_inv_def)
  qed
  moreover have "length ?ks = b_len s" using f by (simp add: boot_slice_def filled_def)
  ultimately show thesis using that m by blast
qed

lemma selected_nodes:
  assumes "\<forall>k \<in> set ks. is_ok (addrs ! k)"
  shows "map (pointer_node addrs c) ks = map Some (c_bootstrap (set_bootstrap_nodes (map ((!) addrs) ks) c))"
  using assms by (induction ks) (auto simp: set_bootstrap_nodes_def pointer_node_def is_ok_iff)

section \<open>A schedule that loses nothing, and one that loses a node\<close>

lemma boot_one:
  assumes "i < length (b_procs s)" "b_procs s ! i = Resolving" "b_len s < length (b_slots s)"
  shows "(boot_step addrs)\<^sup>*\<^sup>* s
     (if is_ok (addrs ! i) then s\<lparr>b_slots := (b_slots s)[b_len s := Some i], b_len := b_len s + 1, b_procs := (b_procs s)[i := Finished]\<rparr>
      else s\<lparr>b_procs := (b_procs s)[i := Finished]\<rparr>)"
proof (cases "is_ok (addrs ! i)")
  case True
  let ?s1 = "s\<lparr>b_procs := (b_procs s)[i := Loaded (b_len s)]\<rparr>"
  let ?s2 = "?s1\<lparr>b_slots := (b_slots s)[b_len s := Some i], b_procs := (b_procs s)[i := Written (b_len s)]\<rparr>"
  have "boot_step addrs s ?s1" using bs_load [of i s addrs] assms True by simp
  moreover have "boot_step addrs ?s1 ?s2" using bs_write [of i ?s1 "b_len s" addrs] assms by simp
  moreover have "boot_step addrs ?s2 (?s2\<lparr>b_len := b_len s + 1, b_procs := (b_procs s)[i := Finished]\<rparr>)"
    using bs_store [of i ?s2 "b_len s" addrs] assms by simp
  ultimately have "(boot_step addrs)\<^sup>*\<^sup>* s (?s2\<lparr>b_len := b_len s + 1, b_procs := (b_procs s)[i := Finished]\<rparr>)"
    by (meson converse_rtranclp_into_rtranclp rtranclp.rtrancl_refl)
  then show ?thesis using True by simp
next
  case False
  then show ?thesis using bs_unresolved [of i s addrs] assms by auto
qed

text \<open>The goroutines one after the other give what \<^const>\<open>set_bootstrap_nodes\<close> gives.\<close>

definition resolved_before :: "udp_addr outcome list \<Rightarrow> nat \<Rightarrow> nat list" where
  "resolved_before addrs k = filter (\<lambda>i. is_ok (addrs ! i)) [0..<k]"

definition boot_after :: "udp_addr outcome list \<Rightarrow> nat \<Rightarrow> boot" where
  "boot_after addrs k =
     \<lparr>b_slots = map Some (resolved_before addrs k) @ replicate (length addrs - length (resolved_before addrs k)) None,
      b_len = length (resolved_before addrs k), b_procs = replicate k Finished @ replicate (length addrs - k) Resolving\<rparr>"

lemma resolved_before_length: "length (resolved_before addrs k) \<le> k"
  unfolding resolved_before_def by (rule order.trans [OF length_filter_le]) simp

lemma update_between: "(xs @ replicate (Suc n) x)[length xs := y] = (xs @ [y]) @ replicate n x"
  by simp

lemma boot_sequential: "k \<le> length addrs \<Longrightarrow> reach (boot_begin addrs) (boot_step addrs) (boot_after addrs k)"
proof (induction k)
  case 0
  then show ?case by (intro reach_init) (simp add: boot_begin_def boot_after_def resolved_before_def)
next
  case (Suc k)
  let ?s = "boot_after addrs k"
  have r: "length (resolved_before addrs k) < length addrs" using resolved_before_length [of addrs k] Suc.prems by simp
  have s: "k < length (b_procs ?s)" "b_procs ?s ! k = Resolving" "b_len ?s < length (b_slots ?s)"
    using Suc.prems r by (simp_all add: boot_after_def nth_append)
  have p: "(b_procs ?s)[k := Finished] = replicate (Suc k) Finished @ replicate (length addrs - Suc k) Resolving"
    using Suc.prems update_between [of "replicate k Finished" "length addrs - Suc k" Resolving Finished]
    by (simp add: boot_after_def Suc_diff_Suc replicate_append_same)
  have "(boot_step addrs)\<^sup>*\<^sup>* ?s (boot_after addrs (Suc k))"
  proof (cases "is_ok (addrs ! k)")
    case True
    then have f: "resolved_before addrs (Suc k) = resolved_before addrs k @ [k]" by (simp add: resolved_before_def)
    have "(b_slots ?s)[b_len ?s := Some k] =
        map Some (resolved_before addrs (Suc k)) @ replicate (length addrs - length (resolved_before addrs (Suc k))) None"
      using r update_between [of "map Some (resolved_before addrs k)" "length addrs - Suc (length (resolved_before addrs k))" None "Some k"]
      by (simp add: boot_after_def f Suc_diff_Suc)
    then show ?thesis using boot_one [OF s, of addrs] True p f by (simp add: boot_after_def)
  next
    case False
    then have "resolved_before addrs (Suc k) = resolved_before addrs k" by (simp add: resolved_before_def)
    then show ?thesis using boot_one [OF s, of addrs] False p by (simp add: boot_after_def)
  qed
  with Suc show ?case by (auto intro: reach_steps)
qed

lemma sequential_loses_nothing:
  "\<exists>s. reach (boot_begin addrs) (boot_step addrs) s \<and> boot_done s
     \<and> boot_nodes addrs c s = map Some (c_bootstrap (set_bootstrap_nodes addrs c))"
proof (intro exI conjI)
  let ?s = "boot_after addrs (length addrs)"
  show "reach (boot_begin addrs) (boot_step addrs) ?s" by (rule boot_sequential) simp
  show "boot_done ?s" by (simp add: boot_done_def boot_after_def list_all_iff)
  have "boot_nodes addrs c ?s = map (pointer_node addrs c) (resolved_before addrs (length addrs))"
    by (simp add: boot_nodes_def boot_slice_def boot_after_def)
  also have "\<dots> = map Some (c_bootstrap (set_bootstrap_nodes (map ((!) addrs) (resolved_before addrs (length addrs))) c))"
    by (rule selected_nodes) (simp add: resolved_before_def)
  also have "map ((!) addrs) (resolved_before addrs (length addrs)) = filter is_ok addrs"
    unfolding resolved_before_def by (metis (no_types, lifting) filter_cong filter_map map_nth o_def)
  also have "c_bootstrap (set_bootstrap_nodes (filter is_ok addrs) c) = c_bootstrap (set_bootstrap_nodes addrs c)"
    by (induction addrs) (auto simp: set_bootstrap_nodes_def split: outcome.splits)
  finally show "boot_nodes addrs c ?s = map Some (c_bootstrap (set_bootstrap_nodes addrs c))" .
qed

text \<open>Two goroutines load the empty slice before either stores: the node of the first is overwritten.\<close>

lemma race_loses_node:
  assumes "addrs = [Ok a, Ok b]"
  shows "\<exists>s. reach (boot_begin addrs) (boot_step addrs) s \<and> boot_done s \<and> boot_slice s = [Some 1]"
proof -
  let ?s = "\<lambda>slots len p q. \<lparr>b_slots = slots, b_len = len, b_procs = [p, q]\<rparr>"
  have "boot_begin addrs (?s [None, None] 0 Resolving Resolving)" using assms by (simp add: boot_begin_def numeral_2_eq_2)
  moreover have "boot_step addrs (?s [None, None] 0 Resolving Resolving) (?s [None, None] 0 (Loaded 0) Resolving)"
    using bs_load [of 0 "?s [None, None] 0 Resolving Resolving" addrs] assms by simp
  moreover have "boot_step addrs (?s [None, None] 0 (Loaded 0) Resolving) (?s [None, None] 0 (Loaded 0) (Loaded 0))"
    using bs_load [of 1 "?s [None, None] 0 (Loaded 0) Resolving" addrs] assms by simp
  moreover have "boot_step addrs (?s [None, None] 0 (Loaded 0) (Loaded 0)) (?s [Some 0, None] 0 (Written 0) (Loaded 0))"
    using bs_write [of 0 "?s [None, None] 0 (Loaded 0) (Loaded 0)" 0 addrs] by simp
  moreover have "boot_step addrs (?s [Some 0, None] 0 (Written 0) (Loaded 0)) (?s [Some 1, None] 0 (Written 0) (Written 0))"
    using bs_write [of 1 "?s [Some 0, None] 0 (Written 0) (Loaded 0)" 0 addrs] by simp
  moreover have "boot_step addrs (?s [Some 1, None] 0 (Written 0) (Written 0)) (?s [Some 1, None] 1 Finished (Written 0))"
    using bs_store [of 0 "?s [Some 1, None] 0 (Written 0) (Written 0)" 0 addrs] by simp
  moreover have "boot_step addrs (?s [Some 1, None] 1 Finished (Written 0)) (?s [Some 1, None] 1 Finished Finished)"
    using bs_store [of 1 "?s [Some 1, None] 1 Finished (Written 0)" 0 addrs] by simp
  ultimately have "reach (boot_begin addrs) (boot_step addrs) (?s [Some 1, None] 1 Finished Finished)"
    by (meson reach.intros)
  then show ?thesis by (intro exI [of _ "?s [Some 1, None] 1 Finished Finished"]) (simp add: boot_done_def boot_slice_def)
qed

section \<open>Property\<close>

text \<open>
  Property C15. What the unlocked goroutines of \<^verbatim>\<open>SetBootstrapNodes\<close> can do. From every state they can reach they run to
  their ends, and what is assigned then holds no nil pointer: it is the list that setting the nodes one
  after the other gives for a selection of the addresses, each taken at most once. Nodes can be missing,
  but if any address resolves at least one node is there.
\<close>

theorem bootstrap_nodes_selected:
  assumes "reach (boot_begin addrs) (boot_step addrs) s"
  shows "(\<exists>t. (boot_step addrs)\<^sup>*\<^sup>* s t \<and> boot_done t)
     \<and> (boot_done s \<longrightarrow> (\<exists>ks. distinct ks \<and> (\<forall>k \<in> set ks. k < length addrs \<and> is_ok (addrs ! k))
          \<and> boot_nodes addrs c s = map Some (c_bootstrap (set_bootstrap_nodes (map ((!) addrs) ks) c))
          \<and> (list_ex is_ok addrs \<longrightarrow> ks \<noteq> [])))"
proof -
  have inv: "boot_inv addrs s" by (rule bt.reach_inv [OF assms])
  obtain ks where ks: "boot_slice s = map Some ks" "distinct ks" "\<forall>k \<in> set ks. k < length addrs \<and> is_ok (addrs ! k)" "length ks = b_len s"
    by (rule boot_slice_pointers [OF inv])
  have "boot_nodes addrs c s = map Some (c_bootstrap (set_bootstrap_nodes (map ((!) addrs) ks) c))"
    using selected_nodes [of ks addrs c] ks(1,3) by (simp add: boot_nodes_def comp_def)
  moreover have "ks \<noteq> []" if d: "boot_done s" and ok: "list_ex is_ok addrs"
  proof -
    obtain i where i: "i < length addrs" "is_ok (addrs ! i)" using ok by (auto simp: list_ex_length)
    have "b_procs s ! i = Finished" using d inv i(1) by (auto simp: boot_done_def boot_inv_def list_all_length)
    then have "0 < b_len s" using inv i by (auto simp: boot_inv_def)
    then show ?thesis using ks(4) by auto
  qed
  ultimately show ?thesis using boot_finishes [OF inv] ks(2,3) by blast
qed

text \<open>Of two addresses that resolve, one may be left.\<close>

theorem bootstrap_nodes_selected_witness:
  "let addrs = [Ok \<lparr>ip = ''abcd'', port = 1\<rparr>, Ok \<lparr>ip = ''abcd'', port = 2\<rparr>]
   in \<exists>s. reach (boot_begin addrs) (boot_step addrs) s \<and> boot_done s \<and> boot_slice s = [Some 1]
     \<and> (\<forall>c. \<exists>ks. ks \<noteq> [] \<and> boot_nodes addrs c s = map Some (c_bootstrap (set_bootstrap_nodes (map ((!) addrs) ks) c)))"
proof -
  let ?as = "[Ok \<lparr>ip = ''abcd'', port = 1\<rparr>, Ok \<lparr>ip = ''abcd'', port = 2\<rparr>]"
  obtain s where s: "reach (boot_begin ?as) (boot_step ?as) s" "boot_done s" "boot_slice s = [Some 1]"
    using race_loses_node [OF refl] by blast
  have "\<exists>ks. ks \<noteq> [] \<and> boot_nodes ?as c s = map Some (c_bootstrap (set_bootstrap_nodes (map ((!) ?as) ks) c))" for c
  proof -
    have "list_ex is_ok ?as" by simp
    with conjunct2 [OF bootstrap_nodes_selected [OF s(1), of c], THEN mp, OF s(2)] show ?thesis by (elim exE conjE) (intro exI conjI, auto)
  qed
  with s show ?thesis unfolding Let_def by (intro exI [of _ s] conjI allI)
qed

end
