(* ===== verification/Announce_Store.thy ===== *)
theory Announce_Store
  imports Crawler_Datagrams
begin

text \<open>
  The purpose of the crawler, from end to end: an announced torrent is stored. The lemmas follow one
  announcement from the datagram through the crawler's goroutines (\<^verbatim>\<open>crawler.go\<close>), the fetcher's queue and a
  worker of its executor (\<^verbatim>\<open>torrent_fetcher.go\<close>, \<^verbatim>\<open>executor.go\<close>) and the exchange with the peer (\<^verbatim>\<open>core.go\<close>) to
  the collection, the message bus and the filter.
\<close>

section \<open>The fetcher\<close>

text \<open>The task that a request becomes, and a fetcher with a free worker and room in its queue.\<close>

definition fetch_task :: "torrent_request \<Rightarrow> ('bm, 'db) fetcher \<Rightarrow> bit_torrent" where
  "fetch_task req f = set_traffic_metric_func
     ((new_bit_torrent (treq_node_id req) (treq_info_hash req) (treq_addr req))\<lparr>bt_proxy := f_proxy f\<rparr>)"

definition fetcher_idle :: "('bm, 'db) fetcher \<Rightarrow> bool" where
  "fetcher_idle f \<longleftrightarrow> ex_tasks (f_executor f) = [] \<and> 0 < ex_idle (f_executor f)
     \<and> 0 < f_max_queue f \<and> f_max_queue f = ex_queue_size (f_executor f)"

lemma fetcher_push_new:
  assumes "fetcher_idle f" "bloom_exists B hash (f_bloom f) (treq_info_hash req) = Ok False"
  obtains e e' where "fetcher_push B hash req f = Ok (Some (f\<lparr>f_executor := e\<rparr>))" "worker_receive e = Some e'"
    "ex_running e' = add_mset (fetch_task req f) (ex_running (f_executor f))"
proof -
  let ?e = "f_executor f" and ?t = "fetch_task req f"
  let ?e1 = "?e\<lparr>ex_tasks := [?t], ex_committed := ex_committed ?e @ [?t]\<rparr>"
  have "fetcher_push B hash req f = Ok (Some (f\<lparr>f_executor := ?e1\<rparr>))"
    using assms by (auto simp: fetcher_push_def fetcher_commit_def commit_def queue_size_def fetcher_idle_def fetch_task_def Let_def)
  moreover obtain e' where "worker_receive ?e1 = Some e'" "ex_running e' = add_mset ?t (ex_running ?e)"
    using assms(1) by (simp add: worker_receive_def fetcher_idle_def)
  ultimately show thesis by (rule that)
qed

text \<open>A connection that is opened with the dialer the fetcher uses, with all the bytes the peer will send.\<close>

definition dials :: "('bm, 'db) fetcher \<Rightarrow> (string \<Rightarrow> conn outcome) \<Rightarrow> string \<Rightarrow> bytes \<Rightarrow> bool" where
  "dials f dial addr inp \<longleftrightarrow>
     (case f_proxy f of None \<Rightarrow> dial | Some p \<Rightarrow> p) addr = Ok \<lparr>cn_in = inp, cn_out = [], cn_budget = None\<rparr>"

lemma fetch_task_start:
  assumes "dials f dial (treq_addr req) inp"
  obtains bt where "bt_start dial (fetch_task req f) = Ok bt" "conn_at (treq_info_hash req) inp [] bt"
  using assms
  by (auto simp: dials_def bt_start_def fetch_task_def set_traffic_metric_func_def new_bit_torrent_def conn_at_def split: option.splits)

lemma pull_honest:
  assumes "dials f dial (treq_addr req) inp" "honest_stream raw rest inp" "sha1 raw = treq_info_hash req"
    and "raw = benc id (AMap info)" "encodable id (AMap info)" "int (length raw) \<le> max_metadata_size"
    and "decode (map (map_prod id (norm_any id)) info) (preset_torrent (treq_info_hash req)) = Ok torrent" "bt_t_name torrent \<noteq> []"
  shows "pull_torrent B hash C sha1 dial decode peerID pub now (fetch_task req f) g
     = handle_torrent B hash C pub now torrent (event ''pull_torrent'' g)"
proof -
  obtain bt where bt: "bt_start dial (fetch_task req f) = Ok bt" "conn_at (sha1 raw) inp [] bt"
    using fetch_task_start [OF assms(1)] assms(3) by metis
  obtain bt' out where m: "get_metadata sha1 peerID bt = Ok (map (map_prod id (norm_any id)) info, bt')" "conn_at (sha1 raw) rest out bt'"
    using honest_stream_metadata [where ?sha1.0 = sha1, OF assms(4-6,2) bt(2)] by blast
  have "bt_info_hash bt' = treq_info_hash req" using m(2) assms(3) by (simp add: conn_at_def)
  with bt(1) m(1) assms(7,8) show ?thesis by (simp add: pull_torrent_def Let_def)
qed

lemma handle_torrent_ok:
  assumes "bitmap_laws B" "bf_m (f_bloom f) \<noteq> 0"
    and "upsert C (new_torrent_from_bt_torrent now torrent) (f_coll f) = Ok db"
  obtains f' where "handle_torrent B hash C (Ok ()) now torrent f = Ok f'" "f_coll f' = db" "f_executor f' = f_executor f"
    "f_published f' = f_published f @ [(topic_new_torrent, Payload (json_torrent (new_torrent_from_bt_torrent now torrent)))]"
    "bloom_exists B hash (f_bloom f') (bt_t_info_hash torrent) = Ok True"
proof -
  obtain bf where bf: "bloom_add B hash (bt_t_info_hash torrent) (f_bloom f) = Ok bf"
    using bloom_add_ok [OF assms(1,2)] by blast
  let ?f = "event ''new_torrent'' (event ''torrent_upsert'' (f\<lparr>f_coll := db\<rparr>)
     \<lparr>f_published := f_published f @ [(topic_new_torrent, Payload (json_torrent (new_torrent_from_bt_torrent now torrent)))], f_bloom := bf\<rparr>)"
  have "handle_torrent B hash C (Ok ()) now torrent f = Ok ?f"
    using assms(3) bf by (simp add: handle_torrent_def json_marshal_def Let_def event_def)
  then show thesis using bloom_exists_added [OF assms(1,2) bf] by (intro that [of ?f]) simp_all
qed

section \<open>Properties\<close>

text \<open>
  Property C1. An announced torrent is stored. An idle crawler receives an \<^verbatim>\<open>announce_peer\<close> datagram for a
  hash that its filter does not know, the peer at the announced address follows the protocol and has
  metadata with that hash, which decodes to a torrent with a name, and the database and the message bus
  accept the torrent. Then every step runs to its end: the datagram becomes one request, the request one
  task, a worker takes it, and after pulling the metadata the collection holds the torrent under its hash,
  it has been published once as new, and the filter knows it.
\<close>

theorem announced_torrent_stored:
  assumes crawler: "own_id_ok c" "c_raw c = []" "c_decoded c = []" "length (c_out c) < c_packet_cap c"
    and datagram: "encodable id (AMap d)" "length (benc id (AMap d)) \<le> 65536" "is_query ''announce_peer'' tid args d"
      "map_of args ''id'' = Some (ABytes nid)" "length nid = 20" "map_of args ''info_hash'' = Some (ABytes ih)"
    and fetcher: "fetcher_idle f" "bitmap_laws B" "bf_m (f_bloom f) \<noteq> 0" "bloom_exists B hash (f_bloom f) ih = Ok False"
    and peer: "dials f dial (announced_addr d addr) inp" "honest_stream (benc id (AMap info)) rest inp" "encodable id (AMap info)"
      "int (length (benc id (AMap info))) \<le> max_metadata_size" "sha1 (benc id (AMap info)) = ih"
    and torrent: "decode (map (map_prod id (norm_any id)) info) (preset_torrent ih) = Ok torrent" "bt_t_name torrent \<noteq> []"
      "bt_t_info_hash torrent = ih" "t = new_torrent_from_bt_torrent now torrent"
    and store: "coll_laws C" "is_ok (upsert C t (f_coll f))"
  shows "\<exists>c1 c2 c3 req f1 e bt f2. listen_one (Ok (benc id (AMap d), addr)) c = Done c1 \<and> decode_one c1 = Done c2
     \<and> handler_one c2 = Done c3 \<and> c_requests c3 = c_requests c @ [req]
     \<and> fetcher_push B hash req f = Ok (Some f1)
     \<and> worker_receive (f_executor f1) = Some e \<and> ex_running e = add_mset bt (ex_running (f_executor f))
     \<and> pull_torrent B hash C sha1 dial decode peerID (Ok ()) now bt (f1\<lparr>f_executor := e\<rparr>) = Ok f2
     \<and> find_by_id C (hex_encode ih) (f_coll f2) = Ok t \<and> t_name t = bt_t_name torrent
     \<and> f_published f2 = f_published f @ [(topic_new_torrent, Payload (json_torrent t))]
     \<and> bloom_exists B hash (f_bloom f2) ih = Ok True"
proof -
  let ?req = "\<lparr>treq_node_id = sl_read (c_heap c) (c_node_id c), treq_info_hash = ih, treq_addr = announced_addr d addr\<rparr>"
  obtain c1 c2 c3 where crawl: "listen_one (Ok (benc id (AMap d), addr)) c = Done c1" "decode_one c1 = Done c2" "handler_one c2 = Done c3"
    "c_requests c3 = c_requests c @ [?req]"
    using announce_datagram [OF crawler datagram refl, of addr] by blast
  obtain e e' where push: "fetcher_push B hash ?req f = Ok (Some (f\<lparr>f_executor := e\<rparr>))" "worker_receive e = Some e'"
    "ex_running e' = add_mset (fetch_task ?req f) (ex_running (f_executor f))"
    by (rule fetcher_push_new [OF fetcher(1), of B hash ?req]) (use fetcher(4) in simp_all)
  let ?g = "f\<lparr>f_executor := e'\<rparr>"
  obtain db where db: "upsert C t (f_coll f) = Ok db" using store(2) by (auto simp: is_ok_iff)
  obtain f2 where f2: "handle_torrent B hash C (Ok ()) now torrent (event ''pull_torrent'' ?g) = Ok f2" "f_coll f2 = db"
    "f_published f2 = f_published f @ [(topic_new_torrent, Payload (json_torrent t))]" "bloom_exists B hash (f_bloom f2) ih = Ok True"
    using handle_torrent_ok [OF fetcher(2), of "event ''pull_torrent'' ?g" C now torrent db hash] fetcher(3) db torrent(3,4) by auto
  have "pull_torrent B hash C sha1 dial decode peerID (Ok ()) now (fetch_task ?req f) ?g
      = handle_torrent B hash C (Ok ()) now torrent (event ''pull_torrent'' ?g)"
    by (rule pull_honest [where raw = "benc id (AMap info)" and ?sha1.0 = sha1, OF _ peer(2) _ refl peer(3,4)])
      (use peer(1,5) torrent(1,2) in simp_all)
  moreover have "find_by_id C (hex_encode ih) db = Ok t" "t_name t = bt_t_name torrent"
    using store(1) db torrent(3,4) stored_id stored_name by (auto simp: coll_laws_def)
  ultimately show ?thesis
    using crawl push f2 by (intro exI [of _ c1] exI [of _ c2] exI [of _ c3] exI [of _ ?req] exI [of _ "f\<lparr>f_executor := e\<rparr>"]
      exI [of _ e'] exI [of _ "fetch_task ?req f"] exI [of _ f2]) simp
qed

theorem announced_torrent_stored_witness:
  "\<exists>c1 c2 c3 req f1 e bt f2. listen_one (Ok (benc id (AMap announce_example), \<lparr>ip = ''abcd'', port = 80\<rparr>)) (example_crawler []) = Done c1
     \<and> decode_one c1 = Done c2 \<and> handler_one c2 = Done c3 \<and> c_requests c3 = [req]
     \<and> fetcher_push list_bitmap demo_hash req (fetcher_start demo_fetcher) = Ok (Some f1)
     \<and> worker_receive (f_executor f1) = Some e \<and> ex_running e = {#bt#}
     \<and> pull_torrent list_bitmap demo_hash list_coll (\<lambda>_. replicate 20 CHR ''h'')
         (\<lambda>_. Ok \<lparr>cn_in = honest_example, cn_out = [], cn_budget = None\<rparr>) demo_decode ''id'' (Ok ()) 5 bt (f1\<lparr>f_executor := e\<rparr>) = Ok f2
     \<and> map_outcome t_name (find_by_id list_coll (hex_encode (replicate 20 CHR ''h'')) (f_coll f2)) = Ok ''demo''"
proof -
  let ?ih = "replicate 20 CHR ''h''" and ?f = "fetcher_start demo_fetcher"
  let ?args = "[(''id'', ABytes (replicate 20 CHR ''i'')), (''info_hash'', ABytes ?ih), (''port'', AInt 81)]"
  let ?t = "(preset_torrent ?ih)\<lparr>bt_t_name := ''demo''\<rparr>"
  have d: "length (benc id (AMap announce_example)) \<le> 65536" "is_query ''announce_peer'' ''aa'' ?args announce_example" by code_simp+
  have a: "map_of ?args ''id'' = Some (ABytes (replicate 20 CHR ''i''))" "length (replicate 20 CHR ''i'') = 20"
    "map_of ?args ''info_hash'' = Some (ABytes ?ih)" by simp_all
  have f: "fetcher_idle ?f" "bf_m (f_bloom ?f) \<noteq> 0" "bloom_exists list_bitmap demo_hash (f_bloom ?f) ?ih = Ok False"
    by (simp_all add: fetcher_idle_def fetcher_start_def demo_fetcher_def executor_start_def new_executor_def new_bloom_filter_def
        bloom_exists_def get_locations_def list_bitmap_def upt_conv_Cons)
  have p: "dials ?f (\<lambda>_. Ok \<lparr>cn_in = honest_example, cn_out = [], cn_budget = None\<rparr>) addr honest_example" for addr
    by (simp add: dials_def fetcher_start_def demo_fetcher_def)
  have t: "demo_decode (map (map_prod id (norm_any id)) [(''name'', ABytes ''x'')]) (preset_torrent ?ih) = Ok ?t"
    "bt_t_name ?t \<noteq> []" "bt_t_info_hash ?t = ?ih"
    by (simp_all add: demo_decode_def preset_torrent_def)
  have u: "is_ok (upsert list_coll t' (f_coll ?f))" for t' by (simp add: list_coll_def)
  have e: "c_requests (example_crawler []) = []" "ex_running (f_executor ?f) = {#}" "bt_t_name ?t = ''demo''"
    by (simp_all add: example_crawler_def fetcher_start_def demo_fetcher_def executor_start_def new_executor_def)
  from announced_torrent_stored [where addr = "\<lparr>ip = ''abcd'', port = 80\<rparr>" and ?sha1.0 = "\<lambda>_. ?ih" and peerID = "''id''" and now = 5 and decode = demo_decode,
      OF example_crawler_ready(1-4) [of "[]"] example_queries_encodable(1) d a f(1) list_bitmap_laws f(2,3) p honest_example_stream
        honest_example_metadata refl t refl list_coll_laws u]
  obtain c1 c2 c3 req f1 ex bt f2 where *: "listen_one (Ok (benc id (AMap announce_example), \<lparr>ip = ''abcd'', port = 80\<rparr>)) (example_crawler []) = Done c1"
    "decode_one c1 = Done c2" "handler_one c2 = Done c3" "c_requests c3 = [req]"
    "fetcher_push list_bitmap demo_hash req ?f = Ok (Some f1)" "worker_receive (f_executor f1) = Some ex" "ex_running ex = {#bt#}"
    "pull_torrent list_bitmap demo_hash list_coll (\<lambda>_. ?ih) (\<lambda>_. Ok \<lparr>cn_in = honest_example, cn_out = [], cn_budget = None\<rparr>)
       demo_decode ''id'' (Ok ()) 5 bt (f1\<lparr>f_executor := ex\<rparr>) = Ok f2"
    "find_by_id list_coll (hex_encode ?ih) (f_coll f2) = Ok (new_torrent_from_bt_torrent 5 ?t)"
    "t_name (new_torrent_from_bt_torrent 5 ?t) = ''demo''"
    unfolding e append_Nil by blast
  then show ?thesis by (intro exI [of _ c1] exI [of _ c2] exI [of _ c3] exI [of _ req] exI [of _ f1] exI [of _ ex] exI [of _ bt] exI [of _ f2])
    (simp del: benc.simps)
qed

end
