(* ===== verification/Amqp_Client.thy ===== *)
theory Amqp_Client
  imports Go_Base
begin

text \<open>
  \<^verbatim>\<open>common/amqp/client.go\<close>: the wrapper of the AMQP library the indexer consumes with. The library and
  the broker behind it are a parameter that answers every call; the calls are logged in order, with
  the arguments the wrapper adds. The lemmas show that a sequence of calls stops at the first refusal,
  and what the log then holds.
\<close>

section \<open>Calls on the broker\<close>

text \<open>
  The calls of the library the client makes: \<^verbatim>\<open>DialConfig\<close>, \<^verbatim>\<open>Channel\<close>, \<^verbatim>\<open>Qos\<close> (prefetch count, prefetch
  size, global), \<^verbatim>\<open>QueueDeclare\<close> (name, durable, autoDelete, exclusive, noWait), \<^verbatim>\<open>QueueBind\<close> (queue, key,
  exchange, noWait) and \<^verbatim>\<open>ConsumeWithContext\<close> (queue, consumer, autoAck, exclusive, noLocal, noWait).
\<close>

datatype amqp_call =
    DialConfig string
  | OpenChannel
  | Qos int int bool
  | QueueDeclare string bool bool bool bool
  | QueueBind string string string bool
  | ConsumeCall string string bool bool bool bool

text \<open>
  \<open>reply log call\<close> is what the library returns for a call after the calls of \<open>log\<close>. An operation
  returns the log with its calls and how it ended.
\<close>

type_synonym broker = "amqp_call list \<Rightarrow> amqp_call \<Rightarrow> unit outcome"

type_synonym 'a amqp = "amqp_call list \<Rightarrow> amqp_call list \<times> 'a outcome"

definition ask :: "broker \<Rightarrow> amqp_call \<Rightarrow> unit amqp" where
  "ask reply c log = (log @ [c], reply log c)"

definition abind :: "'a amqp \<Rightarrow> ('a \<Rightarrow> 'b amqp) \<Rightarrow> 'b amqp" where
  "abind m f log = (case m log of (log, Ok x) \<Rightarrow> f x log | (log, Err e) \<Rightarrow> (log, Err e) | (log, Panic p) \<Rightarrow> (log, Panic p))"

definition areturn :: "'a \<Rightarrow> 'a amqp" where
  "areturn x log = (log, Ok x)"

section \<open>The client\<close>

text \<open>The connection and the channel, each nil or open.\<close>

record client =
  cl_conn :: "string option"
  cl_channel :: bool

definition new_client :: "broker \<Rightarrow> string \<Rightarrow> client amqp" where
  "new_client reply uri =
     (let c = \<lparr>cl_conn = None, cl_channel = False\<rparr>
      in abind (ask reply (DialConfig uri)) (\<lambda>_.
           let c = c\<lparr>cl_conn := Some uri\<rparr>
           in abind (ask reply OpenChannel) (\<lambda>_. areturn (c\<lparr>cl_channel := True\<rparr>))))"

text \<open>A method of the nil channel dereferences it.\<close>

definition on_channel :: "broker \<Rightarrow> client \<Rightarrow> amqp_call \<Rightarrow> unit amqp" where
  "on_channel reply c k log = (if cl_channel c then ask reply k log else (log, Panic NilDereference))"

definition set_qos :: "broker \<Rightarrow> client \<Rightarrow> int \<Rightarrow> unit amqp" where
  "set_qos reply c prefetchCount = on_channel reply c (Qos prefetchCount 0 False)"

definition declare_queue :: "broker \<Rightarrow> client \<Rightarrow> string \<Rightarrow> unit amqp" where
  "declare_queue reply c name = on_channel reply c (QueueDeclare name True False False False)"

definition queue_bind :: "broker \<Rightarrow> client \<Rightarrow> string \<Rightarrow> string \<Rightarrow> unit amqp" where
  "queue_bind reply c queue exchange = on_channel reply c (QueueBind queue '''' exchange False)"

text \<open>The channel of deliveries is named by the queue it is fed from and the flag \<^verbatim>\<open>autoAck\<close>.\<close>

definition consume :: "broker \<Rightarrow> client \<Rightarrow> string \<Rightarrow> bool \<Rightarrow> (string \<times> bool) amqp" where
  "consume reply c queueName autoAck =
     abind (on_channel reply c (ConsumeCall queueName '''' autoAck False False False)) (\<lambda>_. areturn (queueName, autoAck))"

section \<open>Sequences of calls\<close>

text \<open>The calls of a list, one after the other, until one is refused: the specification of a set-up.\<close>

fun call_all :: "broker \<Rightarrow> amqp_call list \<Rightarrow> unit amqp" where
  "call_all reply [] log = (log, Ok ())"
| "call_all reply (c # cs) log = abind (ask reply c) (\<lambda>_. call_all reply cs) log"

lemma abind_assoc: "abind (abind m f) g = abind m (\<lambda>x. abind (f x) g)"
  by (rule ext) (auto simp: abind_def split: prod.splits outcome.splits)

lemma abind_return [simp]: "abind (areturn x) f = f x"
  by (rule ext) (simp add: abind_def areturn_def)

lemma call_all_Nil: "call_all reply [] = areturn ()"
  by (rule ext) (simp add: areturn_def)

lemma call_all_Cons: "call_all reply (c # cs) = abind (ask reply c) (\<lambda>_. call_all reply cs)"
  by (rule ext) simp

lemma abind_unit [simp]: "abind m (\<lambda>_. areturn ()) = (m :: unit amqp)"
  by (rule ext) (auto simp: abind_def areturn_def split: prod.splits outcome.splits)

text \<open>
  What is logged is the calls up to the one that was refused, whose answer is returned; success means
  that none was refused.
\<close>

lemma call_all_log:
  assumes "call_all reply cs log = (log', r)"
  shows "\<exists>ds rest. cs = ds @ rest \<and> log' = log @ ds
     \<and> (if r = Ok () then rest = [] else ds \<noteq> [] \<and> r = reply (log @ butlast ds) (last ds))"
  using assms
proof (induction cs arbitrary: log)
  case (Cons c cs)
  show ?case
  proof (cases "reply log c")
    case (Ok u)
    then have "call_all reply cs (log @ [c]) = (log', r)" using Cons.prems by (simp add: abind_def ask_def)
    from Cons.IH [OF this] obtain ds rest where "cs = ds @ rest" "log' = (log @ [c]) @ ds"
      "if r = Ok () then rest = [] else ds \<noteq> [] \<and> r = reply ((log @ [c]) @ butlast ds) (last ds)" by blast
    then show ?thesis by (intro exI [of _ "c # ds"] exI [of _ rest]) auto
  next
    case (Err e)
    with Cons.prems show ?thesis by (intro exI [of _ "[c]"] exI [of _ cs]) (auto simp: abind_def ask_def)
  next
    case (Panic p)
    with Cons.prems show ?thesis by (intro exI [of _ "[c]"] exI [of _ cs]) (auto simp: abind_def ask_def)
  qed
qed simp

lemma on_channel_open [simp]: "cl_channel c \<Longrightarrow> on_channel reply c k = ask reply k"
  by (rule ext) (simp add: on_channel_def)

end
