(* ===== verification/Tracker_Updater.thy ===== *)
theory Tracker_Updater
  imports Doc_Collection Udp_Tracker Step_System
begin

text \<open>
  \<^verbatim>\<open>tracker/internal/svc/tracker.go\<close>: the service that asks the tracker for the seeders and leechers of
  the stored torrents. It batches the torrents announced on the message bus, refreshes the torrents
  last tried six hours ago, and stores what the tracker answers. It uses the tracker through the
  interface \<^verbatim>\<open>tracker.Tracker\<close> and the collection through \<^verbatim>\<open>Doc_Collection\<close>. The lemmas show that
  batching neither loses nor reorders torrents, that a refresh is always scheduled and never waits,
  and that the recovery of untried torrents ends after publishing each of them once.
\<close>

section \<open>State\<close>

text \<open>
  \<open>u_need_update\<close> counts the elements of the channel \<open>needUpdate\<close> (one slot), \<open>u_timers\<close> the armed
  \<^verbatim>\<open>time.AfterFunc\<close> timers that send on it. \<open>u_scraped\<close> are the accepted calls of \<^verbatim>\<open>Tracker.Scrape\<close>,
  \<open>u_calls\<close> the number of calls of \<^verbatim>\<open>Publish\<close>, \<open>u_published\<close> the messages that were published.
\<close>

record 'db updater =
  u_limit :: int
  u_batch :: "torrent list"
  u_coll :: 'db
  u_need_update :: nat
  u_timers :: nat
  u_scraped :: "bytes list list"
  u_calls :: nat
  u_published :: "(string \<times> payload) list"
  u_events :: "string list"
  u_stopped :: bool

definition new_tracker_updater :: "unit outcome \<Rightarrow> int \<Rightarrow> 'db \<Rightarrow> 'db updater outcome" where
  "new_tracker_updater amqp limit db =
     (if limit < 0 then Panic MakeOutOfRange
      else obind amqp (\<lambda>_. Ok \<lparr>u_limit = limit, u_batch = [], u_coll = db, u_need_update = 0, u_timers = 0, u_scraped = [],
             u_calls = 0, u_published = [], u_events = [], u_stopped = False\<rparr>))"

definition updater_start :: "'db updater \<Rightarrow> 'db updater option" where
  "updater_start u = (if u_need_update u < 1 then Some (u\<lparr>u_need_update := u_need_update u + 1\<rparr>) else None)"

definition updater_stop :: "'db updater \<Rightarrow> 'db updater" where
  "updater_stop u = u\<lparr>u_stopped := True\<rparr>"

section \<open>New torrents\<close>

fun decode_hashes :: "torrent list \<Rightarrow> bytes list \<Rightarrow> bytes list outcome" where
  "decode_hashes [] infoHashes = Ok infoHashes"
| "decode_hashes (torrent # b) infoHashes =
     obind (hex_decode (t_info_hash torrent)) (\<lambda>hash. decode_hashes b (infoHashes @ [hash]))"

text \<open>\<open>scr\<close> is what \<^verbatim>\<open>Tracker.Scrape\<close> returns.\<close>

definition handle_new_torrent ::
    "(bytes list \<Rightarrow> unit outcome) \<Rightarrow> payload \<Rightarrow> 'db updater \<Rightarrow> 'db updater \<times> unit outcome" where
  "handle_new_torrent scr msg u =
     (case json_unmarshal msg of
        Ok t \<Rightarrow>
          if int (length (u_batch u)) < wrap64 (u_limit u - 1)
          then (u\<lparr>u_batch := u_batch u @ [t]\<rparr>, Ok ())
          else (let b = u_batch u @ [t]
                in case decode_hashes b [] of
                     Ok infoHashes \<Rightarrow>
                       (case scr infoHashes of
                          Ok _ \<Rightarrow> (u\<lparr>u_scraped := u_scraped u @ [infoHashes], u_batch := []\<rparr>, Ok ())
                        | e \<Rightarrow> (u, e))
                   | Err e \<Rightarrow> (u, Err e)
                   | Panic p \<Rightarrow> (u, Panic p))
      | Err e \<Rightarrow> (u, Err e)
      | Panic p \<Rightarrow> (u, Panic p))"

section \<open>Results\<close>

text \<open>The message bus: \<open>pub n\<close> is what the \<open>n\<close>-th call of \<^verbatim>\<open>Publish\<close> returns.\<close>

definition publish :: "(nat \<Rightarrow> unit outcome) \<Rightarrow> string \<Rightarrow> payload \<Rightarrow> 'db updater \<Rightarrow> 'db updater \<times> unit outcome" where
  "publish pub topic raw u =
     (let r = pub (u_calls u); u = u\<lparr>u_calls := u_calls u + 1\<rparr>
      in case r of
           Ok _ \<Rightarrow> (u\<lparr>u_published := u_published u @ [(topic, raw)]\<rparr>, Ok ())
         | e \<Rightarrow> (u, e))"

definition tracker_update :: "time \<Rightarrow> scrape_result \<Rightarrow> torrent \<Rightarrow> torrent" where
  "tracker_update now r t =
     t\<lparr>t_seeders := Some (seeders (sr_response r)), t_leechers := Some (leechers (sr_response r)),
       t_search_updated := False, t_tracker_updated_at := Some now, t_updated_at := Some now\<rparr>"

text \<open>One batch of results; every failure goes on with the next result.\<close>

fun handle_result :: "'db coll \<Rightarrow> (nat \<Rightarrow> unit outcome) \<Rightarrow> time \<Rightarrow> scrape_result list \<Rightarrow> 'db updater \<Rightarrow> 'db updater" where
  "handle_result C pub now [] u = u"
| "handle_result C pub now (r # result) u =
     (let hash = hex_encode (sr_info_hash r)
      in case find_one_and_update C hash (tracker_update now r) (u_coll u) of
           Ok (torrent, db) \<Rightarrow>
             (let u = u\<lparr>u_coll := db\<rparr>
              in case json_marshal torrent of
                   Ok raw \<Rightarrow>
                     (case publish pub topic_tracker_updated raw u of
                        (u, Ok _) \<Rightarrow> handle_result C pub now result (u\<lparr>u_events := u_events u @ [''tracker_updated'']\<rparr>)
                      | (u, _) \<Rightarrow> handle_result C pub now result u)
                 | _ \<Rightarrow> handle_result C pub now result u)
         | _ \<Rightarrow> handle_result C pub now result u)"

section \<open>Refresh\<close>

definition six_hours :: int where
  "six_hours = 6 * 60 * 60 * 1000000000"

definition outdated :: "time \<Rightarrow> torrent \<Rightarrow> bool" where
  "outdated age t = (case t_tracker_last_tried_at t of None \<Rightarrow> False | Some x \<Rightarrow> x \<le> age)"

definition get_records :: "'db coll \<Rightarrow> time \<Rightarrow> int \<Rightarrow> 'db updater \<Rightarrow> 'db updater \<times> torrent list outcome" where
  "get_records C now limit u =
     (case find_many C (outdated (now - six_hours)) t_tracker_last_tried_at limit (u_coll u) of
        Ok ts \<Rightarrow>
          (if length ts > 0 \<and> t_tracker_last_tried_at (last ts) \<noteq> None
           then u\<lparr>u_events := u_events u @ [''tracker_latency_seconds'']\<rparr> else u, Ok ts)
      | e \<Rightarrow> (u, e))"

text \<open>\<^verbatim>\<open>$currentDate\<close>: the update writes the date of the server.\<close>

definition set_tried :: "time \<Rightarrow> torrent \<Rightarrow> torrent" where
  "set_tried date t = t\<lparr>t_tracker_last_tried_at := Some date\<rparr>"

definition refresh_body ::
    "'db coll \<Rightarrow> ('db \<Rightarrow> time) \<Rightarrow> (bytes list \<Rightarrow> unit outcome) \<Rightarrow> time \<Rightarrow> 'db updater
     \<Rightarrow> torrent list \<times> 'db updater \<times> unit outcome" where
  "refresh_body C clock scr now u =
     (case get_records C now (u_limit u) u of
        (u, Ok records) \<Rightarrow>
          (let ids = map t_info_hash records;
               infoHashes = map (\<lambda>r. hex_decode_bytes (t_info_hash r)) records
           in case update_many C ids (set_tried (clock (u_coll u))) (u_coll u) of
                Ok (_, db) \<Rightarrow>
                  (let u = u\<lparr>u_coll := db\<rparr>
                   in case scr infoHashes of
                        Ok _ \<Rightarrow> (records, u\<lparr>u_scraped := u_scraped u @ [infoHashes]\<rparr>, Ok ())
                      | Err e \<Rightarrow> (records, u, Ok ())
                      | Panic p \<Rightarrow> (records, u, Panic p))
              | Err e \<Rightarrow> (records, u, Ok ())
              | Panic p \<Rightarrow> (records, u, Panic p))
      | (u, Err e) \<Rightarrow> ([], u, Ok ())
      | (u, Panic p) \<Rightarrow> ([], u, Panic p))"

text \<open>The deferred function runs however the body ends; \<^const>\<open>None\<close> is waiting on the full channel.\<close>

definition refresh_tracker ::
    "'db coll \<Rightarrow> ('db \<Rightarrow> time) \<Rightarrow> (bytes list \<Rightarrow> unit outcome) \<Rightarrow> time \<Rightarrow> 'db updater
     \<Rightarrow> ('db updater \<times> unit outcome) option" where
  "refresh_tracker C clock scr now u =
     (let (records, u, r) = refresh_body C clock scr now u
      in if length records > 0
         then if u_need_update u < 1 then Some (u\<lparr>u_need_update := u_need_update u + 1\<rparr>, r) else None
         else Some (u\<lparr>u_timers := u_timers u + 1\<rparr>, r))"

text \<open>One iteration of \<^verbatim>\<open>fetch\<close>: it takes an element off the channel and refreshes.\<close>

definition fetch_one ::
    "'db coll \<Rightarrow> ('db \<Rightarrow> time) \<Rightarrow> (bytes list \<Rightarrow> unit outcome) \<Rightarrow> time \<Rightarrow> 'db updater
     \<Rightarrow> ('db updater \<times> unit outcome) option" where
  "fetch_one C clock scr now u =
     (if u_need_update u = 0 then None
      else refresh_tracker C clock scr now (u\<lparr>u_need_update := u_need_update u - 1\<rparr>))"

definition timer_fires :: "'db updater \<Rightarrow> 'db updater option" where
  "timer_fires u =
     (if u_timers u > 0 \<and> u_need_update u < 1
      then Some (u\<lparr>u_timers := u_timers u - 1, u_need_update := u_need_update u + 1\<rparr>) else None)"

section \<open>Recovery\<close>

fun recover_publish ::
    "(nat \<Rightarrow> unit outcome) \<Rightarrow> torrent list \<Rightarrow> string list \<Rightarrow> 'db updater \<Rightarrow> 'db updater \<times> string list outcome" where
  "recover_publish pub [] ids u = (u, Ok ids)"
| "recover_publish pub (torrent # torrents) ids u =
     (case json_marshal torrent of
        Ok raw \<Rightarrow>
          (case publish pub topic_new_torrent raw u of
             (u, Ok _) \<Rightarrow> recover_publish pub torrents (ids @ [t_info_hash torrent]) u
           | (u, Err e) \<Rightarrow> (u, Err e)
           | (u, Panic p) \<Rightarrow> (u, Panic p))
      | Err e \<Rightarrow> (u, Err e)
      | Panic p \<Rightarrow> (u, Panic p))"

text \<open>One round: \<^term>\<open>Inl\<close> is a return, \<^term>\<open>Inr\<close> another round.\<close>

definition recover_round ::
    "'db coll \<Rightarrow> ('db \<Rightarrow> time) \<Rightarrow> (nat \<Rightarrow> unit outcome) \<Rightarrow> 'db updater
     \<Rightarrow> ('db updater \<times> unit outcome) + 'db updater" where
  "recover_round C clock pub u =
     (case find_many C untried (\<lambda>_. None) (u_limit u) (u_coll u) of
        Ok torrents \<Rightarrow>
          if length torrents = 0 then Inl (u, Ok ())
          else (case recover_publish pub torrents [] u of
                  (u, Ok ids) \<Rightarrow>
                    (case update_many C ids (set_tried (clock (u_coll u))) (u_coll u) of
                       Ok (_, db) \<Rightarrow> Inr (u\<lparr>u_coll := db\<rparr>)
                     | Err e \<Rightarrow> Inl (u, Err e)
                     | Panic p \<Rightarrow> Inl (u, Panic p))
                | (u, Err e) \<Rightarrow> Inl (u, Err e)
                | (u, Panic p) \<Rightarrow> Inl (u, Panic p))
      | Err e \<Rightarrow> Inl (u, Err e)
      | Panic p \<Rightarrow> Inl (u, Panic p))"

partial_function (option) recover ::
    "'db coll \<Rightarrow> ('db \<Rightarrow> time) \<Rightarrow> (nat \<Rightarrow> unit outcome) \<Rightarrow> 'db updater \<Rightarrow> ('db updater \<times> unit outcome) option" where
  "recover C clock pub u =
     (case recover_round C clock pub u of
        Inl r \<Rightarrow> Some r
      | Inr u \<Rightarrow> recover C clock pub u)"

declare recover.simps [code]

section \<open>Interleavings\<close>

text \<open>The router's handler, the goroutine of the results, the fetching goroutine and the timers.\<close>

inductive updater_step :: "'db coll \<Rightarrow> 'db updater \<Rightarrow> 'db updater \<Rightarrow> bool" for C where
  us_new: "handle_new_torrent scr msg u = (u', r) \<Longrightarrow> updater_step C u u'"
| us_result: "updater_step C u (handle_result C pub now result u)"
| us_fetch: "fetch_one C clock scr now u = Some (u', r) \<Longrightarrow> updater_step C u u'"
| us_timer: "timer_fires u = Some u' \<Longrightarrow> updater_step C u u'"

inductive_cases updater_stepE: "updater_step C u u'"

definition updater_begin :: "'db updater \<Rightarrow> bool" where
  "updater_begin u \<longleftrightarrow> (\<exists>limit db u0. new_tracker_updater (Ok ()) limit db = Ok u0 \<and> updater_start u0 = Some u)"

section \<open>Lemmas\<close>

lemma publish_frame:
  assumes "publish pub topic raw u = (u', r)"
  shows "u_need_update u' = u_need_update u \<and> u_timers u' = u_timers u \<and> u_coll u' = u_coll u \<and> u_limit u' = u_limit u
    \<and> u_published u' = u_published u @ (if is_ok r then [(topic, raw)] else [])"
  using assms by (cases "pub (u_calls u)"; cases r) (auto simp: publish_def Let_def)

lemma handle_result_tokens:
  "u_need_update (handle_result C pub now rs u) = u_need_update u" "u_timers (handle_result C pub now rs u) = u_timers u"
  by (induction rs arbitrary: u)
    (auto simp: json_marshal_def Let_def dest: publish_frame split: outcome.splits prod.splits)

lemma handle_new_tokens:
  assumes "handle_new_torrent scr msg u = (u', r)"
  shows "u_need_update u' = u_need_update u" "u_timers u' = u_timers u"
  using assms by (auto simp: handle_new_torrent_def Let_def split: outcome.splits if_splits)

lemma refresh_body_tokens:
  assumes "refresh_body C clock scr now u = (records, u', r)"
  shows "u_need_update u' = u_need_update u" "u_timers u' = u_timers u"
  using assms by (auto simp: refresh_body_def get_records_def Let_def split: outcome.splits prod.splits if_splits)

text \<open>With one element taken off the channel, the refresh puts it back or arms a timer.\<close>

lemma fetch_one_token:
  assumes "u_need_update u = 1" "u_timers u = 0"
  shows "\<exists>u' r. fetch_one C clock scr now u = Some (u', r) \<and> u_need_update u' + u_timers u' = 1"
proof -
  let ?u = "u\<lparr>u_need_update := 0\<rparr>"
  obtain records v r where b: "refresh_body C clock scr now ?u = (records, v, r)" by (metis prod_cases3)
  then have "u_need_update v = 0" "u_timers v = 0" using refresh_body_tokens [OF b] assms by auto
  with b assms show ?thesis by (auto simp: fetch_one_def refresh_tracker_def)
qed

definition one_token :: "'db updater \<Rightarrow> bool" where
  "one_token u \<longleftrightarrow> u_need_update u + u_timers u = 1"

interpretation us: inv_system updater_begin "updater_step C" one_token for C :: "'db coll"
proof
  fix u :: "'db updater"
  show "updater_begin u \<Longrightarrow> one_token u"
    by (auto simp: updater_begin_def new_tracker_updater_def updater_start_def one_token_def split: if_splits)
  fix u'
  assume i: "one_token u" and "updater_step C u u'"
  from this(2) show "one_token u'"
  proof (cases rule: updater_step.cases)
    case (us_new scr msg r)
    with handle_new_tokens [OF this] i show ?thesis by (simp add: one_token_def)
  next
    case (us_fetch clock scr now r)
    then have "u_need_update u = 1" "u_timers u = 0"
      using i by (auto simp: one_token_def fetch_one_def split: if_splits)
    with fetch_one_token [OF this, of C clock scr now] us_fetch show ?thesis by (simp add: one_token_def)
  qed (use i in \<open>auto simp: one_token_def timer_fires_def handle_result_tokens split: if_splits\<close>)
qed

subsection \<open>Batches\<close>

lemma decode_hashes_hex: "map t_info_hash ts = map hex_encode hs \<Longrightarrow> decode_hashes ts acc = Ok (acc @ hs)"
  by (induction ts arbitrary: hs acc) auto

lemma decode_hashes_bad:
  assumes "t \<in> set ts" "\<not> is_ok (hex_decode (t_info_hash t))"
  shows "\<not> is_ok (decode_hashes ts acc)"
  using assms by (induction ts arbitrary: acc) (auto simp: is_ok_iff outcome_simps)

definition handle_all :: "(bytes list \<Rightarrow> unit outcome) \<Rightarrow> torrent list \<Rightarrow> 'db updater \<Rightarrow> 'db updater" where
  "handle_all scr ts u = foldl (\<lambda>u t. fst (handle_new_torrent scr (Payload t) u)) u ts"

text \<open>The batch \<open>p\<close> and the scraped batches hold the hashes \<open>hs\<close> in order.\<close>

definition batched :: "bytes list \<Rightarrow> 'db updater \<Rightarrow> bool" where
  "batched hs u \<longleftrightarrow> (\<exists>p. map t_info_hash (u_batch u) = map hex_encode p \<and> concat (u_scraped u) @ p = hs
     \<and> int (length p) < u_limit u \<and> (\<forall>b \<in> set (u_scraped u). int (length b) = u_limit u))"

lemma handle_new_batched:
  assumes "batched hs u" "u_limit u \<le> int64_max" "t_info_hash t = hex_encode h" "\<And>b. scr b = Ok ()"
  shows "batched (hs @ [h]) (fst (handle_new_torrent scr (Payload t) u))
     \<and> u_limit (fst (handle_new_torrent scr (Payload t) u)) = u_limit u"
proof -
  obtain p where p: "map t_info_hash (u_batch u) = map hex_encode p" "concat (u_scraped u) @ p = hs"
    "int (length p) < u_limit u" "\<forall>b \<in> set (u_scraped u). int (length b) = u_limit u"
    using assms(1) by (auto simp: batched_def)
  have w: "wrap64 (u_limit u - 1) = u_limit u - 1"
    using assms(2) p(3) by (intro wrap64_id) (simp add: is_int64_def int64_min_def)
  have l: "length (u_batch u) = length p" using arg_cong [OF p(1), of length] by simp
  have d: "decode_hashes (u_batch u @ [t]) [] = Ok (p @ [h])"
    using decode_hashes_hex [of "u_batch u @ [t]" "p @ [h]"] p(1) assms(3) by simp
  show ?thesis
  proof (cases "int (length p) < u_limit u - 1")
    case True
    then show ?thesis using p assms(3) l w
      by (auto simp: handle_new_torrent_def json_unmarshal_def batched_def intro!: exI [of _ "p @ [h]"])
  next
    case False
    then show ?thesis using p d assms(4) l w
      by (auto simp: handle_new_torrent_def json_unmarshal_def batched_def)
  qed
qed

lemma handle_all_batched:
  assumes "batched gs u" "u_limit u \<le> int64_max" "map t_info_hash ts = map hex_encode hs" "\<And>b. scr b = Ok ()"
  shows "batched (gs @ hs) (handle_all scr ts u) \<and> u_limit (handle_all scr ts u) = u_limit u"
  using assms(1-3)
proof (induction ts arbitrary: gs hs u)
  case (Cons t ts)
  obtain h hs' where hs: "hs = h # hs'" "t_info_hash t = hex_encode h" "map t_info_hash ts = map hex_encode hs'"
    using Cons.prems(3) by (cases hs) auto
  let ?u = "fst (handle_new_torrent scr (Payload t) u)"
  have "batched (gs @ [h]) ?u" "u_limit ?u = u_limit u"
    using handle_new_batched [OF Cons.prems(1,2) hs(2) assms(4)] by auto
  with Cons.IH [of "gs @ [h]" ?u hs'] Cons.prems(2) hs show ?case by (simp add: handle_all_def)
qed (simp add: handle_all_def)

subsection \<open>Recovery\<close>

lemma recover_publish_ok:
  assumes "recover_publish pub ts acc u = (u', Ok ids)"
  shows "ids = acc @ map t_info_hash ts \<and> u_coll u' = u_coll u \<and> u_limit u' = u_limit u
     \<and> u_published u' = u_published u @ map (\<lambda>t. (topic_new_torrent, Payload (json_torrent t))) ts"
  using assms
proof (induction ts arbitrary: acc u)
  case (Cons t ts)
  obtain v r where v: "publish pub topic_new_torrent (Payload (json_torrent t)) u = (v, r)" by fastforce
  have "r = Ok ()" using Cons.prems v by (cases r) (auto simp: json_marshal_def)
  then have rest: "recover_publish pub ts (acc @ [t_info_hash t]) v = (u', Ok ids)"
    using Cons.prems v by (simp add: json_marshal_def)
  show ?case using Cons.IH [OF rest] publish_frame [OF v] \<open>r = Ok ()\<close> by simp
qed simp

text \<open>A round that goes on has published and marked some untried documents.\<close>

lemma recover_round_again:
  assumes "doc_collection C view" "ids_distinct (view (u_coll u))" "recover_round C clock pub u = Inr u'"
  obtains ts where "ts \<noteq> []" "mset ts \<subseteq># filter_mset untried (mset (view (u_coll u)))"
    "u_published u' = u_published u @ map (\<lambda>t. (topic_new_torrent, Payload (json_torrent t))) ts" "ids_distinct (view (u_coll u'))"
    "filter_mset untried (mset (view (u_coll u'))) = filter_mset untried (mset (view (u_coll u))) - mset ts"
proof -
  obtain ts v ids k db where r: "find_many C untried (\<lambda>_. None) (u_limit u) (u_coll u) = Ok ts" "ts \<noteq> []"
    "recover_publish pub ts [] u = (v, Ok ids)" "update_many C ids (set_tried (clock (u_coll v))) (u_coll v) = Ok (k, db)"
    "u' = v\<lparr>u_coll := db\<rparr>"
    using assms(3) by (auto simp: recover_round_def split: outcome.splits prod.splits if_splits)
  have m: "mset ts \<subseteq># filter_mset untried (mset (view (u_coll u)))"
    by (rule doc_collection.find_sound [OF assms(1) r(1)])
  have v: "ids = map t_info_hash ts" "u_coll v = u_coll u"
    "u_published v = u_published u @ map (\<lambda>t. (topic_new_torrent, Payload (json_torrent t))) ts"
    using recover_publish_ok [OF r(3)] by auto
  have w: "view db = list_update (map t_info_hash ts) (set_tried (clock (u_coll u))) (view (u_coll u))"
    using doc_collection.update_view [OF assms(1) r(4)] v by simp
  have g: "\<not> untried (set_tried date t)" for date t by (simp add: untried_def set_tried_def)
  show thesis
    by (rule that [OF r(2) m]) (use r(5) v w assms(2) mark_tried [OF assms(2) m g] in simp_all)
qed

lemma recover_round_done:
  assumes "doc_collection C view" "recover_round C clock pub u = Inl (u', Ok ())"
  shows "u' = u \<and> filter_mset untried (mset (view (u_coll u))) = {#}"
proof -
  have r: "find_many C untried (\<lambda>_. None) (u_limit u) (u_coll u) = Ok []" "u' = u"
    using assms(2) by (auto simp: recover_round_def split: outcome.splits prod.splits if_splits)
  have "u_limit u = 0 \<or> length ([] :: torrent list) < nat \<bar>u_limit u\<bar>" by auto
  from doc_collection.find_complete [OF assms(1) r(1) this] r(2) show ?thesis by simp
qed

text \<open>A collection in memory with three torrents, for the examples.\<close>

definition example_torrent :: "bytes \<Rightarrow> time option \<Rightarrow> torrent" where
  "example_torrent h tried = zero_torrent\<lparr>t_info_hash := hex_encode h, t_name := ''n'', t_tracker_last_tried_at := tried\<rparr>"

definition example_updater :: "torrent list updater" where
  "example_updater = \<lparr>u_limit = 2, u_batch = [],
     u_coll = [example_torrent ''a'' None, example_torrent ''b'' (Some 5), example_torrent ''c'' None],
     u_need_update = 0, u_timers = 0, u_scraped = [], u_calls = 0, u_published = [], u_events = [], u_stopped = False\<rparr>"

section \<open>Properties\<close>

text \<open>
  Property C12. The recovery ends, whatever the bus and the collection answer. When it succeeds, no
  document is left untried, and exactly the untried documents have been published as new torrents,
  each of them once.
\<close>

theorem recover_completes:
  assumes "doc_collection C view" "ids_distinct (view (u_coll u))"
  shows "\<exists>u' r. recover C clock pub u = Some (u', r) \<and> (r = Ok () \<longrightarrow>
     (\<forall>t \<in> set (view (u_coll u')). \<not> untried t) \<and>
     (\<exists>ts. mset ts = filter_mset untried (mset (view (u_coll u)))
         \<and> u_published u' = u_published u @ map (\<lambda>t. (topic_new_torrent, Payload (json_torrent t))) ts))"
  using assms(2)
proof (induction "size (filter_mset untried (mset (view (u_coll u))))" arbitrary: u rule: less_induct)
  case less
  show ?case
  proof (cases "recover_round C clock pub u")
    case (Inl x)
    obtain v r where x: "x = (v, r)" by fastforce
    have "v = u \<and> filter_mset untried (mset (view (u_coll u))) = {#}" if "r = Ok ()"
      using recover_round_done [OF assms(1), of clock pub u v] Inl x that by simp
    moreover have "recover C clock pub u = Some (v, r)" using Inl x by (subst recover.simps) simp
    ultimately show ?thesis by (fastforce simp: filter_mset_eq_conv)
  next
    case (Inr v)
    obtain ts where ts: "ts \<noteq> []" "mset ts \<subseteq># filter_mset untried (mset (view (u_coll u)))"
      "u_published v = u_published u @ map (\<lambda>t. (topic_new_torrent, Payload (json_torrent t))) ts" "ids_distinct (view (u_coll v))"
      "filter_mset untried (mset (view (u_coll v))) = filter_mset untried (mset (view (u_coll u))) - mset ts"
      by (rule recover_round_again [OF assms(1) less.prems Inr])
    have "size (filter_mset untried (mset (view (u_coll v)))) < size (filter_mset untried (mset (view (u_coll u))))"
      using ts(1) size_mset_mono [OF ts(2)] unfolding ts(5) size_Diff_submset [OF ts(2)] by (cases ts) auto
    from less.hyps [OF this ts(4)] obtain w r where
      w: "recover C clock pub v = Some (w, r)" "r = Ok () \<longrightarrow> (\<forall>t \<in> set (view (u_coll w)). \<not> untried t) \<and>
       (\<exists>us. mset us = filter_mset untried (mset (view (u_coll v)))
         \<and> u_published w = u_published v @ map (\<lambda>t. (topic_new_torrent, Payload (json_torrent t))) us)"
      by blast
    have "recover C clock pub u = Some (w, r)" using Inr w(1) by (subst recover.simps) simp
    moreover have "\<exists>xs. mset xs = filter_mset untried (mset (view (u_coll u)))
         \<and> u_published w = u_published u @ map (\<lambda>t. (topic_new_torrent, Payload (json_torrent t))) xs" if "r = Ok ()"
    proof -
      obtain us where "mset us = filter_mset untried (mset (view (u_coll v)))"
        "u_published w = u_published v @ map (\<lambda>t. (topic_new_torrent, Payload (json_torrent t))) us"
        using w(2) \<open>r = Ok ()\<close> by blast
      with ts(2,3,5) show ?thesis by (intro exI [of _ "ts @ us"]) simp
    qed
    ultimately show ?thesis using w(2) by blast
  qed
qed

theorem recover_completes_witness:
  "\<exists>u' r. recover list_coll (\<lambda>_. 9) (\<lambda>_. Ok ()) example_updater = Some (u', r) \<and> (r = Ok () \<longrightarrow>
     (\<forall>t \<in> set (u_coll u'). \<not> untried t) \<and> length (u_published u') = 2)"
proof -
  have "ids_distinct (u_coll example_updater)" by code_simp
  moreover have "size (filter_mset untried (mset (u_coll example_updater))) = 2"
    by (simp add: example_updater_def example_torrent_def untried_def zero_torrent_def)
  moreover have "u_published example_updater = []" by (simp add: example_updater_def)
  ultimately show ?thesis
    using recover_completes [OF lc.doc_collection_axioms, of example_updater "\<lambda>_. 9" "\<lambda>_. Ok ()"]
    by (metis append_Nil length_map size_mset)
qed

text \<open>
  Property C31. Batching of new torrents: while the tracker accepts its calls, the scraped batches
  followed by the pending batch are the announced hashes in order, every scraped batch has exactly the
  configured size, and the pending one is smaller.
\<close>

theorem updater_batches:
  assumes "0 < limit" "limit \<le> int64_max" "new_tracker_updater (Ok ()) limit db = Ok u"
    and "map t_info_hash ts = map hex_encode hs" "\<And>b. scr b = Ok ()"
  shows "\<exists>pending. map t_info_hash (u_batch (handle_all scr ts u)) = map hex_encode pending
     \<and> concat (u_scraped (handle_all scr ts u)) @ pending = hs
     \<and> int (length pending) < limit \<and> (\<forall>b \<in> set (u_scraped (handle_all scr ts u)). int (length b) = limit)"
proof -
  have u: "u_limit u = limit" "u_batch u = []" "u_scraped u = []"
    using assms(3) by (auto simp: new_tracker_updater_def split: if_splits)
  have "batched [] u" using assms(1) u by (simp add: batched_def)
  from handle_all_batched [OF this _ assms(4), of scr] assms(2,5) u(1) show ?thesis by (auto simp: batched_def)
qed

theorem updater_batches_witness:
  "\<exists>u pending. new_tracker_updater (Ok ()) 2 () = Ok u
     \<and> (let u' = handle_all (\<lambda>_. Ok ()) (map (\<lambda>h. example_torrent h None) [''a'', ''b'', ''c'']) u
        in concat (u_scraped u') @ pending = [''a'', ''b'', ''c''] \<and> int (length pending) < 2)"
proof -
  obtain u where u: "new_tracker_updater (Ok ()) 2 () = Ok u" by (simp add: new_tracker_updater_def)
  have "map t_info_hash (map (\<lambda>h. example_torrent h None) [''a'', ''b'', ''c'']) = map hex_encode [''a'', ''b'', ''c'']"
    by (simp add: example_torrent_def)
  from updater_batches [OF _ _ u this, of "\<lambda>_. Ok ()"] u show ?thesis by (auto simp: int64_max_def Let_def)
qed

text \<open>
  A refresh is always scheduled and never waits: in every reachable state exactly one
  request for a refresh exists, either in the channel, and then the fetching goroutine completes an
  iteration, or as a timer, and then its send does not wait.
\<close>

lemma refresh_never_waits:
  assumes "reach updater_begin (updater_step C) u"
  shows "u_need_update u + u_timers u = 1
     \<and> (u_need_update u = 1 \<longrightarrow> (\<exists>u' r. fetch_one C clock scr now u = Some (u', r)))
     \<and> (u_need_update u = 0 \<longrightarrow> (\<exists>u'. timer_fires u = Some u'))"
proof -
  have "one_token u" by (rule us.reach_inv [OF assms])
  then show ?thesis using fetch_one_token [of u C clock scr now] by (auto simp: one_token_def timer_fires_def)
qed

lemma refresh_never_waits_example:
  "\<exists>u. reach updater_begin (updater_step list_coll) u
     \<and> (\<exists>u' r. fetch_one list_coll (\<lambda>_. 0) (\<lambda>_. Ok ()) 0 u = Some (u', r))"
proof -
  obtain u0 where u0: "new_tracker_updater (Ok ()) 2 ([] :: torrent list) = Ok u0" "u_need_update u0 = 0"
    by (simp add: new_tracker_updater_def)
  let ?u = "u0\<lparr>u_need_update := 1\<rparr>"
  have "updater_begin ?u" using u0 by (force simp: updater_begin_def updater_start_def)
  then have r: "reach updater_begin (updater_step list_coll) ?u" by (rule reach_init)
  from refresh_never_waits [OF r, of "\<lambda>_. 0" "\<lambda>_. Ok ()" 0] r show ?thesis by auto
qed

text \<open>
  Property C38. A torrent whose identifier is not hexadecimal poisons the batch: once the batch is
  full, every further message is refused and changes nothing.
\<close>

theorem poisoned_batch_stuck:
  assumes "t \<in> set (u_batch u)" "\<not> is_ok (hex_decode (t_info_hash t))" "wrap64 (u_limit u - 1) \<le> int (length (u_batch u))"
    and "handle_new_torrent scr msg u = (u', r)"
  shows "u' = u \<and> \<not> is_ok r"
proof (cases "json_unmarshal msg")
  case (Ok x)
  then show ?thesis
    using decode_hashes_bad [of t "u_batch u @ [x]" "[]"] assms
    by (auto simp: handle_new_torrent_def split: outcome.splits)
qed (use assms in \<open>auto simp: handle_new_torrent_def\<close>)

theorem poisoned_batch_stuck_witness:
  "let u = example_updater\<lparr>u_batch := [zero_torrent\<lparr>t_info_hash := ''zz''\<rparr>]\<rparr>
   in fst (handle_new_torrent (\<lambda>_. Ok ()) (Payload (example_torrent ''a'' None)) u) = u"
proof -
  let ?u = "example_updater\<lparr>u_batch := [zero_torrent\<lparr>t_info_hash := ''zz''\<rparr>]\<rparr>"
  have h: "zero_torrent\<lparr>t_info_hash := ''zz''\<rparr> \<in> set (u_batch ?u)"
    "\<not> is_ok (hex_decode (t_info_hash (zero_torrent\<lparr>t_info_hash := ''zz''\<rparr>)))"
    "wrap64 (u_limit ?u - 1) \<le> int (length (u_batch ?u))"
    by (simp, code_simp, simp add: example_updater_def wrap64_def)
  from poisoned_batch_stuck [OF h] show ?thesis by (metis prod.collapse)
qed

end
