(* ===== verification/Indexer.thy ===== *)
theory Indexer
  imports Doc_Collection Amqp_Client
begin

text \<open>
  \<^verbatim>\<open>indexer/internal/svc/indexer.go\<close>: the service that copies published torrents into the search index.
  It collects the torrents of the deliveries it receives, writes a full batch to the index in one bulk
  request, and acknowledges all of them with the last one. The lemmas show that no delivery is
  acknowledged before its torrent has been submitted to the index, that none is forgotten, that the prefetch
  count the constructor asks the broker for never keeps the next delivery from arriving, and what becomes
  of a document that the index refuses.
\<close>

section \<open>State\<close>

text \<open>
  The calls on the broker are logged in order, with the tag of the delivery they are made on. A bulk
  request is answered with an error or with a result per item, since the index may refuse some of them:
  \<open>i_submitted\<close> are the pairs of identifier and document of the answered requests, \<open>i_indexed\<close> those of them
  that the index took. An answered request starts a goroutine that sets the flag \<^verbatim>\<open>search_updated\<close> of its
  identifiers (\<open>i_flags\<close>, until it runs). How long a request took is not modelled.
\<close>

datatype settle = Ack nat bool | Nack nat bool bool

record 'db indexer =
  i_batch_size :: int
  i_batch :: "torrent list"
  i_delayed_cursor :: "time option"
  i_settled :: "settle list"
  i_bulks :: nat
  i_submitted :: "(string \<times> torrent) list list"
  i_indexed :: "(string \<times> torrent) list list"
  i_flags :: "string list list"
  i_coll :: 'db
  i_events :: "(string \<times> nat) list"
  i_gauges :: "(string \<times> int) list"
  i_client :: client
  i_deliveries :: "string \<times> bool"
  i_stopped :: bool

text \<open>
  The constructor: the first call that fails is the error returned, and the calls made before it stay.
  A negative batch size is refused by \<^verbatim>\<open>make\<close>. \<open>es\<close> is what the client of the search index returns.
\<close>

definition new_indexer :: "broker \<Rightarrow> unit outcome \<Rightarrow> string \<Rightarrow> int \<Rightarrow> 'db \<Rightarrow> 'db indexer amqp" where
  "new_indexer reply es uri batchSize db log =
     (if batchSize < 0 then (log, Panic MakeOutOfRange)
      else case es of
             Ok _ \<Rightarrow>
               abind (new_client reply uri) (\<lambda>client.
               abind (set_qos reply client batchSize) (\<lambda>_.
               let queueName = ''indexer''
               in abind (declare_queue reply client queueName) (\<lambda>_.
                  abind (queue_bind reply client queueName topic_new_torrent) (\<lambda>_.
                  abind (queue_bind reply client queueName topic_tracker_updated) (\<lambda>_.
                  abind (consume reply client queueName False) (\<lambda>deliveries.
                  areturn \<lparr>i_batch_size = batchSize, i_batch = [], i_delayed_cursor = None, i_settled = [], i_bulks = 0,
                    i_submitted = [], i_indexed = [], i_flags = [], i_coll = db, i_events = [], i_gauges = [], i_client = client,
                    i_deliveries = deliveries, i_stopped = False\<rparr>)))))) log
           | Err e \<Rightarrow> (log, Err e)
           | Panic p \<Rightarrow> (log, Panic p))"

definition indexer_stop :: "'db indexer \<Rightarrow> 'db indexer" where
  "indexer_stop i = i\<lparr>i_stopped := True\<rparr>"

section \<open>Operations\<close>

text \<open>One tick of \<^verbatim>\<open>stats\<close>; \<open>es_count\<close> is what counting the documents of an index returns.\<close>

definition count_torrents :: "(string \<Rightarrow> int outcome) \<Rightarrow> int outcome" where
  "count_torrents es_count = es_count ''torrents''"

definition indexer_stats_tick :: "(string \<Rightarrow> int outcome) \<Rightarrow> 'db indexer \<Rightarrow> 'db indexer" where
  "indexer_stats_tick es_count i =
     (case count_torrents es_count of
        Ok k \<Rightarrow> i\<lparr>i_gauges := i_gauges i @ [(''torrent_indexed'', k)]\<rparr>
      | _ \<Rightarrow> i)"

definition set_search_updated :: "torrent \<Rightarrow> torrent" where
  "set_search_updated t = t\<lparr>t_search_updated := True\<rparr>"

text \<open>
  \<open>bulk n\<close> is what the \<open>n\<close>-th bulk request returns: an error, or which of its items the index took. The
  source ignores the results of the items.
\<close>

definition taken_items :: "(nat \<Rightarrow> bool) \<Rightarrow> 'a list \<Rightarrow> 'a list" where
  "taken_items taken reqs = map snd (filter (\<lambda>(j, _). taken j) (enumerate 0 reqs))"

definition batch_save_to_index ::
    "(nat \<Rightarrow> (nat \<Rightarrow> bool) outcome) \<Rightarrow> torrent list \<Rightarrow> 'db indexer \<Rightarrow> 'db indexer \<times> unit outcome" where
  "batch_save_to_index bulk torrents i =
     (let torrents = map set_search_updated torrents;
          ids = map t_info_hash torrents;
          reqs = map (\<lambda>t. (t_info_hash t, t)) torrents;
          r = bulk (i_bulks i);
          i = i\<lparr>i_bulks := i_bulks i + 1\<rparr>
      in case r of
           Ok taken \<Rightarrow> (i\<lparr>i_submitted := i_submitted i @ [reqs], i_indexed := i_indexed i @ [taken_items taken reqs], i_flags := i_flags i @ [ids],
                      i_events := i_events i @ [(''torrent_indexed'', length torrents)]\<rparr>, Ok ())
         | Err e \<Rightarrow> (i, Err e)
         | Panic p \<Rightarrow> (i, Panic p))"

text \<open>The goroutine that the bulk request started.\<close>

definition flag_update :: "'db coll \<Rightarrow> 'db indexer \<Rightarrow> 'db indexer" where
  "flag_update C i =
     (case i_flags i of
        [] \<Rightarrow> i
      | ids # flags \<Rightarrow>
          (let i = i\<lparr>i_flags := flags\<rparr>
           in case update_many C ids set_search_updated (i_coll i) of
                Ok (matched, db) \<Rightarrow> i\<lparr>i_coll := db, i_events := i_events i @ [(''indexed_flag_updated'', length ids)]\<rparr>
              | _ \<Rightarrow> i))"

text \<open>A call on the broker that fails is a panic.\<close>

definition settle_call :: "unit outcome \<Rightarrow> settle \<Rightarrow> 'db indexer \<Rightarrow> 'db indexer outcome" where
  "settle_call r s i =
     (case r of Ok _ \<Rightarrow> Ok (i\<lparr>i_settled := i_settled i @ [s]\<rparr>) | Err e \<Rightarrow> Panic ExplicitPanic | Panic p \<Rightarrow> Panic p)"

text \<open>One delivery of \<^verbatim>\<open>Start\<close>; \<open>ackr\<close> is what the broker answers to the acknowledgement.\<close>

definition indexer_deliver ::
    "(nat \<Rightarrow> (nat \<Rightarrow> bool) outcome) \<Rightarrow> unit outcome \<Rightarrow> nat \<times> payload \<Rightarrow> 'db indexer \<Rightarrow> 'db indexer outcome" where
  "indexer_deliver bulk ackr delivery i =
     (case delivery of (tag, body) \<Rightarrow>
        (case json_unmarshal body of
           Ok t \<Rightarrow>
             (let i = i\<lparr>i_batch := i_batch i @ [t]\<rparr>
              in if int (length (i_batch i)) \<ge> i_batch_size i
                 then obind (case batch_save_to_index bulk (i_batch i) i of
                               (i, Ok _) \<Rightarrow> settle_call ackr (Ack tag True) (i\<lparr>i_delayed_cursor := t_updated_at (hd (i_batch i))\<rparr>)
                             | (i, Err e) \<Rightarrow> settle_call ackr (Nack tag True True) i
                             | (i, Panic p) \<Rightarrow> Panic p)
                        (\<lambda>i. Ok (i\<lparr>i_batch := []\<rparr>))
                 else Ok i)
         | _ \<Rightarrow> settle_call ackr (Ack tag False) i))"

fun indexer_run ::
    "(nat \<Rightarrow> (nat \<Rightarrow> bool) outcome) \<Rightarrow> (nat \<Rightarrow> unit outcome) \<Rightarrow> (nat \<times> payload) list \<Rightarrow> 'db indexer \<Rightarrow> 'db indexer outcome" where
  "indexer_run bulk ackr [] i = Ok i"
| "indexer_run bulk ackr (d # ds) i = obind (indexer_deliver bulk (ackr (fst d)) d i) (indexer_run bulk ackr ds)"

section \<open>Specification\<close>

text \<open>
  What the protocol documents: with the flag \<^verbatim>\<open>multiple\<close> a call settles every delivery up to its tag,
  otherwise the one delivery; a delivery is settled by the first call that covers it.
\<close>

definition covers :: "nat \<Rightarrow> settle \<Rightarrow> bool" where
  "covers k s = (case s of Ack tag multiple \<Rightarrow> if multiple then k \<le> tag else k = tag
                         | Nack tag multiple requeue \<Rightarrow> if multiple then k \<le> tag else k = tag)"

definition settlement :: "settle list \<Rightarrow> nat \<Rightarrow> settle option" where
  "settlement log k = find (covers k) log"

definition is_nack :: "settle \<Rightarrow> bool" where
  "is_nack s = (case s of Ack _ _ \<Rightarrow> False | Nack _ _ requeue \<Rightarrow> requeue)"

text \<open>
  The documented flow control: the broker delivers while the deliveries not yet settled are fewer than
  the prefetch count of the last \<^verbatim>\<open>Qos\<close> call, a 16-bit number on the wire, for which 0 means no limit.
\<close>

definition prefetch :: "amqp_call list \<Rightarrow> int" where
  "prefetch calls = fold (\<lambda>c n. case c of Qos k sz global \<Rightarrow> k mod 2 ^ 16 | _ \<Rightarrow> n) calls 0"

definition outstanding :: "settle list \<Rightarrow> nat \<Rightarrow> nat" where
  "outstanding log n = length (filter (\<lambda>k. settlement log k = None) (map Suc [0..<n]))"

definition broker_may_deliver :: "amqp_call list \<Rightarrow> settle list \<Rightarrow> nat \<Rightarrow> bool" where
  "broker_may_deliver calls log n \<longleftrightarrow> prefetch calls = 0 \<or> int (outstanding log n) < prefetch calls"

text \<open>Deliveries are numbered from one, in order.\<close>

definition numbered :: "payload list \<Rightarrow> (nat \<times> payload) list" where
  "numbered bodies = zip (map Suc [0..<length bodies]) bodies"

text \<open>The torrents of the unsettled deliveries.\<close>

definition unsettled :: "settle list \<Rightarrow> (nat \<times> payload) list \<Rightarrow> torrent list" where
  "unsettled log ds = concat (map (\<lambda>(k, b). case b of Payload t \<Rightarrow> if settlement log k = None then [t] else [] | Garbage \<Rightarrow> []) ds)"

definition accounted :: "(nat \<times> payload) list \<Rightarrow> 'db indexer \<Rightarrow> bool" where
  "accounted ds i \<longleftrightarrow>
     (\<forall>k t s. (k, Payload t) \<in> set ds \<longrightarrow> settlement (i_settled i) k = Some s \<longrightarrow>
        is_nack s \<or> (t_info_hash t, set_search_updated t) \<in> set (concat (i_submitted i)))
   \<and> (\<forall>k. (k, Garbage) \<in> set ds \<longrightarrow> settlement (i_settled i) k \<noteq> None)
   \<and> i_batch i = unsettled (i_settled i) ds \<and> int (length (i_batch i)) < max 1 (i_batch_size i)"

section \<open>Lemmas\<close>

lemma accountedD:
  assumes "accounted ds i"
  shows "(k, Payload t) \<in> set ds \<Longrightarrow> settlement (i_settled i) k = Some s \<Longrightarrow>
      is_nack s \<or> (t_info_hash t, set_search_updated t) \<in> set (concat (i_submitted i))"
    and "(k, Garbage) \<in> set ds \<Longrightarrow> settlement (i_settled i) k \<noteq> None"
    and "unsettled (i_settled i) ds = i_batch i" "int (length (i_batch i)) < max 1 (i_batch_size i)"
  using assms unfolding accounted_def by (blast, blast, metis, metis)

lemma settlement_snoc:
  "settlement (log @ [s]) k = (case settlement log k of Some x \<Rightarrow> Some x | None \<Rightarrow> if covers k s then Some s else None)"
  by (induction log) (auto simp: settlement_def)

lemma numbered_snoc: "numbered (bs @ [b]) = numbered bs @ [(Suc (length bs), b)]"
  by (simp add: numbered_def)

lemma map_fst_numbered: "map fst (numbered bs) = map Suc [0..<length bs]"
  by (simp add: numbered_def)

lemma numbered_tags: "(k, b) \<in> set (numbered bs) \<Longrightarrow> k \<le> length bs"
  by (auto simp: numbered_def dest!: set_zip_leftD)

definition tag_of :: "settle \<Rightarrow> nat" where
  "tag_of s = (case s of Ack tag _ \<Rightarrow> tag | Nack tag _ _ \<Rightarrow> tag)"

lemma covers_tag: "covers k s \<Longrightarrow> k \<le> tag_of s"
  by (auto simp: covers_def tag_of_def split: settle.splits if_splits)

lemma settlement_above: "\<forall>s \<in> set log. tag_of s < k \<Longrightarrow> settlement log k = None"
  using covers_tag by (fastforce simp: settlement_def find_None_iff)

lemma unsettled_append: "unsettled log (xs @ ys) = unsettled log xs @ unsettled log ys"
  by (simp add: unsettled_def)

text \<open>A call with \<^verbatim>\<open>multiple\<close> on the last tag settles everything; one on the last tag alone leaves the rest.\<close>

lemma unsettled_all:
  assumes "\<And>k b. (k, b) \<in> set ds \<Longrightarrow> covers k s"
  shows "unsettled (log @ [s]) ds = []"
  using assms by (fastforce simp: unsettled_def settlement_snoc split: payload.splits option.splits)

lemma unsettled_single:
  assumes "\<And>k b. (k, b) \<in> set ds \<Longrightarrow> \<not> covers k s"
  shows "unsettled (log @ [s]) ds = unsettled log ds"
  using assms by (induction ds) (force simp: unsettled_def settlement_snoc split: payload.splits option.splits)+

lemma settlement_keep:
  assumes "settlement (log @ [s]) k = Some x" "x \<noteq> s"
  shows "settlement log k = Some x"
  using assms by (auto simp: settlement_snoc split: option.splits if_splits)

definition index_inv :: "payload list \<Rightarrow> 'db indexer \<Rightarrow> bool" where
  "index_inv bs i \<longleftrightarrow> accounted (numbered bs) i \<and> (\<forall>s \<in> set (i_settled i). tag_of s \<le> length bs)"

text \<open>A call that covers everything delivered, made once the unsettled torrents are indexed or given back.\<close>

lemma flush_inv:
  assumes "index_inv bs i" "\<And>k. k \<le> Suc (length bs) \<Longrightarrow> covers k s" "tag_of s = Suc (length bs)"
    and "i_settled i' = i_settled i @ [s]" "i_batch i' = []" "set (concat (i_submitted i)) \<subseteq> set (concat (i_submitted i'))"
    and "is_nack s \<or> (\<forall>x \<in> set (unsettled (i_settled i) (numbered (bs @ [b]))).
           (t_info_hash x, set_search_updated x) \<in> set (concat (i_submitted i')))"
  shows "index_inv (bs @ [b]) i'"
proof -
  let ?ds = "numbered (bs @ [b])"
  have c: "covers k s" if "(k, x) \<in> set ?ds" for k x using numbered_tags [OF that] assms(2) by simp
  have a: "is_nack x \<or> (t_info_hash t, set_search_updated t) \<in> set (concat (i_submitted i))"
    if "(k, Payload t) \<in> set ?ds" "settlement (i_settled i) k = Some x" for k t x
  proof -
    have "settlement (i_settled i) (Suc (length bs)) = None"
      using assms(1) by (intro settlement_above) (auto simp: index_inv_def)
    then have "(k, Payload t) \<in> set (numbered bs)" using that by (auto simp: numbered_snoc)
    then show ?thesis using assms(1) that(2) by (auto simp: index_inv_def accounted_def)
  qed
  have n: "is_nack s \<or> (t_info_hash t, set_search_updated t) \<in> set (concat (i_submitted i'))"
    if "(k, Payload t) \<in> set ?ds" "settlement (i_settled i) k = None" for k t
  proof -
    have "t \<in> set (unsettled (i_settled i) ?ds)" using that by (force simp: unsettled_def)
    then show ?thesis using assms(7) by blast
  qed
  have "is_nack x \<or> (t_info_hash t, set_search_updated t) \<in> set (concat (i_submitted i'))"
    if "(k, Payload t) \<in> set ?ds" "settlement (i_settled i') k = Some x" for k t x
  proof (cases "settlement (i_settled i) k")
    case None
    then have "x = s" using that(2) by (auto simp: assms(4) settlement_snoc split: if_splits)
    with n [OF that(1) None] show ?thesis by simp
  next
    case (Some y)
    then have "x = y" using that(2) by (simp add: assms(4) settlement_snoc)
    with a [OF that(1) Some] assms(6) show ?thesis by blast
  qed
  moreover have "unsettled (i_settled i') ?ds = []" unfolding assms(4) by (rule unsettled_all) (rule c)
  moreover have "settlement (i_settled i') k \<noteq> None" if "(k, x) \<in> set ?ds" for k x
    using c [OF that] by (simp add: assms(4) settlement_snoc split: option.split)
  moreover have "\<forall>x \<in> set (i_settled i'). tag_of x \<le> length (bs @ [b])"
    using assms(1,3,4) by (auto simp: index_inv_def le_Suc_eq)
  ultimately show ?thesis using assms(5) by (auto simp: index_inv_def accounted_def)
qed

text \<open>A delivery that only joins the batch, or is dropped and acknowledged alone.\<close>

lemma unsettled_new:
  assumes "index_inv bs i"
  shows "unsettled (i_settled i) (numbered (bs @ [Payload t])) = i_batch i @ [t]"
proof -
  have "settlement (i_settled i) (Suc (length bs)) = None"
    using assms by (intro settlement_above) (auto simp: index_inv_def)
  then show ?thesis
    using assms by (simp add: numbered_snoc unsettled_append index_inv_def accounted_def) (simp add: unsettled_def)
qed

lemma join_inv:
  assumes "index_inv bs i" "int (length (i_batch i @ [t])) < i_batch_size i"
  shows "index_inv (bs @ [Payload t]) (i\<lparr>i_batch := i_batch i @ [t]\<rparr>)"
proof -
  have "settlement (i_settled i) (Suc (length bs)) = None"
    using assms by (intro settlement_above) (auto simp: index_inv_def)
  then show ?thesis
    using assms unsettled_new [OF assms(1)]
    by (auto simp: index_inv_def accounted_def numbered_snoc)
qed

lemma drop_inv:
  assumes "index_inv bs i"
  shows "index_inv (bs @ [Garbage]) (i\<lparr>i_settled := i_settled i @ [Ack (Suc (length bs)) False]\<rparr>)"
proof -
  let ?s = "Ack (Suc (length bs)) False"
  have c: "\<not> covers k ?s" if "(k, x) \<in> set (numbered bs)" for k x
    using numbered_tags [OF that] by (simp add: covers_def)
  have u: "unsettled (i_settled i @ [?s]) (numbered (bs @ [Garbage])) = i_batch i"
    using assms unsettled_single [of "numbered bs" ?s "i_settled i"] c
    by (simp add: numbered_snoc unsettled_append index_inv_def accounted_def) (simp add: unsettled_def)
  have a: "accounted (numbered bs) i" "\<forall>s \<in> set (i_settled i). tag_of s \<le> length bs"
    using assms by (simp_all add: index_inv_def)
  have k: "settlement (i_settled i @ [?s]) k = settlement (i_settled i) k" if "(k, x) \<in> set (numbered bs)" for k x
    using c [OF that] by (simp add: settlement_snoc split: option.splits)
  have "settlement (i_settled i @ [?s]) (Suc (length bs)) \<noteq> None"
    by (simp add: settlement_snoc covers_def split: option.split)
  then have "settlement (i_settled i @ [?s]) k \<noteq> None" if "(k, Garbage) \<in> set (numbered (bs @ [Garbage]))" for k
    using that k accountedD(2) [OF a(1)] by (auto simp: numbered_snoc)
  moreover have "is_nack x \<or> (t_info_hash t, set_search_updated t) \<in> set (concat (i_submitted i))"
    if "(k, Payload t) \<in> set (numbered (bs @ [Garbage]))" "settlement (i_settled i @ [?s]) k = Some x" for k t x
  proof -
    have "(k, Payload t) \<in> set (numbered bs)" using that(1) by (simp add: numbered_snoc)
    with accountedD(1) [OF a(1) this] that(2) k show ?thesis by simp
  qed
  ultimately show ?thesis
    using u a(2) accountedD(4) [OF a(1)] by (auto simp: index_inv_def accounted_def tag_of_def)
qed

lemma deliver_inv:
  assumes "index_inv bs i" "indexer_deliver bulk ackr (Suc (length bs), b) i = Ok i'"
  shows "index_inv (bs @ [b]) i'"
proof (cases b)
  case Garbage
  then have "i' = i\<lparr>i_settled := i_settled i @ [Ack (Suc (length bs)) False]\<rparr>"
    using assms(2) by (auto simp: indexer_deliver_def json_unmarshal_def settle_call_def split: outcome.splits)
  then show ?thesis using drop_inv [OF assms(1)] Garbage by simp
next
  case (Payload t)
  let ?i = "i\<lparr>i_batch := i_batch i @ [t]\<rparr>"
  let ?tag = "Suc (length bs)"
  show ?thesis
  proof (cases "int (length (i_batch ?i)) < i_batch_size i")
    case True
    then have "i' = ?i" using assms(2) Payload by (auto simp: indexer_deliver_def json_unmarshal_def)
    then show ?thesis using join_inv [OF assms(1), of t] True Payload by simp
  next
    case False
    obtain j r where s: "batch_save_to_index bulk (i_batch ?i) ?i = (j, r)" by fastforce
    have u: "unsettled (i_settled i) (numbered (bs @ [b])) = i_batch i @ [t]"
      using unsettled_new [OF assms(1)] Payload by simp
    show ?thesis
    proof (cases r)
      case (Ok x)
      have j: "i_settled j = i_settled i" "i_submitted j = i_submitted i @ [map (\<lambda>t. (t_info_hash t, set_search_updated t)) (i_batch i @ [t])]"
        using s Ok by (auto simp: batch_save_to_index_def Let_def comp_def set_search_updated_def split: outcome.splits)
      have i': "i_settled i' = i_settled i @ [Ack ?tag True]" "i_batch i' = []" "i_submitted i' = i_submitted j"
        using assms(2) Payload False s Ok j(1)
        by (auto simp: indexer_deliver_def json_unmarshal_def Let_def settle_call_def outcome_simps split: outcome.splits)
      show ?thesis
        by (rule flush_inv [OF assms(1) _ _ i'(1,2)])
          (use j i'(3) u in \<open>auto simp: covers_def tag_of_def\<close>)
    next
      case (Err e)
      have j: "i_settled j = i_settled i" "i_submitted j = i_submitted i"
        using s Err by (auto simp: batch_save_to_index_def Let_def split: outcome.splits)
      have i': "i_settled i' = i_settled i @ [Nack ?tag True True]" "i_batch i' = []" "i_submitted i' = i_submitted j"
        using assms(2) Payload False s Err j(1)
        by (auto simp: indexer_deliver_def json_unmarshal_def Let_def settle_call_def outcome_simps split: outcome.splits)
      show ?thesis
        by (rule flush_inv [OF assms(1) _ _ i'(1,2)])
          (use j i'(3) in \<open>auto simp: covers_def tag_of_def is_nack_def\<close>)
    next
      case (Panic p)
      then show ?thesis using assms(2) Payload False s by (simp add: indexer_deliver_def json_unmarshal_def Let_def)
    qed
  qed
qed

lemma run_inv:
  assumes "index_inv bs i"
    and "indexer_run bulk ackr (zip (map Suc [length bs..<length bs + length cs]) cs) i = Ok i'"
  shows "index_inv (bs @ cs) i'"
  using assms
proof (induction cs arbitrary: bs i)
  case (Cons c cs)
  have z: "zip (map Suc [length bs..<length bs + length (c # cs)]) (c # cs) =
      (Suc (length bs), c) # zip (map Suc [length (bs @ [c])..<length (bs @ [c]) + length cs]) cs"
    by (simp add: upt_conv_Cons del: upt_Suc)
  obtain j where j: "indexer_deliver bulk (ackr (Suc (length bs))) (Suc (length bs), c) i = Ok j"
    "indexer_run bulk ackr (zip (map Suc [length (bs @ [c])..<length (bs @ [c]) + length cs]) cs) j = Ok i'"
    using Cons.prems(2) unfolding z by (auto simp: outcome_simps)
  from Cons.IH [OF deliver_inv [OF Cons.prems(1) j(1)] j(2)] show ?case by simp
qed simp

text \<open>The set-up is a sequence of seven calls.\<close>

definition indexer_calls :: "string \<Rightarrow> int \<Rightarrow> amqp_call list" where
  "indexer_calls uri n =
     [DialConfig uri, OpenChannel, Qos n 0 False, QueueDeclare ''indexer'' True False False False,
      QueueBind ''indexer'' [] ''new_torrent'' False, QueueBind ''indexer'' [] ''tracker_updated'' False,
      ConsumeCall ''indexer'' [] False False False False]"

definition indexer_ready :: "string \<Rightarrow> int \<Rightarrow> 'db \<Rightarrow> 'db indexer" where
  "indexer_ready uri n db =
     \<lparr>i_batch_size = n, i_batch = [], i_delayed_cursor = None, i_settled = [], i_bulks = 0,
      i_submitted = [], i_indexed = [], i_flags = [], i_coll = db, i_events = [], i_gauges = [],
      i_client = \<lparr>cl_conn = Some uri, cl_channel = True\<rparr>, i_deliveries = (''indexer'', False), i_stopped = False\<rparr>"

lemma new_indexer_calls:
  assumes "0 \<le> n"
  shows "new_indexer reply (Ok ()) uri n db log =
     abind (call_all reply (indexer_calls uri n)) (\<lambda>_. areturn (indexer_ready uri n db)) log"
  using assms
  by (simp add: new_indexer_def new_client_def set_qos_def declare_queue_def queue_bind_def consume_def
      abind_assoc indexer_calls_def indexer_ready_def call_all_Cons call_all_Nil topic_new_torrent_def
      topic_tracker_updated_def Let_def del: call_all.simps)

lemma new_indexer_Ok:
  assumes "new_indexer reply es uri n db [] = (calls, Ok i)"
  shows "calls = indexer_calls uri n" "i = indexer_ready uri n db" "0 \<le> n"
proof -
  show n: "0 \<le> n" using assms by (cases "n < 0") (simp_all add: new_indexer_def)
  have "es = Ok ()" using assms n by (cases es) (simp_all add: new_indexer_def)
  with assms new_indexer_calls [OF n, of reply uri db "[]"] have *:
    "abind (call_all reply (indexer_calls uri n)) (\<lambda>_. areturn (indexer_ready uri n db)) [] = (calls, Ok i)" by simp
  obtain log r where l: "call_all reply (indexer_calls uri n) [] = (log, r)" by fastforce
  with * have r: "r = Ok ()" by (cases r) (auto simp: abind_def)
  show "calls = indexer_calls uri n" using call_all_log [OF l] * l r by (auto simp: abind_def areturn_def)
  show "i = indexer_ready uri n db" using * l r by (auto simp: abind_def areturn_def)
qed

text \<open>Only the torrents of the batch are outstanding.\<close>

lemma outstanding_batch:
  assumes "accounted (numbered bs) i"
  shows "outstanding (i_settled i) (length bs) = length (i_batch i)"
proof -
  have "length (unsettled log ds) = length (filter (\<lambda>k. settlement log k = None) (map fst ds))"
    if "\<forall>k. (k, Garbage) \<in> set ds \<longrightarrow> settlement log k \<noteq> None" for log and ds :: "(nat \<times> payload) list"
    using that by (induction ds) (auto simp: unsettled_def split: payload.splits)
  from this [of "numbered bs" "i_settled i"] show ?thesis
    using accountedD(2,3) [OF assms] unfolding outstanding_def map_fst_numbered by simp
qed

lemma settle_batch_size: "settle_call r s i = Ok i' \<Longrightarrow> i_batch_size i' = i_batch_size i"
  by (auto simp: settle_call_def split: outcome.splits)

lemma save_batch_size: "batch_save_to_index bulk ts i = (i', r) \<Longrightarrow> i_batch_size i' = i_batch_size i"
  by (auto simp: batch_save_to_index_def Let_def split: outcome.splits)

lemma deliver_batch_size: "indexer_deliver bulk r (k, b) i = Ok i' \<Longrightarrow> i_batch_size i' = i_batch_size i"
  by (auto simp: indexer_deliver_def Let_def outcome_simps split: prod.splits outcome.splits if_splits
      dest!: settle_batch_size save_batch_size)

lemma run_batch_size: "indexer_run bulk ackr ds i = Ok i' \<Longrightarrow> i_batch_size i' = i_batch_size i"
proof (induction ds arbitrary: i)
  case (Cons d ds)
  then obtain j where j: "indexer_deliver bulk (ackr (fst d)) d i = Ok j" "indexer_run bulk ackr ds j = Ok i'"
    by (auto simp: outcome_simps)
  with Cons.IH [OF j(2)] deliver_batch_size [of bulk _ "fst d" "snd d"] show ?case by simp
qed simp

lemma index_run_accounted:
  assumes "new_indexer reply es uri n db [] = (calls, Ok i0)" "indexer_run bulk ackr (numbered bodies) i0 = Ok i"
  shows "accounted (numbered bodies) i"
proof -
  have "index_inv [] i0"
    using new_indexer_Ok(2) [OF assms(1)]
    by (simp add: indexer_ready_def index_inv_def accounted_def numbered_def unsettled_def)
  then have "index_inv ([] @ bodies) i"
    using assms(2) run_inv [of "[]" i0 bulk ackr bodies i] by (simp add: numbered_def)
  then show ?thesis by (simp add: index_inv_def)
qed

text \<open>An index that takes every item of the requests it answers.\<close>

definition takes_all :: "(nat \<Rightarrow> (nat \<Rightarrow> bool) outcome) \<Rightarrow> bool" where
  "takes_all bulk \<longleftrightarrow> (\<forall>n taken. bulk n = Ok taken \<longrightarrow> (\<forall>j. taken j))"

lemma taken_items_all: "(\<And>j. taken j) \<Longrightarrow> taken_items taken reqs = reqs"
  by (simp add: taken_items_def case_prod_unfold)

lemma taken_items_subset: "set (taken_items taken reqs) \<subseteq> set reqs"
  by (auto simp: taken_items_def enumerate_eq_zip dest: set_zip_rightD)

lemma save_takes_all:
  assumes "takes_all bulk" "i_indexed i = i_submitted i" "batch_save_to_index bulk ts i = (i', r)"
  shows "i_indexed i' = i_submitted i'"
proof (cases "bulk (i_bulks i)")
  case (Ok taken)
  then have "taken_items taken reqs = reqs" for reqs :: "(string \<times> torrent) list"
    using assms(1) taken_items_all unfolding takes_all_def by blast
  with Ok assms(2,3) show ?thesis by (auto simp: batch_save_to_index_def Let_def)
qed (use assms(2,3) in \<open>auto simp: batch_save_to_index_def Let_def\<close>)

lemma deliver_takes_all:
  assumes "takes_all bulk" "i_indexed i = i_submitted i" "indexer_deliver bulk ackr d i = Ok i'"
  shows "i_indexed i' = i_submitted i'"
proof -
  obtain tag body where d: "d = (tag, body)" by fastforce
  have c: "i_indexed y = i_indexed x \<and> i_submitted y = i_submitted x" if "settle_call q c x = Ok y" for q c and x y :: "'a indexer"
    using that by (auto simp: settle_call_def split: outcome.splits)
  show ?thesis
  proof (cases body)
    case (Payload t)
    let ?i = "i\<lparr>i_batch := i_batch i @ [t]\<rparr>"
    obtain j r where j: "batch_save_to_index bulk (i_batch ?i) ?i = (j, r)" by fastforce
    have "i_indexed j = i_submitted j" by (rule save_takes_all [OF assms(1) _ j]) (simp add: assms(2))
    with assms(2,3) d Payload j c show ?thesis
      by (fastforce simp: indexer_deliver_def json_unmarshal_def Let_def obind_eq_Ok split: outcome.splits if_splits)
  qed (use assms(2,3) d c in \<open>fastforce simp: indexer_deliver_def json_unmarshal_def\<close>)
qed

lemma run_takes_all:
  assumes "takes_all bulk" "i_indexed i = i_submitted i" "indexer_run bulk ackr ds i = Ok i'"
  shows "i_indexed i' = i_submitted i'"
  using assms(2,3)
proof (induction ds arbitrary: i)
  case (Cons d ds)
  then show ?case using deliver_takes_all [OF assms(1) Cons.prems(1)] by (fastforce simp: obind_eq_Ok)
qed simp

text \<open>
  With an index and a broker that answer, the deliveries come through in order: what is indexed, followed by
  the batch, is the sequence of the torrents that were read.
\<close>

definition torrents_of :: "payload list \<Rightarrow> torrent list" where
  "torrents_of bodies = concat (map (\<lambda>b. case b of Payload t \<Rightarrow> [t] | Garbage \<Rightarrow> []) bodies)"

definition index_entry :: "torrent \<Rightarrow> string \<times> torrent" where
  "index_entry t = (t_info_hash t, set_search_updated t)"

abbreviation (input) "willing \<equiv> \<lambda>_ :: nat. Ok (\<lambda>_ :: nat. True)"

lemma deliver_willing:
  assumes "0 < i_batch_size i" "int (length (i_batch i)) < i_batch_size i"
  shows "\<exists>i' ts. indexer_deliver willing (Ok ()) (tag, b) i = Ok i' \<and> i_batch_size i' = i_batch_size i
     \<and> int (length (i_batch i')) < i_batch_size i
     \<and> int (length (i_batch i')) = (int (length (i_batch i)) + int (length (torrents_of [b]))) mod i_batch_size i
     \<and> concat (i_indexed i') = concat (i_indexed i) @ map index_entry ts \<and> ts @ i_batch i' = i_batch i @ torrents_of [b]"
proof (cases b)
  case Garbage
  then show ?thesis using assms
    by (simp add: indexer_deliver_def json_unmarshal_def settle_call_def torrents_of_def)
next
  case (Payload t)
  let ?b = "i_batch i @ [t]"
  have e: "(\<lambda>t. (t_info_hash t, t)) \<circ> set_search_updated = index_entry" "(t_info_hash (set_search_updated t), set_search_updated t) = index_entry t"
    by (auto simp: index_entry_def set_search_updated_def)
  show ?thesis
  proof (cases "int (length ?b) < i_batch_size i")
    case True
    with Payload show ?thesis
      by (simp add: indexer_deliver_def json_unmarshal_def torrents_of_def)
  next
    case False
    then have n: "int (length (i_batch i)) + 1 = i_batch_size i" using assms(2) by simp
    obtain i' where "indexer_deliver willing (Ok ()) (tag, b) i = Ok i'" "i_batch_size i' = i_batch_size i" "i_batch i' = []"
      "i_indexed i' = i_indexed i @ [map index_entry ?b]"
      using Payload False by (simp add: indexer_deliver_def json_unmarshal_def batch_save_to_index_def settle_call_def taken_items_all e Let_def)
    then show ?thesis using Payload assms(1) n by (intro exI [of _ i'] exI [of _ ?b]) (simp add: torrents_of_def)
  qed
qed

lemma torrents_of_Nil [simp]: "torrents_of [] = []"
  by (simp add: torrents_of_def)

lemma torrents_of_Cons: "torrents_of (b # bs) = torrents_of [b] @ torrents_of bs"
  by (simp add: torrents_of_def)

lemma run_willing:
  assumes "0 < i_batch_size i" "int (length (i_batch i)) < i_batch_size i"
  shows "\<exists>i' ts. indexer_run willing (\<lambda>_. Ok ()) ds i = Ok i'
     \<and> int (length (i_batch i')) = (int (length (i_batch i)) + int (length (torrents_of (map snd ds)))) mod i_batch_size i
     \<and> concat (i_indexed i') = concat (i_indexed i) @ map index_entry ts \<and> ts @ i_batch i' = i_batch i @ torrents_of (map snd ds)"
  using assms
proof (induction ds arbitrary: i)
  case (Cons d ds)
  obtain tag b where d: "d = (tag, b)" by fastforce
  obtain j us where j: "indexer_deliver willing (Ok ()) (tag, b) i = Ok j" "i_batch_size j = i_batch_size i"
    "int (length (i_batch j)) < i_batch_size i"
    "int (length (i_batch j)) = (int (length (i_batch i)) + int (length (torrents_of [b]))) mod i_batch_size i"
    "concat (i_indexed j) = concat (i_indexed i) @ map index_entry us" "us @ i_batch j = i_batch i @ torrents_of [b]"
    using deliver_willing [OF Cons.prems, of tag b] by blast
  obtain i' ts where i': "indexer_run willing (\<lambda>_. Ok ()) ds j = Ok i'"
    "int (length (i_batch i')) = (int (length (i_batch j)) + int (length (torrents_of (map snd ds)))) mod i_batch_size j"
    "concat (i_indexed i') = concat (i_indexed j) @ map index_entry ts" "ts @ i_batch i' = i_batch j @ torrents_of (map snd ds)"
    using Cons.IH [OF Cons.prems(1) [folded j(2)] j(3) [folded j(2)]] by blast
  have t: "torrents_of (map snd (d # ds)) = torrents_of [b] @ torrents_of (map snd ds)"
    unfolding d by (simp add: torrents_of_Cons [of b "map snd ds"])
  have "(us @ ts) @ i_batch i' = i_batch i @ torrents_of (map snd (d # ds))"
    unfolding t append_assoc i'(4) using j(6) by (metis append_assoc)
  moreover have "int (length (i_batch i')) = (int (length (i_batch i)) + int (length (torrents_of (map snd (d # ds))))) mod i_batch_size i"
    unfolding t i'(2) j(2,4) by (simp add: mod_simps add.assoc)
  ultimately show ?case using i'(1,3) j(1,5) d by (intro exI [of _ i'] exI [of _ "us @ ts"]) simp
qed simp

section \<open>Properties\<close>

text \<open>
  Property C10. No delivery is lost. If the index takes every item of a bulk request that it answers, then
  after any sequence of deliveries a delivery whose torrent can be read is in one of three states:
  acknowledged, and then its document is in the index; given back to the broker to be delivered again; or
  unsettled, and then its torrent waits in the batch. The batch holds exactly the unsettled torrents, fewer than the batch size, so that a broker
  that allows as many unsettled deliveries can always deliver the next one.
\<close>

theorem acknowledged_is_indexed:
  assumes "takes_all bulk" "new_indexer reply es uri n db [] = (calls, Ok i0)"
    and "indexer_run bulk ackr (numbered bodies) i0 = Ok i" "(k, Payload t) \<in> set (numbered bodies)"
  shows "(case settlement (i_settled i) k of
            None \<Rightarrow> t \<in> set (i_batch i)
          | Some s \<Rightarrow> is_nack s \<or> (t_info_hash t, set_search_updated t) \<in> set (concat (i_indexed i)))
     \<and> i_batch i = unsettled (i_settled i) (numbered bodies) \<and> int (length (i_batch i)) < max 1 (i_batch_size i)"
proof -
  have a: "accounted (numbered bodies) i" using assms(2,3) by (rule index_run_accounted)
  have x: "i_indexed i = i_submitted i"
    by (rule run_takes_all [OF assms(1) _ assms(3)]) (use new_indexer_Ok(2) [OF assms(2)] in \<open>simp add: indexer_ready_def\<close>)
  from a have "t \<in> set (i_batch i)" if "settlement (i_settled i) k = None"
    using that assms(4) by (force simp: accounted_def unsettled_def)
  with a assms(4) show ?thesis unfolding x by (auto simp: accounted_def split: option.splits)
qed

theorem acknowledged_is_indexed_witness:
  "let t = zero_torrent\<lparr>t_info_hash := ''61''\<rparr>; bodies = [Payload t, Garbage, Payload zero_torrent, Payload zero_torrent]
   in \<exists>calls i0 i. new_indexer (\<lambda>_ _. Ok ()) (Ok ()) ''amqp'' 2 () [] = (calls, Ok i0)
        \<and> indexer_run (\<lambda>_. Ok (\<lambda>_. True)) (\<lambda>_. Ok ()) (numbered bodies) i0 = Ok i
        \<and> settlement (i_settled i) 1 = Some (Ack 3 True) \<and> (''61'', set_search_updated t) \<in> set (concat (i_indexed i))
        \<and> int (length (i_batch i)) < max 1 (i_batch_size i)"
proof -
  let ?t = "zero_torrent\<lparr>t_info_hash := ''61''\<rparr>"
  let ?bodies = "[Payload ?t, Garbage, Payload zero_torrent, Payload zero_torrent]"
  obtain calls i0 where i0: "new_indexer (\<lambda>_ _. Ok ()) (Ok ()) ''amqp'' 2 () [] = (calls, Ok i0)"
    by (simp add: new_indexer_calls abind_def ask_def areturn_def indexer_calls_def)
  have "case obind (snd (new_indexer (\<lambda>_ _. Ok ()) (Ok ()) ''amqp'' 2 () [])) (indexer_run (\<lambda>_. Ok (\<lambda>_. True)) (\<lambda>_. Ok ()) (numbered ?bodies)) of
      Ok i \<Rightarrow> settlement (i_settled i) 1 = Some (Ack 3 True) | _ \<Rightarrow> False" by code_simp
  then obtain i where i: "indexer_run (\<lambda>_. Ok (\<lambda>_. True)) (\<lambda>_. Ok ()) (numbered ?bodies) i0 = Ok i"
    "settlement (i_settled i) 1 = Some (Ack 3 True)"
    using i0 by (auto split: outcome.splits)
  have m: "(1, Payload ?t) \<in> set (numbered ?bodies)" by (simp add: numbered_def upt_conv_Cons)
  from acknowledged_is_indexed [OF _ i0 i(1) m] i0 i show ?thesis by (auto simp: Let_def is_nack_def takes_all_def)
qed

text \<open>
  Property C20. The indexer is never starved by its own flow control: after any sequence of deliveries
  that the indexer survives, the deliveries it has not settled are fewer than the prefetch count its
  constructor asked for (or there is no limit), so that the broker may deliver the next one. The batch
  size is limited to what the prefetch count of the protocol can express.
\<close>

theorem indexer_never_starves:
  assumes "new_indexer reply es uri n db [] = (calls, Ok i0)" "n < 2 ^ 16"
    and "indexer_run bulk ackr (numbered bodies) i0 = Ok i"
  shows "broker_may_deliver calls (i_settled i) (length bodies)"
proof -
  note i0 = new_indexer_Ok [OF assms(1)]
  have a: "accounted (numbered bodies) i" using assms(1,3) by (rule index_run_accounted)
  have "i_batch_size i = n" using run_batch_size [OF assms(3)] i0(2) by (simp add: indexer_ready_def)
  then have "int (length (i_batch i)) < max 1 n" using accountedD(4) [OF a] by simp
  moreover have "prefetch calls = n" using assms(2) i0(1,3) by (simp add: indexer_calls_def prefetch_def)
  ultimately show ?thesis using outstanding_batch [OF a] i0(3) by (auto simp: broker_may_deliver_def)
qed

theorem indexer_never_starves_witness:
  "let bodies = [Payload zero_torrent, Garbage, Payload zero_torrent, Payload zero_torrent]
   in \<exists>calls i0 i. new_indexer (\<lambda>_ _. Ok ()) (Ok ()) ''amqp'' 2 () [] = (calls, Ok i0)
        \<and> indexer_run (\<lambda>_. Ok (\<lambda>_. True)) (\<lambda>_. Ok ()) (numbered bodies) i0 = Ok i
        \<and> outstanding (i_settled i) 4 = 1 \<and> broker_may_deliver calls (i_settled i) 4"
proof -
  let ?bodies = "[Payload zero_torrent, Garbage, Payload zero_torrent, Payload zero_torrent]"
  obtain calls i0 where i0: "new_indexer (\<lambda>_ _. Ok ()) (Ok ()) ''amqp'' 2 () [] = (calls, Ok i0)"
    by (simp add: new_indexer_calls abind_def ask_def areturn_def indexer_calls_def)
  have "case obind (snd (new_indexer (\<lambda>_ _. Ok ()) (Ok ()) ''amqp'' 2 () [])) (indexer_run (\<lambda>_. Ok (\<lambda>_. True)) (\<lambda>_. Ok ()) (numbered ?bodies)) of
      Ok i \<Rightarrow> outstanding (i_settled i) 4 = 1 | _ \<Rightarrow> False" by code_simp
  then obtain i where i: "indexer_run (\<lambda>_. Ok (\<lambda>_. True)) (\<lambda>_. Ok ()) (numbered ?bodies) i0 = Ok i" "outstanding (i_settled i) 4 = 1"
    using i0 by (auto split: outcome.splits)
  have "broker_may_deliver calls (i_settled i) (length ?bodies)" by (rule indexer_never_starves [OF i0 _ i(1)]) simp
  then have "broker_may_deliver calls (i_settled i) 4" by (simp add: eval_nat_numeral)
  with i0 i show ?thesis by (auto simp: Let_def)
qed

text \<open>
  An item that the index refuses is lost to the search. When a delivery completes a batch and
  the bulk request is answered, the whole batch is acknowledged and emptied, whatever the answer says of
  single items: a document the index refused is not in the index, its delivery will not come again, and
  it is marked as indexed with the others.
\<close>

lemma refused_item_acknowledged:
  assumes "i_batch_size i \<le> int (length (i_batch i)) + 1" "bulk (i_bulks i) = Ok taken" "ts = i_batch i @ [t]"
    and "x < length ts" "\<not> taken x" "distinct (map t_info_hash ts)"
    and "t_info_hash (ts ! x) \<notin> fst ` set (concat (i_indexed i))"
  shows "\<exists>i'. indexer_deliver bulk (Ok ()) (tag, Payload t) i = Ok i'
     \<and> i_settled i' = i_settled i @ [Ack tag True] \<and> i_batch i' = []
     \<and> t_info_hash (ts ! x) \<notin> fst ` set (concat (i_indexed i'))
     \<and> t_info_hash (ts ! x) \<in> set (last (i_flags i'))"
proof -
  let ?reqs = "map (\<lambda>t. (t_info_hash t, t)) (map set_search_updated ts)" and ?ids = "map t_info_hash (map set_search_updated ts)"
  have ids: "?ids = map t_info_hash ts" by (simp add: set_search_updated_def comp_def)
  obtain i' where i': "indexer_deliver bulk (Ok ()) (tag, Payload t) i = Ok i'" "i_settled i' = i_settled i @ [Ack tag True]" "i_batch i' = []"
    "i_indexed i' = i_indexed i @ [taken_items taken ?reqs]" "i_flags i' = i_flags i @ [?ids]"
    using assms(1-3) by (simp add: indexer_deliver_def json_unmarshal_def batch_save_to_index_def settle_call_def Let_def)
  have "t_info_hash (ts ! x) \<notin> fst ` set (taken_items taken ?reqs)"
  proof
    assume "t_info_hash (ts ! x) \<in> fst ` set (taken_items taken ?reqs)"
    then obtain j where j: "j < length ts" "taken j" "t_info_hash (ts ! x) = t_info_hash (ts ! j)"
      by (auto simp: taken_items_def enumerate_eq_zip set_zip set_search_updated_def)
    then have "x = j" using assms(4,6) by (simp add: distinct_conv_nth) metis
    with j(2) assms(5) show False by simp
  qed
  moreover have "t_info_hash (ts ! x) \<in> set ?ids" unfolding ids using assms(4) by auto
  ultimately show ?thesis using i' assms(7) by (intro exI [of _ i']) (auto simp del: set_concat)
qed

lemma refused_item_acknowledged_example:
  "let t = zero_torrent\<lparr>t_info_hash := ''61''\<rparr>; i = indexer_ready ''amqp'' 1 ()
   in \<exists>i'. indexer_deliver (\<lambda>_. Ok (\<lambda>_. False)) (Ok ()) (1, Payload t) i = Ok i'
     \<and> i_settled i' = [Ack 1 True] \<and> ''61'' \<notin> fst ` set (concat (i_indexed i'))"
  using refused_item_acknowledged [of "indexer_ready ''amqp'' 1 ()" "\<lambda>_. Ok (\<lambda>_. False)" "\<lambda>_. False"
      "[zero_torrent\<lparr>t_info_hash := ''61''\<rparr>]" "zero_torrent\<lparr>t_info_hash := ''61''\<rparr>" 0 1]
  by (auto simp: indexer_ready_def Let_def)

text \<open>
  Property C11. Torrents reach the index in full batches. If the index and the broker answer every request,
  the indexer gets through any sequence of deliveries; of the torrents it can read, the index then holds
  all up to the last full batch, in the order of the deliveries, and the others wait in the batch, fewer than the batch
  size. So a torrent is searchable as soon as a batch size of torrents has followed it, and not earlier
  than its batch is full: no timer flushes a batch.
\<close>

theorem indexed_in_batches:
  assumes "new_indexer reply es uri n db [] = (calls, Ok i0)" "0 < n" "m = length (torrents_of bodies)"
  shows "\<exists>i. indexer_run (\<lambda>_. Ok (\<lambda>_. True)) (\<lambda>_. Ok ()) (numbered bodies) i0 = Ok i
     \<and> concat (i_indexed i) = map index_entry (take (m - m mod nat n) (torrents_of bodies))
     \<and> i_batch i = drop (m - m mod nat n) (torrents_of bodies)"
proof -
  let ?ts = "torrents_of bodies" and ?k = "m - m mod nat n"
  note i0 = new_indexer_Ok [OF assms(1)]
  have b: "map snd (numbered bodies) = bodies" by (simp add: numbered_def)
  obtain i ts where i: "indexer_run willing (\<lambda>_. Ok ()) (numbered bodies) i0 = Ok i"
    "int (length (i_batch i)) = int m mod n" "concat (i_indexed i) = map index_entry ts" "ts @ i_batch i = ?ts"
    using run_willing [of i0 "numbered bodies"] i0(2) assms(2,3) unfolding b by (auto simp: indexer_ready_def)
  have len: "length (i_batch i) = m mod nat n"
    using i(2) assms(2) by (metis nat_int nat_mod_as_int zero_less_imp_eq_int)
  have "length ts + length (i_batch i) = m" using arg_cong [OF i(4), of length] assms(3) by simp
  then have k: "length ts = ?k" using len by simp
  have "ts = take ?k ?ts" "i_batch i = drop ?k ?ts" using arg_cong [OF i(4), of "take ?k"] arg_cong [OF i(4), of "drop ?k"] k by simp_all
  with i(1,3) show ?thesis by auto
qed

theorem indexed_in_batches_witness:
  "\<exists>calls i0 i. new_indexer (\<lambda>_ _. Ok ()) (Ok ()) ''amqp'' 2 () [] = (calls, Ok i0)
     \<and> indexer_run (\<lambda>_. Ok (\<lambda>_. True)) (\<lambda>_. Ok ()) (numbered [Payload zero_torrent, Garbage, Payload zero_torrent, Payload zero_torrent]) i0 = Ok i
     \<and> length (concat (i_indexed i)) = 2 \<and> i_batch i = [zero_torrent]"
proof -
  let ?bodies = "[Payload zero_torrent, Garbage, Payload zero_torrent, Payload zero_torrent]"
  obtain calls i0 where i0: "new_indexer (\<lambda>_ _. Ok ()) (Ok ()) ''amqp'' 2 () [] = (calls, Ok i0)"
    by (simp add: new_indexer_calls abind_def ask_def areturn_def indexer_calls_def)
  have t: "torrents_of ?bodies = [zero_torrent, zero_torrent, zero_torrent]" by (simp add: torrents_of_def)
  have m: "3 = length (torrents_of ?bodies)" by (simp add: t)
  from indexed_in_batches [OF i0 _ m] obtain i where
    "indexer_run (\<lambda>_. Ok (\<lambda>_. True)) (\<lambda>_. Ok ()) (numbered ?bodies) i0 = Ok i"
    "concat (i_indexed i) = map index_entry [zero_torrent, zero_torrent]" "i_batch i = [zero_torrent]"
    unfolding t by auto
  with i0 show ?thesis by (intro exI [of _ calls] exI [of _ i0] exI [of _ i]) simp
qed

end
