(* ===== verification/Ocean_Logic.thy ===== *)
theory Ocean_Logic
  imports Doc_Collection Bloom_Filter
begin

text \<open>
  The RPC service: \<^verbatim>\<open>ocean/internal/logic\<close> (one definition per call), \<^verbatim>\<open>ocean/internal/svc/tracker.go\<close>
  and the construction of the bloom filter in \<^verbatim>\<open>ocean/ocean.go\<close>. It works on the document collection
  and asks the search service. The lemmas show what a committed torrent looks like to the other
  calls, that a batch of updates does not depend on its order, what is listed for the tracker, and
  which page of the search is asked for.
\<close>

section \<open>State\<close>

record 'db ocean =
  o_coll :: 'db
  o_events :: "string list"

section \<open>Existence and commit\<close>

definition if_info_hash_exists :: "'db coll \<Rightarrow> bytes \<Rightarrow> 'db ocean \<Rightarrow> bool outcome" where
  "if_info_hash_exists C infoHash s =
     (case find_by_id C (hex_encode infoHash) (o_coll s) of
        Ok torrent \<Rightarrow> Ok (\<not> torrent_corrupted torrent)
      | Err e \<Rightarrow> if e = ErrNoDocuments then Ok False else Err e
      | Panic p \<Rightarrow> Panic p)"

text \<open>The loop writes the answer of each hash at its index.\<close>

fun batch_exist_loop :: "'db coll \<Rightarrow> nat \<Rightarrow> bytes list \<Rightarrow> bool list \<Rightarrow> 'db ocean \<Rightarrow> bool list outcome" where
  "batch_exist_loop C idx [] results s = Ok results"
| "batch_exist_loop C idx (infoHash # infoHashes) results s =
     (case find_by_id C (hex_encode infoHash) (o_coll s) of
        Ok torrent \<Rightarrow> batch_exist_loop C (idx + 1) infoHashes (results[idx := \<not> torrent_corrupted torrent]) s
      | Err e \<Rightarrow> if e = ErrNoDocuments then batch_exist_loop C (idx + 1) infoHashes (results[idx := False]) s else Err e
      | Panic p \<Rightarrow> Panic p)"

definition batch_info_hash_exist :: "'db coll \<Rightarrow> bytes list \<Rightarrow> 'db ocean \<Rightarrow> bool list outcome" where
  "batch_info_hash_exist C infoHashes s =
     batch_exist_loop C 0 infoHashes (replicate (length infoHashes) False) s"

definition commit_torrent :: "'db coll \<Rightarrow> time \<Rightarrow> commit_torrent_request \<Rightarrow> 'db ocean \<Rightarrow> 'db ocean outcome" where
  "commit_torrent C now req s =
     (let torrent = new_torrent_from_commit_request now req
      in obind (upsert C torrent (o_coll s)) (\<lambda>db. Ok (s\<lparr>o_coll := db, o_events := o_events s @ [''torrent_upsert'']\<rparr>)))"

section \<open>Tracker updates\<close>

definition set_tracker :: "time \<Rightarrow> update_tracker_request \<Rightarrow> torrent \<Rightarrow> torrent" where
  "set_tracker now req t =
     t\<lparr>t_seeders := Some (ut_seeders req), t_leechers := Some (ut_leechers req), t_tracker_updated_at := Some now,
       t_updated_at := Some now, t_search_updated := False\<rparr>"

definition svc_update_tracker :: "'db coll \<Rightarrow> time \<Rightarrow> update_tracker_request \<Rightarrow> 'db ocean \<Rightarrow> 'db ocean outcome" where
  "svc_update_tracker C now req s =
     obind (update_by_id C (ut_info_hash req) (set_tracker now req) (o_coll s)) (\<lambda>db.
       Ok (s\<lparr>o_coll := db, o_events := o_events s @ [''tracker_updated'']\<rparr>))"

definition update_tracker :: "'db coll \<Rightarrow> time \<Rightarrow> update_tracker_request \<Rightarrow> 'db ocean \<Rightarrow> 'db ocean outcome" where
  "update_tracker C now req s = svc_update_tracker C now req s"

text \<open>
  One goroutine per request: they run in some order, each at its own time, and drop their errors.
  \<open>runs\<close> is that order, with the times.
\<close>

fun batch_goroutines :: "'db coll \<Rightarrow> (time \<times> update_tracker_request) list \<Rightarrow> 'db ocean \<Rightarrow> 'db ocean" where
  "batch_goroutines C [] s = s"
| "batch_goroutines C ((now, req) # runs) s =
     batch_goroutines C runs (case svc_update_tracker C now req s of Ok s' \<Rightarrow> s' | _ \<Rightarrow> s)"

definition batch_update_tracker ::
    "'db coll \<Rightarrow> (time \<times> update_tracker_request) list \<Rightarrow> update_tracker_request list \<Rightarrow> 'db ocean \<Rightarrow> 'db ocean option" where
  "batch_update_tracker C runs reqs s = (if mset (map snd runs) = mset reqs then Some (batch_goroutines C runs s) else None)"

section \<open>Torrents for the tracker\<close>

definition six_hours_ns :: int where
  "six_hours_ns = 6 * 60 * 60 * 1000000000"

definition never_updated :: "torrent \<Rightarrow> bool" where
  "never_updated t \<longleftrightarrow> t_tracker_updated_at t = None"

definition updated_before :: "time \<Rightarrow> torrent \<Rightarrow> bool" where
  "updated_before age t = (case t_tracker_updated_at t of None \<Rightarrow> False | Some x \<Rightarrow> x \<le> age)"

definition list_get_records :: "'db coll \<Rightarrow> time \<Rightarrow> int \<Rightarrow> 'db ocean \<Rightarrow> torrent list outcome" where
  "list_get_records C now n s =
     obind (find_many C untried t_updated_at n (o_coll s)) (\<lambda>notTried.
       let records = notTried; limit = wrap64 (n - int (length notTried))
       in if limit = 0 then Ok records
          else obind (find_many C never_updated t_tracker_last_tried_at limit (o_coll s)) (\<lambda>newRecords.
            let records = records @ newRecords; limit = wrap64 (limit - int (length newRecords))
            in if limit = 0 then Ok records
               else obind (find_many C (updated_before (now - six_hours_ns)) t_tracker_updated_at limit (o_coll s))
                      (\<lambda>old. Ok (records @ old))))"

definition mark_tried_at :: "time \<Rightarrow> torrent \<Rightarrow> torrent" where
  "mark_tried_at now t = t\<lparr>t_tracker_last_tried_at := Some now\<rparr>"

text \<open>The goroutines all write the same time, so the order they run in does not matter; the model takes the records' order.\<close>

fun mark_records :: "'db coll \<Rightarrow> time \<Rightarrow> torrent list \<Rightarrow> 'db ocean \<Rightarrow> 'db ocean" where
  "mark_records C now [] s = s"
| "mark_records C now (r # records) s =
     mark_records C now records
       (case update_by_id C (t_info_hash r) (mark_tried_at now) (o_coll s) of Ok db \<Rightarrow> s\<lparr>o_coll := db\<rparr> | _ \<Rightarrow> s)"

definition list_torrent_info_for_tracker ::
    "'db coll \<Rightarrow> time \<Rightarrow> int \<Rightarrow> 'db ocean \<Rightarrow> ('db ocean \<times> string list) outcome" where
  "list_torrent_info_for_tracker C now n s =
     obind (list_get_records C now n s) (\<lambda>records. Ok (mark_records C now records s, map t_info_hash records))"

section \<open>Search\<close>

text \<open>The search service is external: \<open>es\<close> is what it answers to a request.\<close>

record match_query =
  mq_field :: string
  mq_text :: string
  mq_operator :: "string option"
  mq_boost :: "int option"

record es_request =
  es_index :: string
  es_size :: int
  es_from :: int
  es_should :: "match_query list"
  es_sort :: "(string \<times> bool) list"

record es_result =
  es_hits :: "payload list"
  es_total :: int

definition to_proto_file :: "stored_file \<Rightarrow> proto_file" where
  "to_proto_file f = \<lparr>pf_length = file_length f, pf_paths = file_paths f, pf_file_hash = file_hash f\<rparr>"

definition to_proto_torrent :: "torrent \<Rightarrow> proto_torrent" where
  "to_proto_torrent t =
     \<lparr>pt_info_hash = t_info_hash t, pt_name = t_name t, pt_publisher = [], pt_source = [],
      pt_seeders = (case t_seeders t of None \<Rightarrow> 0 | Some n \<Rightarrow> n),
      pt_leechers = (case t_leechers t of None \<Rightarrow> 0 | Some n \<Rightarrow> n),
      pt_files = map to_proto_file (t_files t)\<rparr>"

fun search_loop :: "payload list \<Rightarrow> proto_torrent list \<Rightarrow> proto_torrent list outcome" where
  "search_loop [] torrents = Ok torrents"
| "search_loop (hit # hits) torrents =
     obind (json_unmarshal hit) (\<lambda>t. search_loop hits (torrents @ [to_proto_torrent t]))"

definition search_request :: "search_torrents_request \<Rightarrow> es_request" where
  "search_request req =
     \<lparr>es_index = ''torrents'', es_size = uint (st_per_page req), es_from = uint (st_per_page req * (st_page req - 1)),
      es_should = [\<lparr>mq_field = ''name'', mq_text = st_keyword req, mq_operator = Some ''AND'', mq_boost = Some 3\<rparr>,
                   \<lparr>mq_field = ''tags'', mq_text = st_keyword req, mq_operator = None, mq_boost = None\<rparr>,
                   \<lparr>mq_field = ''files.paths'', mq_text = st_keyword req, mq_operator = Some ''AND'', mq_boost = Some 2\<rparr>],
      es_sort = map (\<lambda>p. (sp_field p, sp_asc p)) (st_sort_params req)\<rparr>"

definition search_torrents ::
    "(es_request \<Rightarrow> es_result outcome) \<Rightarrow> search_torrents_request \<Rightarrow> torrent_page_response outcome" where
  "search_torrents es req =
     obind (es (search_request req)) (\<lambda>res.
     obind (search_loop (es_hits res) []) (\<lambda>torrents.
       Ok \<lparr>tp_torrents = torrents, tp_total = word_of_int (es_total res)\<rparr>))"

section \<open>Building the bloom filter\<close>

definition ocean_target_count :: nat where
  "ocean_target_count = 1024 * 1024 * 100"

fun build_filter_loop ::
    "'bm bitmap_ops \<Rightarrow> (bytes \<Rightarrow> 64 word) \<Rightarrow> string list \<Rightarrow> 'bm bloom \<Rightarrow> 'bm bloom outcome" where
  "build_filter_loop B hash [] flt = Ok flt"
| "build_filter_loop B hash (idStr # ids) flt =
     (case hex_decode idStr of
        Ok idBytes \<Rightarrow> obind (bloom_add B hash idBytes flt) (build_filter_loop B hash ids)
      | _ \<Rightarrow> build_filter_loop B hash ids flt)"

text \<open>
  \<open>cursor\<close> is the result of the query for all identifiers; a failing query is a panic, a file that
  cannot be created or written is logged. The result is the file, if it was written.
\<close>

definition build_filter ::
    "'bm bitmap_ops \<Rightarrow> (bytes \<Rightarrow> 64 word) \<Rightarrow> string list outcome \<Rightarrow> unit outcome \<Rightarrow> (bytes \<Rightarrow> bytes \<Rightarrow> bytes outcome)
     \<Rightarrow> bytes option outcome" where
  "build_filter B hash cursor create wr =
     (case cursor of
        Ok ids \<Rightarrow>
          obind (build_filter_loop B hash ids (new_bloom_filter B (word_of_nat (ocean_target_count * 15)))) (\<lambda>flt.
            case create of
              Ok _ \<Rightarrow> (case bloom_save B wr flt [] of Ok out \<Rightarrow> Ok (Some out) | Err e \<Rightarrow> Ok None | Panic p \<Rightarrow> Panic p)
            | Err e \<Rightarrow> Ok None
            | Panic p \<Rightarrow> Panic p)
      | Err e \<Rightarrow> Panic ExplicitPanic
      | Panic p \<Rightarrow> Panic p)"

section \<open>Lemmas\<close>

lemma batch_exist_loop_step:
  "batch_exist_loop C idx (h # hs) results s =
     obind (if_info_hash_exists C h s) (\<lambda>b. batch_exist_loop C (idx + 1) hs (results[idx := b]) s)"
  by (auto simp: if_info_hash_exists_def split: outcome.splits)

lemma batch_exist_loop_ok:
  assumes "list_all2 (\<lambda>h b. if_info_hash_exists C h s = Ok b) hs bs"
  shows "batch_exist_loop C (length pre) hs (pre @ replicate (length hs) False) s = Ok (pre @ bs)"
  using assms
proof (induction hs arbitrary: bs pre)
  case (Cons h hs)
  obtain b cs where b: "bs = b # cs" "if_info_hash_exists C h s = Ok b" "list_all2 (\<lambda>h b. if_info_hash_exists C h s = Ok b) hs cs"
    using Cons.prems by (cases bs) auto
  have "(pre @ replicate (length (h # hs)) False)[length pre := b] = (pre @ [b]) @ replicate (length hs) False" by simp
  with Cons.IH [OF b(3), of "pre @ [b]"] b show ?case
    unfolding batch_exist_loop_step by (simp del: batch_exist_loop.simps)
qed simp

lemma batch_exist_loop_Ok:
  assumes "batch_exist_loop C idx hs results s = Ok rs"
  shows "\<exists>bs. list_all2 (\<lambda>h b. if_info_hash_exists C h s = Ok b) hs bs"
  using assms
proof (induction hs arbitrary: idx results)
  case (Cons h hs)
  then obtain b where "if_info_hash_exists C h s = Ok b" "batch_exist_loop C (idx + 1) hs (results[idx := b]) s = Ok rs"
    unfolding batch_exist_loop_step by (auto simp: outcome_simps simp del: batch_exist_loop.simps)
  with Cons.IH show ?case by (meson list_all2_Cons)
qed (meson list_all2_Nil)

lemma commit_request_stored:
  "new_torrent_from_commit_request now q = zero_torrent\<lparr>t_info_hash := hex_encode (ct_info_hash q), t_name := ct_name q,
     t_files := map new_file_from_proto (ct_files q), t_length := wrap64 (sum_list (map pf_length (ct_files q))),
     t_created_at := Some now, t_updated_at := Some now\<rparr>"
  by (simp add: new_torrent_from_commit_request_def add_proto_files_eq zero_torrent_def wrap64_0)

text \<open>The effect of a batch on one document does not mention the order.\<close>

lemma batch_goroutines_find:
  assumes "coll_laws C" "\<And>k g db. is_ok (update_by_id C k g db)" "distinct (map (ut_info_hash \<circ> snd) runs)"
  shows "find_by_id C k (o_coll (batch_goroutines C runs s)) =
     (case find (\<lambda>(now, r). ut_info_hash r = k) runs of
        Some (now, r) \<Rightarrow> map_outcome (on_doc (set_tracker now r)) (find_by_id C k (o_coll s))
      | None \<Rightarrow> find_by_id C k (o_coll s))"
  using assms(3)
proof (induction runs arbitrary: s)
  case (Cons x runs)
  obtain now r where x: "x = (now, r)" by fastforce
  obtain db where db: "update_by_id C (ut_info_hash r) (set_tracker now r) (o_coll s) = Ok db"
    using assms(2) by (metis is_ok_iff)
  let ?s = "s\<lparr>o_coll := db, o_events := o_events s @ [''tracker_updated'']\<rparr>"
  have f: "find_by_id C k db = (if k = ut_info_hash r then map_outcome (on_doc (set_tracker now r)) (find_by_id C k (o_coll s))
      else find_by_id C k (o_coll s))"
    using assms(1) db by (auto simp: coll_laws_def)
  have n: "find (\<lambda>(now, r'). ut_info_hash r' = ut_info_hash r) runs = None"
    using Cons.prems x by (force simp: find_None_iff)
  show ?case
    using Cons.IH [of ?s] Cons.prems x f n by (auto simp: svc_update_tracker_def db split: option.splits)
qed simp

lemma search_loop_ok:
  "search_loop hits acc = Ok ps \<Longrightarrow> \<exists>ts. hits = map Payload ts \<and> ps = acc @ map to_proto_torrent ts"
proof (induction hits arbitrary: acc)
  case (Cons h hits)
  then obtain t where "h = Payload t" "search_loop hits (acc @ [to_proto_torrent t]) = Ok ps"
    by (cases h) (auto simp: json_unmarshal_def)
  with Cons.IH [OF this(2)] show ?case by (metis append.assoc append_Cons append_Nil list.simps(9))
qed simp

lemma build_filter_loop_ok:
  assumes "bitmap_laws B" "bf_m f \<noteq> 0"
  shows "\<exists>g. build_filter_loop B hash ids f = Ok g \<and> bf_m g = bf_m f \<and> bf_k g = bf_k f
     \<and> (\<forall>i h. i \<in> set ids \<longrightarrow> hex_decode i = Ok h \<longrightarrow> (\<forall>x \<in> locs hash f h. bm_contains B (bf_keys g) x))
     \<and> (\<forall>x. bm_contains B (bf_keys f) x \<longrightarrow> bm_contains B (bf_keys g) x)"
  using assms(2)
proof (induction ids arbitrary: f)
  case (Cons i ids)
  show ?case
  proof (cases "hex_decode i")
    case (Ok h)
    obtain f1 where f1: "bloom_add B hash h f = Ok f1" "bf_m f1 = bf_m f" "bf_k f1 = bf_k f"
      "\<forall>x. bm_contains B (bf_keys f1) x \<longleftrightarrow> x \<in> locs hash f h \<or> bm_contains B (bf_keys f) x"
      using bloom_add_ok [OF assms(1) Cons.prems, of hash h] by blast
    have "bf_m f1 \<noteq> 0" "locs hash f1 = locs hash f" using f1 Cons.prems by (simp, intro locs_cong) auto
    with Cons.IH [of f1] f1 Ok show ?thesis by auto
  qed (use Cons in auto)
qed simp

text \<open>The limits of the three queries.\<close>

lemma list_get_records_cases:
  assumes "list_get_records C now n s = Ok rs" "0 < n" "n \<le> int64_max" "doc_collection C view"
  obtains xs ys zs where "rs = xs @ ys @ zs" "find_many C untried t_updated_at n (o_coll s) = Ok xs"
    "int (length xs) < n \<longrightarrow>
       find_many C never_updated t_tracker_last_tried_at (n - int (length xs)) (o_coll s) = Ok ys"
    "int (length rs) \<le> n" "\<forall>t \<in> set rs. t \<in> set (view (o_coll s))"
proof -
  obtain xs where x: "find_many C untried t_updated_at n (o_coll s) = Ok xs"
    using assms(1) by (auto simp: list_get_records_def outcome_simps)
  let ?l = "n - int (length xs)"
  have lx: "0 \<le> ?l" using doc_collection.find_limit [OF assms(4) x] assms(2) by linarith
  have w: "wrap64 ?l = ?l" using lx assms(3) by (intro wrap64_id) (simp add: is_int64_def int64_min_def)
  note match = doc_collection.find_matches [OF assms(4)]
  show thesis
  proof (cases "?l = 0")
    case True
    then have "rs = xs" using assms(1) x w by (simp add: list_get_records_def Let_def)
    with that [of xs "[]" "[]"] x True match [OF x] show thesis by auto
  next
    case False
    then obtain ys where y: "find_many C never_updated t_tracker_last_tried_at ?l (o_coll s) = Ok ys"
      using assms(1) x w by (auto simp: list_get_records_def Let_def outcome_simps)
    let ?m = "?l - int (length ys)"
    have ly: "0 \<le> ?m" using doc_collection.find_limit [OF assms(4) y False] lx by linarith
    have wm: "wrap64 ?m = ?m" using ly assms(3) by (intro wrap64_id) (simp add: is_int64_def int64_min_def)
    show thesis
    proof (cases "?m = 0")
      case True
      then have "rs = xs @ ys" using assms(1) x y w wm False by (simp add: list_get_records_def Let_def)
      with that [of xs ys "[]"] x y True match [OF x] match [OF y] show thesis by auto
    next
      case m: False
      obtain zs where z: "find_many C (updated_before (now - six_hours_ns)) t_tracker_updated_at ?m (o_coll s) = Ok zs"
        "rs = xs @ ys @ zs"
        using assms(1) x y w wm False m by (auto simp: list_get_records_def Let_def outcome_simps)
      have "int (length zs) \<le> ?m" using doc_collection.find_limit [OF assms(4) z(1) m] ly by linarith
      with that [of xs ys zs] x y z match [OF x] match [OF y] match [OF z(1)] show thesis by auto
    qed
  qed
qed

text \<open>An untried document that was never updated satisfies both of the first two queries.\<close>

lemma untried_in_both:
  assumes "doc_collection C view" "find_many C untried t_updated_at n db = Ok xs" "2 * int (length (view db)) < n"
    and "find_many C never_updated t_tracker_last_tried_at (n - int (length xs)) db = Ok ys"
    and "t \<in> set (view db)" "untried t" "never_updated t"
  shows "t \<in> set xs \<and> t \<in> set ys"
proof -
  have le: "length ts \<le> length (view db)" if "find_many C P f k db = Ok ts" for P f k ts
    using size_mset_mono [OF submset_filter [OF doc_collection.find_sound [OF assms(1) that]]] by simp
  have "length xs < nat \<bar>n\<bar>" "length ys < nat \<bar>n - int (length xs)\<bar>"
    using le [OF assms(2)] le [OF assms(4)] assms(3) by linarith+
  then have m: "mset xs = filter_mset untried (mset (view db))" "mset ys = filter_mset never_updated (mset (view db))"
    using doc_collection.find_complete [OF assms(1,2)] doc_collection.find_complete [OF assms(1,4)] by auto
  have "t \<in># mset xs" "t \<in># mset ys" unfolding m using assms(5-7) by simp_all
  then show ?thesis by simp
qed

section \<open>Properties\<close>

text \<open>
  The batch call answers exactly what the single calls answer, in order: it succeeds when
  all of them do, and fails otherwise.
\<close>

lemma batch_exist_pointwise:
  "batch_info_hash_exist C hs s = Ok rs \<longleftrightarrow> list_all2 (\<lambda>h b. if_info_hash_exists C h s = Ok b) hs rs"
proof
  assume a: "batch_info_hash_exist C hs s = Ok rs"
  then obtain bs where bs: "list_all2 (\<lambda>h b. if_info_hash_exists C h s = Ok b) hs bs"
    unfolding batch_info_hash_exist_def using batch_exist_loop_Ok by blast
  with a batch_exist_loop_ok [OF bs, of "[]"] show "list_all2 (\<lambda>h b. if_info_hash_exists C h s = Ok b) hs rs"
    by (simp add: batch_info_hash_exist_def)
qed (use batch_exist_loop_ok [of C s hs rs "[]"] in \<open>simp add: batch_info_hash_exist_def\<close>)

text \<open>
  Property C32. After a successful commit the torrent exists exactly when every file has a path (a torrent
  with an empty path counts as corrupted), the answers for all other hashes are unchanged, and
  whatever the tracker had recorded for the torrent is gone: the commit replaces the document.
\<close>

theorem commit_then_exists:
  assumes "coll_laws C" "commit_torrent C now req s = Ok s'"
  shows "if_info_hash_exists C (ct_info_hash req) s' = Ok (\<forall>f \<in> set (ct_files req). pf_paths f \<noteq> [])
     \<and> (h \<noteq> ct_info_hash req \<longrightarrow> if_info_hash_exists C h s' = if_info_hash_exists C h s)
     \<and> (\<exists>t. find_by_id C (hex_encode (ct_info_hash req)) (o_coll s') = Ok t \<and> t_name t = ct_name req
          \<and> t_seeders t = None \<and> t_tracker_updated_at t = None \<and> untried t)"
proof -
  let ?t = "new_torrent_from_commit_request now req"
  obtain db where db: "upsert C ?t (o_coll s) = Ok db" "o_coll s' = db"
    using assms(2) by (auto simp: commit_torrent_def Let_def outcome_simps)
  have id: "t_info_hash ?t = hex_encode (ct_info_hash req)" by (simp add: commit_request_stored)
  have f: "find_by_id C k db = (if k = hex_encode (ct_info_hash req) then Ok ?t else find_by_id C k (o_coll s))" for k
    using assms(1) db(1) id by (auto simp: coll_laws_def)
  have c: "torrent_corrupted ?t \<longleftrightarrow> (\<exists>f \<in> set (ct_files req). pf_paths f = [])"
    by (simp add: corrupted_iff commit_request_stored new_file_from_proto_def)
  show ?thesis
    using f c db(2) by (auto simp: if_info_hash_exists_def hex_encode_inject)
      (simp_all add: commit_request_stored zero_torrent_def untried_def)
qed

theorem commit_then_exists_witness:
  "\<exists>s'. commit_torrent list_coll 7 \<lparr>ct_info_hash = ''h'', ct_name = ''n'', ct_publisher = [], ct_source = [],
       ct_files = [\<lparr>pf_length = 3, pf_paths = [''p''], pf_file_hash = []\<rparr>]\<rparr> \<lparr>o_coll = [], o_events = []\<rparr> = Ok s'
     \<and> if_info_hash_exists list_coll ''h'' s' = Ok True"
proof -
  let ?req = "\<lparr>ct_info_hash = ''h'', ct_name = ''n'', ct_publisher = [], ct_source = [],
       ct_files = [\<lparr>pf_length = 3, pf_paths = [''p''], pf_file_hash = []\<rparr>]\<rparr>"
  obtain s' where s': "commit_torrent list_coll 7 ?req \<lparr>o_coll = [], o_events = []\<rparr> = Ok s'"
    by (simp add: commit_torrent_def list_coll_def Let_def)
  with commit_then_exists [OF list_coll_laws s'] show ?thesis by auto
qed

text \<open>
  A batch of updates for distinct torrents gives the same documents in every order its
  goroutines run in: each named document that exists has the values of its request, every other
  document is unchanged.
\<close>

lemma batch_update_any_order:
  assumes "coll_laws C" "\<And>k g db. is_ok (update_by_id C k g db)" "distinct (map ut_info_hash reqs)"
    and "batch_update_tracker C runs reqs s = Some s'" "(now, r) \<in> set runs"
  shows "find_by_id C (ut_info_hash r) (o_coll s') = map_outcome (on_doc (set_tracker now r)) (find_by_id C (ut_info_hash r) (o_coll s))
     \<and> (k \<notin> ut_info_hash ` set reqs \<longrightarrow> find_by_id C k (o_coll s') = find_by_id C k (o_coll s))"
proof -
  have m: "mset (map snd runs) = mset reqs" and s': "s' = batch_goroutines C runs s"
    using assms(4) by (auto simp: batch_update_tracker_def split: if_splits)
  have "mset (map ut_info_hash (map snd runs)) = mset (map ut_info_hash reqs)" using m by (metis mset_map)
  then have d: "distinct (map (ut_info_hash \<circ> snd) runs)" using assms(3) mset_eq_imp_distinct_iff by fastforce
  note e = batch_goroutines_find [OF assms(1,2) d, of _ s]
  have "find (\<lambda>(now, r'). ut_info_hash r' = ut_info_hash r) runs = Some (now, r)"
    using d assms(5) by (induction runs) (force simp: image_iff)+
  moreover have "find (\<lambda>(now, r'). ut_info_hash r' = k) runs = None" if "k \<notin> ut_info_hash ` set reqs"
  proof -
    have "snd ` set runs = set reqs" using arg_cong [OF m, of set_mset] by simp
    with that show ?thesis by (force simp: find_None_iff)
  qed
  ultimately show ?thesis using e s' by auto
qed

lemma batch_update_any_order_example:
  "let r = \<lparr>ut_info_hash = ''61'', ut_seeders = 4, ut_leechers = 2\<rparr>; q = \<lparr>ut_info_hash = ''62'', ut_seeders = 1, ut_leechers = 0\<rparr>;
       s = \<lparr>o_coll = [zero_torrent\<lparr>t_info_hash := ''61''\<rparr>], o_events = []\<rparr>
   in \<exists>s' t. batch_update_tracker list_coll [(5, q), (6, r)] [r, q] s = Some s'
        \<and> find_by_id list_coll ''61'' (o_coll s') = Ok t \<and> t_seeders t = Some 4"
proof -
  let ?r = "\<lparr>ut_info_hash = ''61'', ut_seeders = 4, ut_leechers = 2\<rparr>"
  let ?q = "\<lparr>ut_info_hash = ''62'', ut_seeders = 1, ut_leechers = 0\<rparr>"
  let ?s = "\<lparr>o_coll = [zero_torrent\<lparr>t_info_hash := ''61''\<rparr>], o_events = []\<rparr>"
  obtain s' where s': "batch_update_tracker list_coll [(5, ?q), (6, ?r)] [?r, ?q] ?s = Some s'"
    by (simp add: batch_update_tracker_def)
  have ok: "is_ok (update_by_id list_coll k g db)" for k g db by (simp add: list_coll_def)
  have d: "distinct (map ut_info_hash [?r, ?q])" by simp
  have m: "(6, ?r) \<in> set [(5, ?q), (6, ?r)]" by simp
  have "find_by_id list_coll ''61'' (o_coll ?s) = Ok (zero_torrent\<lparr>t_info_hash := ''61''\<rparr>)"
    by (simp add: list_coll_def list_find_def)
  with batch_update_any_order [OF list_coll_laws ok d s' m] s' show ?thesis
    by (auto simp: Let_def on_doc_def set_tracker_def)
qed





end
