(* ===== verification/Ocean_Server.thy ===== *)
theory Ocean_Server
  imports Ocean_Logic
begin

text \<open>
  The RPC service as one operation: \<^verbatim>\<open>ocean/internal/server/oceanserver.go\<close>, which hands each call to its
  logic, with the service context (\<^verbatim>\<open>ocean/internal/svc/servicecontext.go\<close>) and the statistics goroutine
  (\<^verbatim>\<open>ocean/internal/svc/stats.go\<close>). The lemmas show what any call does to the stored documents, and that a
  call that fails does nothing.
\<close>

section \<open>Requests and responses\<close>

datatype rpc_request =
    IfInfoHashExistsRequest bytes
  | BatchInfoHashExistRequest "bytes list"
  | CommitTorrentRequest commit_torrent_request
  | ListTorrentInfoForTrackerRequest int
  | UpdateTrackerRequest update_tracker_request
  | BatchUpdateTrackerRequest "update_tracker_request list"
  | SearchTorrentsRequest search_torrents_request

datatype rpc_response =
    IfInfoHashExistsResponse bool
  | BatchInfoHashExistResponse "bool list"
  | CommitTorrentResponse
  | ListTorrentInfoForTrackerResponse "string list"
  | UpdateTrackerResponse
  | BatchUpdateTrackerResponse
  | TorrentPageResponse torrent_page_response

text \<open>
  What a call depends on besides the state: the collection, the search service, the clock, and the
  order and times in which the goroutines of a batch run.
\<close>

record 'db rpc_env =
  re_coll :: "'db coll"
  re_es :: "es_request \<Rightarrow> es_result outcome"
  re_now :: time
  re_schedule :: "update_tracker_request list \<Rightarrow> (time \<times> update_tracker_request) list"

section \<open>The server\<close>

text \<open>A call that only reads, and a call that returns the changed state or an error.\<close>

definition read_call :: "rpc_response outcome \<Rightarrow> 'db ocean \<Rightarrow> 'db ocean \<times> rpc_response outcome" where
  "read_call r s = (s, r)"

definition write_call :: "('db ocean \<times> rpc_response) outcome \<Rightarrow> 'db ocean \<Rightarrow> 'db ocean \<times> rpc_response outcome" where
  "write_call r s = (case r of Ok (s', resp) \<Rightarrow> (s', Ok resp) | Err e \<Rightarrow> (s, Err e) | Panic p \<Rightarrow> (s, Panic p))"

text \<open>The logic waits for all goroutines of the batch and then answers; their errors are dropped.\<close>

definition batch_update_tracker_logic ::
    "'db rpc_env \<Rightarrow> update_tracker_request list \<Rightarrow> 'db ocean \<Rightarrow> 'db ocean \<times> rpc_response outcome" where
  "batch_update_tracker_logic env reqs s =
     (batch_goroutines (re_coll env) (re_schedule env reqs) s, Ok BatchUpdateTrackerResponse)"

fun serve :: "'db rpc_env \<Rightarrow> rpc_request \<Rightarrow> 'db ocean \<Rightarrow> 'db ocean \<times> rpc_response outcome" where
  "serve env (IfInfoHashExistsRequest h) s =
     read_call (map_outcome IfInfoHashExistsResponse (if_info_hash_exists (re_coll env) h s)) s"
| "serve env (BatchInfoHashExistRequest hs) s =
     read_call (map_outcome BatchInfoHashExistResponse (batch_info_hash_exist (re_coll env) hs s)) s"
| "serve env (CommitTorrentRequest r) s =
     write_call (map_outcome (\<lambda>s. (s, CommitTorrentResponse)) (commit_torrent (re_coll env) (re_now env) r s)) s"
| "serve env (ListTorrentInfoForTrackerRequest n) s =
     write_call (map_outcome (map_prod id ListTorrentInfoForTrackerResponse)
       (list_torrent_info_for_tracker (re_coll env) (re_now env) n s)) s"
| "serve env (UpdateTrackerRequest r) s =
     write_call (map_outcome (\<lambda>s. (s, UpdateTrackerResponse)) (update_tracker (re_coll env) (re_now env) r s)) s"
| "serve env (BatchUpdateTrackerRequest rs) s = batch_update_tracker_logic env rs s"
| "serve env (SearchTorrentsRequest r) s = read_call (map_outcome TorrentPageResponse (search_torrents (re_es env) r)) s"

text \<open>A run of the service: calls one after the other, each with its own surroundings.\<close>

fun serve_all :: "('db rpc_env \<times> rpc_request) list \<Rightarrow> 'db ocean \<Rightarrow> 'db ocean \<times> rpc_response outcome list" where
  "serve_all [] s = (s, [])"
| "serve_all ((env, req) # calls) s =
     (let (s, r) = serve env req s; (s, rs) = serve_all calls s in (s, r # rs))"

section \<open>Start\<close>

text \<open>\<open>mongo\<close> and \<open>es\<close> are what connecting to the database and to the search service returns; an error is a panic.\<close>

definition new_service_context :: "unit outcome \<Rightarrow> unit outcome \<Rightarrow> 'db \<Rightarrow> 'db ocean outcome" where
  "new_service_context mongo es db =
     (case mongo of
        Ok _ \<Rightarrow> (case es of
                  Ok _ \<Rightarrow> Ok \<lparr>o_coll = db, o_events = []\<rparr>
                | Err e \<Rightarrow> Panic ExplicitPanic
                | Panic p \<Rightarrow> Panic p)
      | Err e \<Rightarrow> Panic ExplicitPanic
      | Panic p \<Rightarrow> Panic p)"

record stats =
  s_interval :: int
  s_ticking :: bool
  s_cancelled :: bool
  s_gauges :: "(string \<times> int) list"

definition new_stats :: stats where
  "new_stats = \<lparr>s_interval = 30, s_ticking = True, s_cancelled = False, s_gauges = []\<rparr>"

text \<open>One round of \<^verbatim>\<open>Start\<close>: it ends when the context is cancelled, and counts when the ticker fires.\<close>

definition stats_tick :: "int outcome \<Rightarrow> stats \<Rightarrow> stats" where
  "stats_tick cnt s = (case cnt of Ok n \<Rightarrow> s\<lparr>s_gauges := s_gauges s @ [(''total'', n)]\<rparr> | _ \<Rightarrow> s)"

definition stats_round :: "int outcome \<Rightarrow> stats \<Rightarrow> stats option" where
  "stats_round cnt s =
     (if s_cancelled s then None else if s_ticking s then Some (stats_tick cnt s) else Some s)"

definition stats_stop :: "stats \<Rightarrow> stats" where
  "stats_stop s = s\<lparr>s_ticking := False, s_cancelled := True\<rparr>"

section \<open>Lemmas\<close>

text \<open>The identifiers a request may add, and the requests that only read.\<close>

fun committed_ids :: "rpc_request \<Rightarrow> string list" where
  "committed_ids (CommitTorrentRequest r) = [hex_encode (ct_info_hash r)]"
| "committed_ids _ = []"

definition committed_by :: "('db rpc_env \<times> rpc_request) list \<Rightarrow> rpc_response outcome list \<Rightarrow> string list" where
  "committed_by calls rs = concat (map (\<lambda>(c, r). if is_ok r then committed_ids (snd c) else []) (zip calls rs))"

fun read_only :: "rpc_request \<Rightarrow> bool" where
  "read_only (IfInfoHashExistsRequest _) = True"
| "read_only (BatchInfoHashExistRequest _) = True"
| "read_only (SearchTorrentsRequest _) = True"
| "read_only _ = False"

lemma write_call_failed: "write_call r s = (s', resp) \<Longrightarrow> \<not> is_ok resp \<Longrightarrow> s' = s"
  by (auto simp: write_call_def split: outcome.splits)

lemma serve_failed:
  assumes "serve env req s = (s', r)" "\<not> is_ok r"
  shows "s' = s"
  using assms by (cases req) (auto simp: read_call_def batch_update_tracker_logic_def dest: write_call_failed)

lemma serve_read_only: "read_only req \<Longrightarrow> fst (serve env req s) = s"
  by (cases req) (auto simp: read_call_def)

text \<open>A call that writes ends in its state, or where it began.\<close>

lemma write_call_cases:
  assumes "write_call r s = (s', resp)"
  obtains (finished) x where "r = Ok (s', x)" "resp = Ok x" | (failed) "s' = s" "\<not> is_ok resp"
  using assms by (cases r) (auto simp: write_call_def)

context doc_store
begin

lemma commit_ids:
  assumes "commit_torrent C now req s = Ok s'"
  shows "doc_ids view (o_coll s') \<subseteq> insert (hex_encode (ct_info_hash req)) (doc_ids view (o_coll s))"
  using assms upsert_ids by (fastforce simp: commit_torrent_def Let_def obind_eq_Ok commit_request_stored)

lemma svc_update_ids: "svc_update_tracker C now req s = Ok s' \<Longrightarrow> doc_ids view (o_coll s') \<subseteq> doc_ids view (o_coll s)"
  using update_by_id_ids by (fastforce simp: svc_update_tracker_def obind_eq_Ok)

lemma goroutines_ids: "doc_ids view (o_coll (batch_goroutines C runs s)) \<subseteq> doc_ids view (o_coll s)"
proof (induction runs arbitrary: s)
  case (Cons x runs)
  obtain now req where x: "x = (now, req)" by fastforce
  show ?case
  proof (cases "svc_update_tracker C now req s")
    case (Ok s')
    from Cons.IH [of s'] svc_update_ids [OF Ok] x Ok show ?thesis by auto
  qed (use Cons.IH [of s] x in simp_all)
qed simp

lemma mark_records_ids: "doc_ids view (o_coll (mark_records C now rs s)) \<subseteq> doc_ids view (o_coll s)"
proof (induction rs arbitrary: s)
  case (Cons r rs)
  show ?case
  proof (cases "update_by_id C (t_info_hash r) (mark_tried_at now) (o_coll s)")
    case (Ok db)
    from Cons.IH [of "s\<lparr>o_coll := db\<rparr>"] update_by_id_ids [OF Ok] Ok show ?thesis by auto
  qed (use Cons.IH [of s] in simp_all)
qed simp

lemma serve_ids:
  assumes "serve env req s = (s', r)" "re_coll env = C"
  shows "doc_ids view (o_coll s') \<subseteq> set (committed_ids req) \<union> doc_ids view (o_coll s)"
proof (cases req)
  case (CommitTorrentRequest q)
  with assms(1) show ?thesis
    by (auto elim!: write_call_cases simp: assms(2) map_outcome_eq_Ok dest!: commit_ids)
next
  case (ListTorrentInfoForTrackerRequest n)
  with assms(1) show ?thesis using mark_records_ids
    by (fastforce elim!: write_call_cases simp: assms(2) map_outcome_eq_Ok list_torrent_info_for_tracker_def obind_eq_Ok)
next
  case (UpdateTrackerRequest q)
  with assms(1) show ?thesis
    by (auto elim!: write_call_cases simp: assms(2) map_outcome_eq_Ok update_tracker_def dest!: svc_update_ids)
next
  case (BatchUpdateTrackerRequest qs)
  with assms(1) show ?thesis using goroutines_ids by (auto simp: assms(2) batch_update_tracker_logic_def)
qed (use assms(1) in \<open>auto simp: read_call_def\<close>)

lemma serve_success_ids:
  assumes "serve env req s = (s', r)" "re_coll env = C"
  shows "doc_ids view (o_coll s') \<subseteq> set (if is_ok r then committed_ids req else []) \<union> doc_ids view (o_coll s)"
  using serve_ids [OF assms] serve_failed [OF assms(1)] by (cases "is_ok r") auto

text \<open>Over a run of calls.\<close>

lemma serve_all_ids:
  assumes "serve_all calls s = (s', rs)" "\<forall>c \<in> set calls. re_coll (fst c) = C"
  shows "doc_ids view (o_coll s') \<subseteq> set (committed_by calls rs) \<union> doc_ids view (o_coll s)"
  using assms
proof (induction calls arbitrary: s rs)
  case (Cons c calls)
  obtain env req where c: "c = (env, req)" by fastforce
  obtain s1 r where 1: "serve env req s = (s1, r)" by fastforce
  obtain rs' where 2: "serve_all calls s1 = (s', rs')" "rs = r # rs'" using Cons.prems(1) c 1 by (auto split: prod.splits)
  have "re_coll env = C" using Cons.prems(2) c by simp
  from Cons.IH [OF 2(1)] serve_success_ids [OF 1 this] Cons.prems(2) c 2(2) show ?case by (auto simp: committed_by_def)
qed simp

end

lemma serve_all_unchanged:
  assumes "serve_all calls s = (s', rs)"
  shows "length rs = length calls \<and> (list_all2 (\<lambda>c r. read_only (snd c) \<or> \<not> is_ok r) calls rs \<longrightarrow> s' = s)"
  using assms
proof (induction calls arbitrary: s rs)
  case (Cons c calls)
  obtain env req where c: "c = (env, req)" by fastforce
  obtain s1 r where 1: "serve env req s = (s1, r)" by fastforce
  obtain rs' where 2: "serve_all calls s1 = (s', rs')" "rs = r # rs'" using Cons.prems(1) c 1 by (auto split: prod.splits)
  have "read_only req \<or> \<not> is_ok r \<Longrightarrow> s1 = s" using serve_failed [OF 1] serve_read_only [of req env s] 1 by auto
  with Cons.IH [OF 2(1)] c 2(2) show ?case by auto
qed simp

section \<open>Properties\<close>



end
