(* ===== verification/Ocean_Wire.thy ===== *)
theory Ocean_Wire
  imports Ocean_Server Proto_Wire
begin

text \<open>
  The messages of the RPC service on the wire: the field numbers and kinds with which the structs of
  \<^verbatim>\<open>ocean/ocean/ocean.pb.go\<close> are tagged, over the wire format of \<open>Proto_Wire\<close>. Every message is an instance of
  the contract \<open>proto_message\<close>, and the lemmas show that requests and responses that can be written are read back.
\<close>

section \<open>Methods and messages\<close>

text \<open>
  A method has a request type and a response type of its own, so the method also stands for the types
  that \<^verbatim>\<open>new(...)\<close> and the type assertions name.
\<close>

datatype rpc_method =
    IfInfoHashExists | BatchInfoHashExist | CommitTorrent | ListTorrentInfoForTracker
  | UpdateTracker | BatchUpdateTracker | SearchTorrents

fun request_type :: "rpc_request \<Rightarrow> rpc_method" where
  "request_type (IfInfoHashExistsRequest _) = IfInfoHashExists"
| "request_type (BatchInfoHashExistRequest _) = BatchInfoHashExist"
| "request_type (CommitTorrentRequest _) = CommitTorrent"
| "request_type (ListTorrentInfoForTrackerRequest _) = ListTorrentInfoForTracker"
| "request_type (UpdateTrackerRequest _) = UpdateTracker"
| "request_type (BatchUpdateTrackerRequest _) = BatchUpdateTracker"
| "request_type (SearchTorrentsRequest _) = SearchTorrents"

fun response_type :: "rpc_response \<Rightarrow> rpc_method" where
  "response_type (IfInfoHashExistsResponse _) = IfInfoHashExists"
| "response_type (BatchInfoHashExistResponse _) = BatchInfoHashExist"
| "response_type CommitTorrentResponse = CommitTorrent"
| "response_type (ListTorrentInfoForTrackerResponse _) = ListTorrentInfoForTracker"
| "response_type UpdateTrackerResponse = UpdateTracker"
| "response_type BatchUpdateTrackerResponse = BatchUpdateTracker"
| "response_type (TorrentPageResponse _) = SearchTorrents"

section \<open>Files\<close>

text \<open>Strings are UTF-8: the fields of type \<^verbatim>\<open>string\<close> are checked by the reader, those of type \<^verbatim>\<open>bytes\<close> are not.\<close>

definition texts :: "nat list \<Rightarrow> proto_field list \<Rightarrow> 'a outcome \<Rightarrow> 'a outcome" where
  "texts ns fs r =
     (if list_all (\<lambda>n. list_all valid_utf8 (lens n fs)) ns then r else Err (Errorf ''string field contains invalid UTF-8''))"

definition proto_file_fields :: "proto_file \<Rightarrow> proto_field list" where
  "proto_file_fields f =
     varint_field 1 (int64_varint (pf_length f)) @ len_fields 2 (pf_paths f) @ len_field 3 (pf_file_hash f)"

definition proto_file_ok :: "proto_file \<Rightarrow> bool" where
  "proto_file_ok f \<longleftrightarrow> is_int64 (pf_length f) \<and> list_all valid_utf8 (pf_paths f)"

definition read_proto_file :: "proto_field list \<Rightarrow> proto_file outcome" where
  "read_proto_file fs = texts [2] fs
     (Ok \<lparr>pf_length = varint_int64 (last_varint 1 fs), pf_paths = lens 2 fs, pf_file_hash = last_len 3 fs\<rparr>)"

lemmas number_simps = int64_varint_less [simplified] uint32_varint_less [simplified] int64_roundtrip

lemma bool_simps: "bool_varint b < 18446744073709551616" "0 < bool_varint b \<longleftrightarrow> b"
  by (simp_all add: bool_varint_def)

interpretation file_msg: proto_message proto_file_fields proto_file_ok read_proto_file
  by unfold_locales
    (simp_all add: proto_file_fields_def proto_file_ok_def read_proto_file_def texts_def field_simps number_simps)

section \<open>Requests\<close>

definition exists_request_fields :: "bytes \<Rightarrow> proto_field list" where
  "exists_request_fields h = len_field 1 h"

definition read_exists_request :: "proto_field list \<Rightarrow> bytes outcome" where
  "read_exists_request fs = Ok (last_len 1 fs)"

interpretation exists_req: proto_message exists_request_fields "\<lambda>_. True" read_exists_request
  by unfold_locales (simp_all add: exists_request_fields_def read_exists_request_def field_simps)

definition batch_exist_request_fields :: "bytes list \<Rightarrow> proto_field list" where
  "batch_exist_request_fields hs = len_fields 1 hs"

definition read_batch_exist_request :: "proto_field list \<Rightarrow> bytes list outcome" where
  "read_batch_exist_request fs = Ok (lens 1 fs)"

interpretation batch_exist_req: proto_message batch_exist_request_fields "\<lambda>_. True" read_batch_exist_request
  by unfold_locales (simp_all add: batch_exist_request_fields_def read_batch_exist_request_def field_simps)

definition commit_request_fields :: "commit_torrent_request \<Rightarrow> proto_field list" where
  "commit_request_fields r =
     len_field 1 (ct_info_hash r) @ len_field 2 (ct_name r) @ len_field 3 (ct_publisher r) @ len_field 4 (ct_source r)
     @ len_fields 5 (map (\<lambda>f. put_fields (proto_file_fields f)) (ct_files r))"

definition commit_request_ok :: "commit_torrent_request \<Rightarrow> bool" where
  "commit_request_ok r \<longleftrightarrow> valid_utf8 (ct_name r) \<and> valid_utf8 (ct_publisher r) \<and> valid_utf8 (ct_source r) \<and> list_all proto_file_ok (ct_files r)"

definition read_commit_request :: "proto_field list \<Rightarrow> commit_torrent_request outcome" where
  "read_commit_request fs = texts [2, 3, 4] fs
     (obind (traverse (unmarshal read_proto_file) (lens 5 fs)) (\<lambda>files.
        Ok \<lparr>ct_info_hash = last_len 1 fs, ct_name = last_len 2 fs, ct_publisher = last_len 3 fs, ct_source = last_len 4 fs, ct_files = files\<rparr>))"

interpretation commit_req: proto_message commit_request_fields commit_request_ok read_commit_request
  by unfold_locales
    (simp_all add: commit_request_fields_def commit_request_ok_def read_commit_request_def texts_def field_simps file_msg.embedded)

definition list_request_fields :: "int \<Rightarrow> proto_field list" where
  "list_request_fields n = varint_field 1 (int64_varint n)"

definition read_list_request :: "proto_field list \<Rightarrow> int outcome" where
  "read_list_request fs = Ok (varint_int64 (last_varint 1 fs))"

interpretation list_req: proto_message list_request_fields is_int64 read_list_request
  by unfold_locales (simp_all add: list_request_fields_def read_list_request_def field_simps number_simps)

definition update_request_fields :: "update_tracker_request \<Rightarrow> proto_field list" where
  "update_request_fields r =
     len_field 1 (ut_info_hash r) @ varint_field 2 (uint32_varint (ut_seeders r)) @ varint_field 3 (uint32_varint (ut_leechers r))"

definition update_request_ok :: "update_tracker_request \<Rightarrow> bool" where
  "update_request_ok r \<longleftrightarrow> valid_utf8 (ut_info_hash r)"

definition read_update_request :: "proto_field list \<Rightarrow> update_tracker_request outcome" where
  "read_update_request fs = texts [1] fs
     (Ok \<lparr>ut_info_hash = last_len 1 fs, ut_seeders = varint_uint32 (last_varint 2 fs), ut_leechers = varint_uint32 (last_varint 3 fs)\<rparr>)"

interpretation update_req: proto_message update_request_fields update_request_ok read_update_request
  by unfold_locales
    (simp_all add: update_request_fields_def update_request_ok_def read_update_request_def texts_def field_simps number_simps)

definition batch_update_request_fields :: "update_tracker_request list \<Rightarrow> proto_field list" where
  "batch_update_request_fields rs = len_fields 1 (map (\<lambda>r. put_fields (update_request_fields r)) rs)"

definition read_batch_update_request :: "proto_field list \<Rightarrow> update_tracker_request list outcome" where
  "read_batch_update_request fs = traverse (unmarshal read_update_request) (lens 1 fs)"

interpretation batch_update_req: proto_message batch_update_request_fields "list_all update_request_ok" read_batch_update_request
  by unfold_locales
    (simp_all add: batch_update_request_fields_def read_batch_update_request_def field_simps update_req.embedded)

definition sort_params_fields :: "sort_params \<Rightarrow> proto_field list" where
  "sort_params_fields p = len_field 1 (sp_field p) @ varint_field 2 (bool_varint (sp_asc p))"

definition sort_params_ok :: "sort_params \<Rightarrow> bool" where
  "sort_params_ok p \<longleftrightarrow> valid_utf8 (sp_field p)"

definition read_sort_params :: "proto_field list \<Rightarrow> sort_params outcome" where
  "read_sort_params fs = texts [1] fs (Ok \<lparr>sp_field = last_len 1 fs, sp_asc = (last_varint 2 fs \<noteq> 0)\<rparr>)"

interpretation sort_msg: proto_message sort_params_fields sort_params_ok read_sort_params
  by unfold_locales
    (simp_all add: sort_params_fields_def sort_params_ok_def read_sort_params_def texts_def field_simps bool_simps)

definition search_request_fields :: "search_torrents_request \<Rightarrow> proto_field list" where
  "search_request_fields r =
     len_field 1 (st_keyword r) @ varint_field 2 (uint32_varint (st_per_page r)) @ varint_field 3 (uint32_varint (st_page r))
     @ len_fields 4 (map (\<lambda>p. put_fields (sort_params_fields p)) (st_sort_params r))"

definition search_request_ok :: "search_torrents_request \<Rightarrow> bool" where
  "search_request_ok r \<longleftrightarrow> valid_utf8 (st_keyword r) \<and> list_all sort_params_ok (st_sort_params r)"

definition read_search_request :: "proto_field list \<Rightarrow> search_torrents_request outcome" where
  "read_search_request fs = texts [1] fs
     (obind (traverse (unmarshal read_sort_params) (lens 4 fs)) (\<lambda>ps.
        Ok \<lparr>st_keyword = last_len 1 fs, st_per_page = varint_uint32 (last_varint 2 fs), st_page = varint_uint32 (last_varint 3 fs),
            st_sort_params = ps\<rparr>))"

interpretation search_req: proto_message search_request_fields search_request_ok read_search_request
  by unfold_locales
    (simp_all add: search_request_fields_def search_request_ok_def read_search_request_def texts_def field_simps number_simps sort_msg.embedded)

section \<open>Responses\<close>

definition exists_response_fields :: "bool \<Rightarrow> proto_field list" where
  "exists_response_fields b = varint_field 1 (bool_varint b)"

definition read_exists_response :: "proto_field list \<Rightarrow> bool outcome" where
  "read_exists_response fs = Ok (last_varint 1 fs \<noteq> 0)"

interpretation exists_resp: proto_message exists_response_fields "\<lambda>_. True" read_exists_response
  by unfold_locales (simp_all add: exists_response_fields_def read_exists_response_def field_simps bool_simps)

text \<open>The results are written packed; a reader also takes them one by one.\<close>

definition batch_exist_response_fields :: "bool list \<Rightarrow> proto_field list" where
  "batch_exist_response_fields bs = len_field 1 (put_packed (map bool_varint bs))"

fun packed_values :: "nat \<Rightarrow> proto_field \<Rightarrow> nat list outcome" where
  "packed_values n (m, Varint v) = Ok (if m = n then [v] else [])"
| "packed_values n (m, Len b) = (if m = n then read_packed b else Ok [])"
| "packed_values n (m, _) = Ok []"

definition read_batch_exist_response :: "proto_field list \<Rightarrow> bool list outcome" where
  "read_batch_exist_response fs = obind (traverse (packed_values 1) fs) (\<lambda>vss. Ok (map (\<lambda>v. v \<noteq> 0) (concat vss)))"

lemma put_packed_Nil: "put_packed vs = [] \<longleftrightarrow> vs = []"
  by (cases vs) (simp_all add: put_packed_def)

lemma bools_read: "read_packed (put_packed (map bool_varint bs)) = Ok (map bool_varint bs)"
  by (rule read_put_packed) (simp add: list_all_iff bool_simps)

interpretation batch_exist_resp: proto_message batch_exist_response_fields "\<lambda>_. True" read_batch_exist_response
  by unfold_locales
    (simp_all add: batch_exist_response_fields_def read_batch_exist_response_def len_field_def part_ok_def put_packed_Nil bools_read
      bool_simps comp_def)

definition empty_fields :: "unit \<Rightarrow> proto_field list" where
  "empty_fields u = []"

definition read_empty :: "proto_field list \<Rightarrow> unit outcome" where
  "read_empty fs = Ok ()"

interpretation empty_msg: proto_message empty_fields "\<lambda>_. True" read_empty
  by unfold_locales (simp_all add: empty_fields_def read_empty_def)

definition list_response_fields :: "string list \<Rightarrow> proto_field list" where
  "list_response_fields hs = len_fields 1 hs"

definition read_list_response :: "proto_field list \<Rightarrow> string list outcome" where
  "read_list_response fs = texts [1] fs (Ok (lens 1 fs))"

interpretation list_resp: proto_message list_response_fields "list_all valid_utf8" read_list_response
  by unfold_locales (simp_all add: list_response_fields_def read_list_response_def texts_def field_simps)

definition proto_torrent_fields :: "proto_torrent \<Rightarrow> proto_field list" where
  "proto_torrent_fields t =
     len_field 1 (pt_info_hash t) @ len_field 2 (pt_name t) @ len_field 3 (pt_publisher t) @ len_field 4 (pt_source t)
     @ varint_field 5 (uint32_varint (pt_seeders t)) @ varint_field 6 (uint32_varint (pt_leechers t))
     @ len_fields 7 (map (\<lambda>f. put_fields (proto_file_fields f)) (pt_files t))"

definition proto_torrent_ok :: "proto_torrent \<Rightarrow> bool" where
  "proto_torrent_ok t \<longleftrightarrow> valid_utf8 (pt_info_hash t) \<and> valid_utf8 (pt_name t) \<and> valid_utf8 (pt_publisher t) \<and> valid_utf8 (pt_source t)
     \<and> list_all proto_file_ok (pt_files t)"

definition read_proto_torrent :: "proto_field list \<Rightarrow> proto_torrent outcome" where
  "read_proto_torrent fs = texts [1, 2, 3, 4] fs
     (obind (traverse (unmarshal read_proto_file) (lens 7 fs)) (\<lambda>files.
        Ok \<lparr>pt_info_hash = last_len 1 fs, pt_name = last_len 2 fs, pt_publisher = last_len 3 fs, pt_source = last_len 4 fs,
            pt_seeders = varint_uint32 (last_varint 5 fs), pt_leechers = varint_uint32 (last_varint 6 fs), pt_files = files\<rparr>))"

interpretation torrent_msg: proto_message proto_torrent_fields proto_torrent_ok read_proto_torrent
  by unfold_locales
    (simp_all add: proto_torrent_fields_def proto_torrent_ok_def read_proto_torrent_def texts_def field_simps number_simps file_msg.embedded)

definition page_response_fields :: "torrent_page_response \<Rightarrow> proto_field list" where
  "page_response_fields r =
     len_fields 1 (map (\<lambda>t. put_fields (proto_torrent_fields t)) (tp_torrents r)) @ varint_field 2 (uint32_varint (tp_total r))"

definition page_response_ok :: "torrent_page_response \<Rightarrow> bool" where
  "page_response_ok r \<longleftrightarrow> list_all proto_torrent_ok (tp_torrents r)"

definition read_page_response :: "proto_field list \<Rightarrow> torrent_page_response outcome" where
  "read_page_response fs =
     obind (traverse (unmarshal read_proto_torrent) (lens 1 fs)) (\<lambda>ts. Ok \<lparr>tp_torrents = ts, tp_total = varint_uint32 (last_varint 2 fs)\<rparr>)"

interpretation page_resp: proto_message page_response_fields page_response_ok read_page_response
  by unfold_locales
    (simp_all add: page_response_fields_def page_response_ok_def read_page_response_def field_simps number_simps torrent_msg.embedded)

section \<open>The codec of the connection\<close>

fun write_request :: "rpc_request \<Rightarrow> bytes outcome" where
  "write_request (IfInfoHashExistsRequest h) = marshal exists_request_fields (\<lambda>_. True) h"
| "write_request (BatchInfoHashExistRequest hs) = marshal batch_exist_request_fields (\<lambda>_. True) hs"
| "write_request (CommitTorrentRequest r) = marshal commit_request_fields commit_request_ok r"
| "write_request (ListTorrentInfoForTrackerRequest n) = marshal list_request_fields is_int64 n"
| "write_request (UpdateTrackerRequest r) = marshal update_request_fields update_request_ok r"
| "write_request (BatchUpdateTrackerRequest rs) = marshal batch_update_request_fields (list_all update_request_ok) rs"
| "write_request (SearchTorrentsRequest r) = marshal search_request_fields search_request_ok r"

fun read_request :: "rpc_method \<Rightarrow> bytes \<Rightarrow> rpc_request outcome" where
  "read_request IfInfoHashExists w = map_outcome IfInfoHashExistsRequest (unmarshal read_exists_request w)"
| "read_request BatchInfoHashExist w = map_outcome BatchInfoHashExistRequest (unmarshal read_batch_exist_request w)"
| "read_request CommitTorrent w = map_outcome CommitTorrentRequest (unmarshal read_commit_request w)"
| "read_request ListTorrentInfoForTracker w = map_outcome ListTorrentInfoForTrackerRequest (unmarshal read_list_request w)"
| "read_request UpdateTracker w = map_outcome UpdateTrackerRequest (unmarshal read_update_request w)"
| "read_request BatchUpdateTracker w = map_outcome BatchUpdateTrackerRequest (unmarshal read_batch_update_request w)"
| "read_request SearchTorrents w = map_outcome SearchTorrentsRequest (unmarshal read_search_request w)"

fun write_response :: "rpc_response \<Rightarrow> bytes outcome" where
  "write_response (IfInfoHashExistsResponse b) = marshal exists_response_fields (\<lambda>_. True) b"
| "write_response (BatchInfoHashExistResponse bs) = marshal batch_exist_response_fields (\<lambda>_. True) bs"
| "write_response CommitTorrentResponse = marshal empty_fields (\<lambda>_. True) ()"
| "write_response (ListTorrentInfoForTrackerResponse hs) = marshal list_response_fields (list_all valid_utf8) hs"
| "write_response UpdateTrackerResponse = marshal empty_fields (\<lambda>_. True) ()"
| "write_response BatchUpdateTrackerResponse = marshal empty_fields (\<lambda>_. True) ()"
| "write_response (TorrentPageResponse r) = marshal page_response_fields page_response_ok r"

fun read_response :: "rpc_method \<Rightarrow> bytes \<Rightarrow> rpc_response outcome" where
  "read_response IfInfoHashExists w = map_outcome IfInfoHashExistsResponse (unmarshal read_exists_response w)"
| "read_response BatchInfoHashExist w = map_outcome BatchInfoHashExistResponse (unmarshal read_batch_exist_response w)"
| "read_response CommitTorrent w = map_outcome (\<lambda>_. CommitTorrentResponse) (unmarshal read_empty w)"
| "read_response ListTorrentInfoForTracker w = map_outcome ListTorrentInfoForTrackerResponse (unmarshal read_list_response w)"
| "read_response UpdateTracker w = map_outcome (\<lambda>_. UpdateTrackerResponse) (unmarshal read_empty w)"
| "read_response BatchUpdateTracker w = map_outcome (\<lambda>_. BatchUpdateTrackerResponse) (unmarshal read_empty w)"
| "read_response SearchTorrents w = map_outcome TorrentPageResponse (unmarshal read_page_response w)"

lemma read_write_request: "write_request req = Ok w \<Longrightarrow> read_request (request_type req) w = Ok req"
  by (cases req) (simp_all add: exists_req.roundtrip batch_exist_req.roundtrip commit_req.roundtrip list_req.roundtrip
      update_req.roundtrip batch_update_req.roundtrip search_req.roundtrip)

lemma read_write_response: "write_response resp = Ok w \<Longrightarrow> read_response (response_type resp) w = Ok resp"
  by (cases resp) (simp_all add: exists_resp.roundtrip batch_exist_resp.roundtrip empty_msg.roundtrip list_resp.roundtrip
      page_resp.roundtrip)

lemma read_response_typed: "read_response m w = Ok resp \<Longrightarrow> response_type resp = m"
  by (cases m) (auto simp: map_outcome_eq_Ok)

section \<open>Properties\<close>



end
