(* ===== verification/Ocean_Client.thy ===== *)
theory Ocean_Client
  imports Ocean_Wire
begin

text \<open>
  The two ends of an RPC call: the client (\<^verbatim>\<open>ocean/oceanclient/ocean.go\<close> on top of the generated client of
  \<^verbatim>\<open>ocean/ocean/ocean_grpc.pb.go\<close>) and the handlers and the descriptor with which the server is registered.
  What lies between them, the gRPC connection with its codec and the interceptors of the server, is the
  locale \<open>grpc_connection\<close>. The lemmas show that whatever the connection loses, the server has executed
  some of the calls, in their order, and every answer the client accepts is the answer of its own call.
\<close>

section \<open>The client\<close>

text \<open>
  \<^verbatim>\<open>Invoke\<close> of the connection takes the path of the method, the request and the type of the response, and
  returns the response or an error; its effect on the server's state is explicit.
\<close>

type_synonym 's invoke = "string \<Rightarrow> rpc_request \<Rightarrow> rpc_method \<Rightarrow> 's \<Rightarrow> 's \<times> rpc_response outcome"

text \<open>The methods of \<^verbatim>\<open>oceanClient\<close>: each has its path as a literal.\<close>

fun client_path :: "rpc_method \<Rightarrow> string" where
  "client_path IfInfoHashExists = ''/ocean.Ocean/IfInfoHashExists''"
| "client_path BatchInfoHashExist = ''/ocean.Ocean/BatchInfoHashExist''"
| "client_path CommitTorrent = ''/ocean.Ocean/CommitTorrent''"
| "client_path ListTorrentInfoForTracker = ''/ocean.Ocean/ListTorrentInfoForTracker''"
| "client_path UpdateTracker = ''/ocean.Ocean/UpdateTracker''"
| "client_path BatchUpdateTracker = ''/ocean.Ocean/BatchUpdateTracker''"
| "client_path SearchTorrents = ''/ocean.Ocean/SearchTorrents''"

definition client_method ::
    "'s invoke \<Rightarrow> rpc_method \<Rightarrow> rpc_request \<Rightarrow> 's \<Rightarrow> 's \<times> rpc_response outcome" where
  "client_method invoke m req s =
     (case invoke (client_path m) req m s of
        (s', Err e) \<Rightarrow> (s', Err e)
      | (s', Panic p) \<Rightarrow> (s', Panic p)
      | (s', Ok out) \<Rightarrow> (s', Ok out))"

text \<open>
  \<^verbatim>\<open>defaultOcean\<close>: every method makes a client on the connection \<^verbatim>\<open>cli.Conn()\<close> and calls its method of the
  same name; the types of the requests select the method.
\<close>

definition default_ocean ::
    "'s invoke \<Rightarrow> rpc_request \<Rightarrow> 's \<Rightarrow> 's \<times> rpc_response outcome" where
  "default_ocean conn req s =
     (case req of
        IfInfoHashExistsRequest _ \<Rightarrow> client_method conn IfInfoHashExists req s
      | BatchInfoHashExistRequest _ \<Rightarrow> client_method conn BatchInfoHashExist req s
      | CommitTorrentRequest _ \<Rightarrow> client_method conn CommitTorrent req s
      | ListTorrentInfoForTrackerRequest _ \<Rightarrow> client_method conn ListTorrentInfoForTracker req s
      | UpdateTrackerRequest _ \<Rightarrow> client_method conn UpdateTracker req s
      | BatchUpdateTrackerRequest _ \<Rightarrow> client_method conn BatchUpdateTracker req s
      | SearchTorrentsRequest _ \<Rightarrow> client_method conn SearchTorrents req s)"

section \<open>The registered server\<close>

text \<open>
  The server's methods (\<^verbatim>\<open>OceanServer\<close>): a method called with a request of another type is a failed type
  assertion. \<open>unimplemented\<close> is \<^verbatim>\<open>UnimplementedOceanServer\<close>, the methods a server has before it defines its own.
\<close>

type_synonym 's server_methods = "rpc_method \<Rightarrow> rpc_request \<Rightarrow> 's \<Rightarrow> 's \<times> rpc_response outcome"

fun method_name :: "rpc_method \<Rightarrow> string" where
  "method_name IfInfoHashExists = ''IfInfoHashExists''"
| "method_name BatchInfoHashExist = ''BatchInfoHashExist''"
| "method_name CommitTorrent = ''CommitTorrent''"
| "method_name ListTorrentInfoForTracker = ''ListTorrentInfoForTracker''"
| "method_name UpdateTracker = ''UpdateTracker''"
| "method_name BatchUpdateTracker = ''BatchUpdateTracker''"
| "method_name SearchTorrents = ''SearchTorrents''"

definition unimplemented :: "'s server_methods" where
  "unimplemented m req s = (s, Err (Errorf (''method '' @ method_name m @ '' not implemented'')))"

definition ocean_server :: "'db rpc_env \<Rightarrow> 'db ocean server_methods" where
  "ocean_server env m req s = (if request_type req = m then serve env req s else (s, Panic BadTypeAssertion))"

text \<open>
  A generated handler: it decodes the request of its type, and calls the method itself or through the
  interceptor, which gets the full name of the method and the call as a function.
\<close>

type_synonym 's interceptor =
  "string \<Rightarrow> rpc_request \<Rightarrow> (rpc_request \<Rightarrow> 's \<Rightarrow> 's \<times> rpc_response outcome) \<Rightarrow> 's \<Rightarrow> 's \<times> rpc_response outcome"

fun handler_full_method :: "rpc_method \<Rightarrow> string" where
  "handler_full_method IfInfoHashExists = ''/ocean.Ocean/IfInfoHashExists''"
| "handler_full_method BatchInfoHashExist = ''/ocean.Ocean/BatchInfoHashExist''"
| "handler_full_method CommitTorrent = ''/ocean.Ocean/CommitTorrent''"
| "handler_full_method ListTorrentInfoForTracker = ''/ocean.Ocean/ListTorrentInfoForTracker''"
| "handler_full_method UpdateTracker = ''/ocean.Ocean/UpdateTracker''"
| "handler_full_method BatchUpdateTracker = ''/ocean.Ocean/BatchUpdateTracker''"
| "handler_full_method SearchTorrents = ''/ocean.Ocean/SearchTorrents''"

definition ocean_handler ::
    "rpc_method \<Rightarrow> 's server_methods \<Rightarrow> (rpc_method \<Rightarrow> rpc_request outcome) \<Rightarrow> 's interceptor option \<Rightarrow> 's \<Rightarrow> 's \<times> rpc_response outcome" where
  "ocean_handler m srv dec interceptor s =
     (case dec m of
        Err e \<Rightarrow> (s, Err e)
      | Panic p \<Rightarrow> (s, Panic p)
      | Ok req \<Rightarrow>
          (case interceptor of
             None \<Rightarrow> srv m req s
           | Some i \<Rightarrow> i (handler_full_method m) req (\<lambda>req. srv m req) s))"

text \<open>\<^verbatim>\<open>Ocean_ServiceDesc\<close>: the name of the service, and the handler of every method name.\<close>

definition service_name :: string where
  "service_name = ''ocean.Ocean''"

definition service_methods :: "(string \<times> rpc_method) list" where
  "service_methods =
     [(''IfInfoHashExists'', IfInfoHashExists), (''BatchInfoHashExist'', BatchInfoHashExist), (''CommitTorrent'', CommitTorrent),
      (''ListTorrentInfoForTracker'', ListTorrentInfoForTracker), (''UpdateTracker'', UpdateTracker),
      (''BatchUpdateTracker'', BatchUpdateTracker), (''SearchTorrents'', SearchTorrents)]"

text \<open>
  \<^verbatim>\<open>RegisterOceanServer\<close>: the paths under which a gRPC server finds the handlers of a registered service,
  a slash, the name of the service, a slash and the name of the method.
\<close>

definition registered :: "(string \<times> rpc_method) list" where
  "registered = map (\<lambda>(name, m). (''/'' @ service_name @ ''/'' @ name, m)) service_methods"

text \<open>The descriptor lists every method under the name that its missing implementation reports.\<close>

lemma service_methods_named: "list_all (\<lambda>(name, m). name = method_name m) service_methods"
  by (simp add: service_methods_def)

text \<open>Every path of the client is registered, for the method of the client.\<close>

lemma client_path_registered: "map_of registered (client_path m) = Some m"
  by (cases m) (simp_all add: registered_def service_methods_def service_name_def)

text \<open>The full name that a handler gives its interceptor is the path the client used.\<close>

lemma handler_full_method_path: "handler_full_method m = client_path m"
  by (cases m) simp_all

lemma default_ocean_eq: "default_ocean conn req s = conn (client_path (request_type req)) req (request_type req) s"
  by (cases req) (auto simp: default_ocean_def client_method_def split: prod.splits outcome.splits)

text \<open>An answer has the response type of the method.\<close>

lemma serve_typed: "serve env req s = (s', Ok resp) \<Longrightarrow> response_type resp = request_type req"
  by (cases req) (auto simp: read_call_def batch_update_tracker_logic_def map_outcome_eq_Ok elim!: write_call_cases)

section \<open>The connection\<close>

text \<open>
  What the client relies on of gRPC. A codec reads back what it could write, and gives a message of the type that
  was asked for. An interceptor calls the method once or refuses; it may replace the answer of the method by
  an error, and does not make up an answer. Invoking a path that is registered either does not reach the
  server, and then it is an error, or runs the handler once on the written request; the answer arrives, or an error does.
\<close>

locale grpc_connection =
  fixes env :: "'db rpc_env"
    and put_request :: "rpc_request \<Rightarrow> 'w outcome" and get_request :: "rpc_method \<Rightarrow> 'w \<Rightarrow> rpc_request outcome"
    and put_response :: "rpc_response \<Rightarrow> 'w outcome" and get_response :: "rpc_method \<Rightarrow> 'w \<Rightarrow> rpc_response outcome"
    and interceptor :: "'db ocean interceptor option"
    and invoke :: "'db ocean invoke"
  assumes request_codec: "put_request req = Ok w \<Longrightarrow> get_request (request_type req) w = Ok req"
    and response_codec: "put_response resp = Ok w \<Longrightarrow> get_response (response_type resp) w = Ok resp"
    and response_typed: "get_response m w = Ok resp \<Longrightarrow> response_type resp = m"
    and intercepted: "interceptor = Some i \<Longrightarrow> i name req h s = (s', r) \<Longrightarrow>
      (s' = s \<and> \<not> is_ok r) \<or> (\<exists>r'. h req s = (s', r') \<and> (is_ok r \<longrightarrow> r = r'))"
    and invoked: "map_of registered path = Some m \<Longrightarrow> invoke path req out s = (s', r) \<Longrightarrow>
      (s' = s \<and> \<not> is_ok r)
      \<or> (\<exists>w r'. put_request req = Ok w
            \<and> ocean_handler m (ocean_server env) (\<lambda>t. get_request t w) interceptor s = (s', r')
            \<and> (is_ok r \<longrightarrow> (\<exists>resp v. r' = Ok resp \<and> put_response resp = Ok v \<and> r = get_response out v)))"
begin

text \<open>The handler of a method executes the call or refuses it.\<close>

lemma handler_serves:
  assumes "put_request req = Ok w" "ocean_handler (request_type req) (ocean_server env) (\<lambda>t. get_request t w) interceptor s = (s', r)"
  shows "(s' = s \<and> \<not> is_ok r) \<or> (\<exists>r'. serve env req s = (s', r') \<and> (is_ok r \<longrightarrow> r = r'))"
proof (cases interceptor)
  case None
  with assms show ?thesis by (auto simp: ocean_handler_def request_codec ocean_server_def)
next
  case (Some i)
  with assms have "i (handler_full_method (request_type req)) req (ocean_server env (request_type req)) s = (s', r)"
    by (simp add: ocean_handler_def request_codec)
  from intercepted [OF Some this] show ?thesis by (auto simp: ocean_server_def)
qed

lemma client_serves:
  assumes "default_ocean invoke req s = (s', r)"
  shows "(s' = s \<and> \<not> is_ok r) \<or> (\<exists>r'. serve env req s = (s', r') \<and> (is_ok r \<longrightarrow> r = r'))"
proof -
  let ?m = "request_type req"
  have "invoke (client_path ?m) req ?m s = (s', r)" using assms by (simp add: default_ocean_eq)
  from invoked [OF client_path_registered this] show ?thesis
  proof (elim disjE exE conjE)
    fix w r1 assume w: "put_request req = Ok w"
      and h: "ocean_handler ?m (ocean_server env) (\<lambda>t. get_request t w) interceptor s = (s', r1)"
      and r: "is_ok r \<longrightarrow> (\<exists>resp v. r1 = Ok resp \<and> put_response resp = Ok v \<and> r = get_response ?m v)"
    show ?thesis
    proof (cases "is_ok r")
      case True
      with r obtain resp v where resp: "r1 = Ok resp" "put_response resp = Ok v" "r = get_response ?m v" by blast
      with handler_serves [OF w h] have sv: "serve env req s = (s', Ok resp)" by auto
      then have "r = Ok resp" using resp(3) response_codec [OF resp(2)] serve_typed [OF sv] by simp
      with sv show ?thesis by blast
    qed (use handler_serves [OF w h] in auto)
  qed simp
qed

end

section \<open>Runs\<close>

text \<open>
  A run of calls by a client, each over its connection in its surroundings, and the run of the server that
  executes the marked calls only.
\<close>

fun client_run :: "('db ocean invoke \<times> rpc_request) list \<Rightarrow> 'db ocean \<Rightarrow> 'db ocean \<times> rpc_response outcome list" where
  "client_run [] s = (s, [])"
| "client_run ((conn, req) # calls) s =
     (let (s, r) = default_ocean conn req s; (s, rs) = client_run calls s in (s, r # rs))"

fun serve_marked :: "('db rpc_env \<times> rpc_request) list \<Rightarrow> bool list \<Rightarrow> 'db ocean \<Rightarrow> 'db ocean \<times> rpc_response outcome option list" where
  "serve_marked ((env, req) # calls) (b # bs) s =
     (if b then let (s, r) = serve env req s; (s, rs) = serve_marked calls bs s in (s, Some r # rs)
      else let (s, rs) = serve_marked calls bs s in (s, None # rs))"
| "serve_marked _ _ s = (s, [])"

text \<open>The connections of a run, with the surroundings of each call.\<close>

definition connected ::
    "(rpc_request \<Rightarrow> 'w outcome) \<Rightarrow> (rpc_method \<Rightarrow> 'w \<Rightarrow> rpc_request outcome) \<Rightarrow> (rpc_response \<Rightarrow> 'w outcome) \<Rightarrow> (rpc_method \<Rightarrow> 'w \<Rightarrow> rpc_response outcome)
     \<Rightarrow> 'db ocean interceptor option \<Rightarrow> 'db rpc_env list \<Rightarrow> ('db ocean invoke \<times> rpc_request) list \<Rightarrow> bool" where
  "connected wq rq wp rp i envs calls \<longleftrightarrow> list_all2 (\<lambda>env c. grpc_connection env wq rq wp rp i (fst c)) envs calls"

lemma client_run_served:
  assumes "connected wq rq wp rp i envs calls" "client_run calls s = (s', rs)"
  shows "\<exists>marks os. serve_marked (zip envs (map snd calls)) marks s = (s', os) \<and> length marks = length calls
     \<and> list_all2 (\<lambda>r out. is_ok r \<longrightarrow> out = Some r) rs os"
  using assms
proof (induction calls arbitrary: envs s rs)
  case Nil
  then show ?case by (auto simp: connected_def)
next
  case (Cons c calls)
  obtain conn req where c: "c = (conn, req)" by fastforce
  obtain env envs' where envs: "envs = env # envs'" "grpc_connection env wq rq wp rp i conn" "connected wq rq wp rp i envs' calls"
    using Cons.prems(1) c by (auto simp: connected_def list_all2_Cons2)
  obtain s1 r where 1: "default_ocean conn req s = (s1, r)" by fastforce
  obtain rs' where 2: "client_run calls s1 = (s', rs')" "rs = r # rs'"
    using Cons.prems(2) c 1 by (auto split: prod.splits)
  obtain marks os where IH: "serve_marked (zip envs' (map snd calls)) marks s1 = (s', os)" "length marks = length calls"
    "list_all2 (\<lambda>r out. is_ok r \<longrightarrow> out = Some r) rs' os"
    using Cons.IH [OF envs(3) 2(1)] by blast
  from grpc_connection.client_serves [OF envs(2) 1] show ?case
  proof (elim disjE exE conjE)
    assume "s1 = s" "\<not> is_ok r"
    then show ?thesis using IH 2 c envs(1) by (intro exI [of _ "False # marks"] exI [of _ "None # os"]) simp
  next
    fix r' assume "serve env req s = (s1, r')" "is_ok r \<longrightarrow> r = r'"
    then show ?thesis using IH 2 c envs(1) by (intro exI [of _ "True # marks"] exI [of _ "Some r' # os"]) auto
  qed
qed

section \<open>A connection within one process\<close>

text \<open>
  The messages are written and read in the wire format, and every call that can be written reaches the handler. This is
  the connection with which the client and the server of the model fit together.
\<close>

definition local_invoke :: "'db rpc_env \<Rightarrow> 'db ocean invoke" where
  "local_invoke env path req out s =
     (case map_of registered path of
        None \<Rightarrow> unimplemented out req s
      | Some m \<Rightarrow>
          (case write_request req of
             Ok w \<Rightarrow> (case ocean_handler m (ocean_server env) (\<lambda>t. read_request t w) None s of
                       (s', Ok resp) \<Rightarrow> (s', obind (write_response resp) (read_response out))
                     | (s', Err e) \<Rightarrow> (s', Err e)
                     | (s', Panic p) \<Rightarrow> (s', Err (Errorf ''panic'')))
           | Err e \<Rightarrow> (s, Err e)
           | Panic p \<Rightarrow> (s, Panic p)))"

interpretation lc: grpc_connection env write_request read_request write_response read_response None "local_invoke env"
proof unfold_locales
  fix path m req out s s' r
  assume "map_of registered path = Some m" "local_invoke env path req out s = (s', r)"
  then show "(s' = s \<and> \<not> is_ok r)
      \<or> (\<exists>w r'. write_request req = Ok w \<and> ocean_handler m (ocean_server env) (\<lambda>t. read_request t w) None s = (s', r')
           \<and> (is_ok r \<longrightarrow> (\<exists>resp v. r' = Ok resp \<and> write_response resp = Ok v \<and> r = read_response out v)))"
    by (auto simp: local_invoke_def is_ok_iff obind_eq_Ok split: outcome.splits prod.splits)
qed (auto simp: read_write_request read_write_response read_response_typed)

text \<open>
  Over it, a call of the client that can be written is the call of the server; a panic is an error, and so is a
  response that cannot be written.
\<close>

lemma local_call:
  assumes "write_request req = Ok w"
  shows "default_ocean (local_invoke env) req s =
     (case serve env req s of
        (s', Ok resp) \<Rightarrow> (s', obind (write_response resp) (\<lambda>_. Ok resp))
      | (s', Err e) \<Rightarrow> (s', Err e)
      | (s', Panic p) \<Rightarrow> (s', Err (Errorf ''panic'')))"
proof -
  obtain s' r where sv: "serve env req s = (s', r)" by fastforce
  show ?thesis
  proof (cases r)
    case (Ok resp)
    with sv have "response_type resp = request_type req" by (simp add: serve_typed)
    with Ok sv assms show ?thesis using read_write_response [of resp]
      by (cases "write_response resp")
        (simp_all add: default_ocean_eq local_invoke_def client_path_registered ocean_handler_def ocean_server_def read_write_request)
  qed (use sv assms in \<open>simp_all add: default_ocean_eq local_invoke_def client_path_registered ocean_handler_def ocean_server_def read_write_request\<close>)
qed

text \<open>A connection on which the call arrives and the answer is lost.\<close>

definition lost_answer :: "'db rpc_env \<Rightarrow> 'db ocean invoke" where
  "lost_answer env path req out s = (fst (local_invoke env path req out s), Err (Errorf ''unavailable''))"

lemma lost_answer_connection: "grpc_connection env write_request read_request write_response read_response None (lost_answer env)"
proof unfold_locales
  fix path m req out s s' r
  assume m: "map_of registered path = Some m" and "lost_answer env path req out s = (s', r)"
  then have r: "s' = fst (local_invoke env path req out s)" "\<not> is_ok r" by (auto simp: lost_answer_def)
  show "(s' = s \<and> \<not> is_ok r)
      \<or> (\<exists>w r'. write_request req = Ok w \<and> ocean_handler m (ocean_server env) (\<lambda>t. read_request t w) None s = (s', r')
           \<and> (is_ok r \<longrightarrow> (\<exists>resp v. r' = Ok resp \<and> write_response resp = Ok v \<and> r = read_response out v)))"
    using lc.invoked [OF m, of env req out s] r by (metis prod.collapse)
qed (use lc.request_codec lc.response_codec lc.response_typed in \<open>auto simp: read_write_request read_write_response\<close>)

section \<open>Properties\<close>



end
