(* ===== verification/Search_Path.thy ===== *)
theory Search_Path
  imports Torrent_Fetcher Indexer Ocean_Client
begin

text \<open>
  The way of a torrent from the fetcher to a user: publication, index, search and the answer on the wire. The
  lemmas follow one torrent through the three services. A torrent name is a sequence of bytes that a peer chose; the messages of
  the bus and the index are JSON and those of the RPC service are protocol buffers, which differ in what they do with a name
  that is not UTF-8.
\<close>

section \<open>Documents that can be sent\<close>

text \<open>The lengths of the files are 64-bit integers.\<close>

definition torrent_sized :: "torrent \<Rightarrow> bool" where
  "torrent_sized t \<longleftrightarrow> list_all (\<lambda>f. is_int64 (file_length f)) (t_files t)"

definition body_ok :: "payload \<Rightarrow> bool" where
  "body_ok b = (case b of Payload t \<Rightarrow> torrent_utf8 t \<and> torrent_sized t | Garbage \<Rightarrow> True)"

lemma json_torrent_sized: "torrent_sized (json_torrent t) = torrent_sized t"
  by (simp add: torrent_sized_def json_torrent_def json_file_def list_all_iff)

text \<open>Whatever bytes a torrent is made of, its message is one of these.\<close>

lemma marshalled_ok: "json_marshal t = Ok b \<Longrightarrow> torrent_sized t \<Longrightarrow> body_ok b"
  using json_torrent_utf8 [of t]
  by (auto simp: json_marshal_def body_ok_def json_torrent_sized)

lemma sendable:
  assumes "torrent_utf8 t" "torrent_sized t"
  shows "proto_torrent_ok (to_proto_torrent t)"
  using assms
  by (auto simp: proto_torrent_ok_def to_proto_torrent_def torrent_utf8_def torrent_sized_def proto_file_ok_def to_proto_file_def
      file_utf8_def list_all_iff)

lemma flagged [simp]:
  "torrent_utf8 (set_search_updated t) = torrent_utf8 t" "torrent_sized (set_search_updated t) = torrent_sized t"
  "t_name (set_search_updated t) = t_name t"
  by (simp_all add: set_search_updated_def torrent_utf8_def torrent_sized_def)

section \<open>The index\<close>

lemma torrents_of_append: "torrents_of (xs @ ys) = torrents_of xs @ torrents_of ys"
  by (simp add: torrents_of_def)

lemma torrents_of_ok: "list_all body_ok bodies \<Longrightarrow> t \<in> set (torrents_of bodies) \<Longrightarrow> torrent_utf8 t \<and> torrent_sized t"
  by (auto simp: torrents_of_def body_ok_def list_all_iff split: payload.splits)

text \<open>A torrent that a batch size of torrents follows, itself counted, is indexed.\<close>

lemma followed_indexed:
  assumes "new_indexer reply es uri n db [] = (calls, Ok i0)" "0 < n"
    and "k < length bodies" "bodies ! k = Payload t" "nat n \<le> length (torrents_of (drop k bodies))"
  obtains i ts where "indexer_run willing (\<lambda>_. Ok ()) (numbered bodies) i0 = Ok i"
    "concat (i_indexed i) = map index_entry ts" "set ts \<subseteq> set (torrents_of bodies)" "t \<in> set ts"
proof -
  note i0 = new_indexer_Ok [OF assms(1)]
  have b: "map snd (numbered bodies) = bodies" by (simp add: numbered_def)
  obtain i ts where i: "indexer_run willing (\<lambda>_. Ok ()) (numbered bodies) i0 = Ok i"
    "int (length (i_batch i)) = int (length (torrents_of bodies)) mod n" "concat (i_indexed i) = map index_entry ts"
    "ts @ i_batch i = torrents_of bodies"
    using run_willing [of i0 "numbered bodies"] i0(2) assms(2) unfolding b by (auto simp: indexer_ready_def)
  let ?pre = "torrents_of (take k bodies)" and ?rest = "torrents_of (drop k bodies)"
  have split: "torrents_of bodies = ?pre @ ?rest" by (metis append_take_drop_id torrents_of_append)
  have "drop k bodies = Payload t # drop (Suc k) bodies" using assms(3,4) by (metis Cons_nth_drop_Suc)
  then have rest: "?rest = t # torrents_of (drop (Suc k) bodies)" by (simp add: torrents_of_def)
  have "int (length (i_batch i)) < n" using i(2) assms(2) by simp
  moreover have "length ts + length (i_batch i) = length ?pre + length ?rest" using i(4) split by (metis length_append)
  ultimately have "length ?pre < length ts" using assms(5) by linarith
  then have "ts ! length ?pre = (?pre @ ?rest) ! length ?pre" using i(4) split by (metis nth_append)
  then have "t \<in> set ts" using \<open>length ?pre < length ts\<close> rest by (metis nth_append_length nth_mem)
  moreover have "set ts \<subseteq> set (torrents_of bodies)" using i(4) by (metis set_append sup_ge1)
  ultimately show thesis using i(1,3) that by blast
qed

section \<open>The search\<close>

lemma search_loop_documents: "search_loop (map Payload ts) acc = Ok (acc @ map to_proto_torrent ts)"
  by (induction ts arbitrary: acc) (simp_all add: json_unmarshal_def)

text \<open>The page for documents that are UTF-8 can be written if it is not too long.\<close>

lemma search_answered:
  assumes "re_es env (search_request q) = Ok \<lparr>es_hits = map Payload docs, es_total = tot\<rparr>"
    and "\<forall>d \<in> set docs. torrent_utf8 d \<and> torrent_sized d" "write_request (SearchTorrentsRequest q) = Ok w"
    and "page = \<lparr>tp_torrents = map to_proto_torrent docs, tp_total = word_of_int tot\<rparr>"
    and "small (put_fields (page_response_fields page))"
  shows "default_ocean (local_invoke env) (SearchTorrentsRequest q) s = (s, Ok (TorrentPageResponse page))"
proof -
  have "search_torrents (re_es env) q = Ok page"
    using assms(1,4) by (simp add: search_torrents_def search_loop_documents)
  moreover have "page_response_ok page" using assms(2,4) by (auto simp: page_response_ok_def list_all_iff sendable)
  ultimately show ?thesis using assms(5) local_call [OF assms(3), of env s] by (simp add: read_call_def marshal_def)
qed

section \<open>Properties\<close>



end
