(* ===== verification/Torrent_Pipeline.thy ===== *)
theory Torrent_Pipeline
  imports Torrent_Fetcher Tracker_Updater Indexer Ocean_Server Db_Persist
begin

text \<open>
  The services together: the torrent fetcher, the tracker updater, the indexer, the persistence and the
  RPC service work on one document collection and exchange messages over the bus. A step of the system
  is one operation of one service. The lemmas follow every identifier from where it enters the system,
  an RPC commit or metadata with an announced hash, to the collection, the queues and the index.
\<close>

section \<open>State\<close>

text \<open>
  The queues are those the services subscribe with: the tracker updater to \<^verbatim>\<open>new_torrent\<close>, the persistence
  to \<^verbatim>\<open>tracker_updated\<close>, the indexer to both. \<open>pl_unacked\<close> are the deliveries the indexer has not settled.
  \<open>pl_announced\<close> and \<open>pl_committed\<close> are histories: the hashes that were requested from the fetcher, and
  the identifiers that the collection held at the start or that were committed.
\<close>

record ('bm, 'db) pipeline =
  pl_db :: 'db
  pl_fetcher :: "('bm, 'db) fetcher"
  pl_updater :: "'db updater"
  pl_indexer :: "'db indexer"
  pl_persist :: "'db db_persist"
  pl_ocean :: "'db ocean"
  pl_tracker_queue :: "payload list"
  pl_persist_queue :: "payload list"
  pl_index_queue :: "payload list"
  pl_unacked :: "(nat \<times> payload) list"
  pl_next_tag :: nat
  pl_announced :: "bytes list"
  pl_committed :: "string list"

text \<open>The services see the shared collection.\<close>

definition fetcher_now :: "('bm, 'db) pipeline \<Rightarrow> ('bm, 'db) fetcher" where
  "fetcher_now s = (pl_fetcher s)\<lparr>f_coll := pl_db s\<rparr>"

definition updater_now :: "('bm, 'db) pipeline \<Rightarrow> 'db updater" where
  "updater_now s = (pl_updater s)\<lparr>u_coll := pl_db s\<rparr>"

definition indexer_now :: "('bm, 'db) pipeline \<Rightarrow> 'db indexer" where
  "indexer_now s = (pl_indexer s)\<lparr>i_coll := pl_db s\<rparr>"

definition persist_now :: "('bm, 'db) pipeline \<Rightarrow> 'db db_persist" where
  "persist_now s = (pl_persist s)\<lparr>p_coll := pl_db s\<rparr>"

definition ocean_now :: "('bm, 'db) pipeline \<Rightarrow> 'db ocean" where
  "ocean_now s = (pl_ocean s)\<lparr>o_coll := pl_db s\<rparr>"

section \<open>The message bus\<close>

definition on_topics :: "string list \<Rightarrow> (string \<times> payload) list \<Rightarrow> payload list" where
  "on_topics topics ms = map snd (filter (\<lambda>m. fst m \<in> set topics) ms)"

definition route :: "(string \<times> payload) list \<Rightarrow> ('bm, 'db) pipeline \<Rightarrow> ('bm, 'db) pipeline" where
  "route ms s =
     s\<lparr>pl_tracker_queue := pl_tracker_queue s @ on_topics [topic_new_torrent] ms,
       pl_persist_queue := pl_persist_queue s @ on_topics [topic_tracker_updated] ms,
       pl_index_queue := pl_index_queue s @ on_topics [topic_new_torrent, topic_tracker_updated] ms\<rparr>"

text \<open>A handler that returns an error gives its message back to the queue.\<close>

definition requeue :: "unit outcome \<Rightarrow> payload \<Rightarrow> payload list \<Rightarrow> payload list" where
  "requeue r msg q = (if is_ok r then q else q @ [msg])"

text \<open>What the broker does with the calls that settle deliveries: what is left unsettled, and what is delivered again.\<close>

fun broker_settle :: "settle list \<Rightarrow> (nat \<times> payload) list \<Rightarrow> (nat \<times> payload) list \<times> payload list" where
  "broker_settle [] un = (un, [])"
| "broker_settle (s # calls) un =
     (let (un', again) = broker_settle calls (filter (\<lambda>d. \<not> covers (fst d) s) un)
      in (un', (if is_nack s then map snd (filter (\<lambda>d. covers (fst d) s) un) else []) @ again))"

section \<open>Steps\<close>

text \<open>
  The parameters are those of the services: the bitmap, the filter's hash, the collection, SHA-1 and
  the decoder of metadata. Everything else a service asks its environment for is arbitrary in each step.
\<close>

inductive pipeline_step ::
    "'bm bitmap_ops \<Rightarrow> (bytes \<Rightarrow> 64 word) \<Rightarrow> 'db coll \<Rightarrow> (bytes \<Rightarrow> bytes)
     \<Rightarrow> ((string \<times> bytes any) list \<Rightarrow> bt_torrent \<Rightarrow> bt_torrent outcome)
     \<Rightarrow> ('bm, 'db) pipeline \<Rightarrow> ('bm, 'db) pipeline \<Rightarrow> bool" for B hash C sha1 decode where
  pl_push: "fetcher_push B hash req (fetcher_now s) = Ok (Some f) \<Longrightarrow>
    pipeline_step B hash C sha1 decode s (s\<lparr>pl_fetcher := f, pl_announced := pl_announced s @ [treq_info_hash req]\<rparr>)"
| pl_check: "check_exist_one B hash C (fetcher_now s) = Ok (Some f) \<Longrightarrow>
    pipeline_step B hash C sha1 decode s (s\<lparr>pl_fetcher := f\<rparr>)"
| pl_receive: "worker_receive (f_executor (pl_fetcher s)) = Some e \<Longrightarrow>
    pipeline_step B hash C sha1 decode s (s\<lparr>pl_fetcher := (pl_fetcher s)\<lparr>f_executor := e\<rparr>\<rparr>)"
| pl_pull: "bt \<in># ex_running (f_executor (pl_fetcher s)) \<Longrightarrow>
    pull_torrent B hash C sha1 dial decode peerID pub now bt (fetcher_now s) = Ok f \<Longrightarrow>
    worker_finish bt (f_executor f) = Some e \<Longrightarrow>
    pipeline_step B hash C sha1 decode s
      (route (drop (length (f_published (pl_fetcher s))) (f_published f))
        (s\<lparr>pl_fetcher := f\<lparr>f_executor := e\<rparr>, pl_db := f_coll f\<rparr>))"
| pl_serve: "re_coll env = C \<Longrightarrow> serve env req (ocean_now s) = (o', r) \<Longrightarrow> \<not> is_panic r \<Longrightarrow>
    pipeline_step B hash C sha1 decode s
      (s\<lparr>pl_ocean := o', pl_db := o_coll o', pl_committed := pl_committed s @ (if is_ok r then committed_ids req else [])\<rparr>)"
| pl_new: "pl_tracker_queue s = msg # q \<Longrightarrow> handle_new_torrent scr msg (updater_now s) = (u, r) \<Longrightarrow> \<not> is_panic r \<Longrightarrow>
    pipeline_step B hash C sha1 decode s (s\<lparr>pl_updater := u, pl_tracker_queue := requeue r msg q\<rparr>)"
| pl_result: "handle_result C tpub now result (updater_now s) = u \<Longrightarrow>
    pipeline_step B hash C sha1 decode s
      (route (drop (length (u_published (pl_updater s))) (u_published u)) (s\<lparr>pl_updater := u, pl_db := u_coll u\<rparr>))"
| pl_fetch: "fetch_one C clock scr now (updater_now s) = Some (u, r) \<Longrightarrow> \<not> is_panic r \<Longrightarrow>
    pipeline_step B hash C sha1 decode s (s\<lparr>pl_updater := u, pl_db := u_coll u\<rparr>)"
| pl_timer: "timer_fires (updater_now s) = Some u \<Longrightarrow> pipeline_step B hash C sha1 decode s (s\<lparr>pl_updater := u\<rparr>)"
| pl_recover: "recover_round C clock tpub (updater_now s) = x \<Longrightarrow> u = (case x of Inl y \<Rightarrow> fst y | Inr u \<Rightarrow> u) \<Longrightarrow>
    pipeline_step B hash C sha1 decode s
      (route (drop (length (u_published (pl_updater s))) (u_published u)) (s\<lparr>pl_updater := u, pl_db := u_coll u\<rparr>))"
| pl_store: "pl_persist_queue s = msg # q \<Longrightarrow> consume_new_torrent C msg (persist_now s) = (p, r) \<Longrightarrow> \<not> is_panic r \<Longrightarrow>
    pipeline_step B hash C sha1 decode s
      (s\<lparr>pl_persist := p, pl_db := p_coll p, pl_persist_queue := requeue r msg q\<rparr>)"
| pl_index: "pl_index_queue s = msg # q \<Longrightarrow> indexer_deliver bulk ackr (pl_next_tag s, msg) (indexer_now s) = Ok i \<Longrightarrow>
    broker_settle (drop (length (i_settled (pl_indexer s))) (i_settled i)) (pl_unacked s @ [(pl_next_tag s, msg)]) = (un, again) \<Longrightarrow>
    pipeline_step B hash C sha1 decode s
      (s\<lparr>pl_indexer := i, pl_index_queue := q @ again, pl_unacked := un, pl_next_tag := pl_next_tag s + 1\<rparr>)"
| pl_flag: "flag_update C (indexer_now s) = i \<Longrightarrow>
    pipeline_step B hash C sha1 decode s (s\<lparr>pl_indexer := i, pl_db := i_coll i\<rparr>)"

inductive_cases pipeline_stepE: "pipeline_step B hash C sha1 decode s t"

text \<open>
  The start: newly made services over a collection, and empty queues. The identifiers in the database are
  strings of BSON, which are UTF-8.
\<close>

definition pipeline_begin :: "('db \<Rightarrow> torrent list) \<Rightarrow> ('bm, 'db) pipeline \<Rightarrow> bool" where
  "pipeline_begin view s \<longleftrightarrow>
     f_unchecked (pl_fetcher s) = [] \<and> (\<exists>workers maxQueue. f_executor (pl_fetcher s) = executor_start (new_executor workers maxQueue))
     \<and> u_batch (pl_updater s) = [] \<and> i_batch (pl_indexer s) = [] \<and> i_indexed (pl_indexer s) = []
     \<and> pl_tracker_queue s = [] \<and> pl_persist_queue s = [] \<and> pl_index_queue s = [] \<and> pl_unacked s = []
     \<and> pl_committed s = map t_info_hash (view (pl_db s)) \<and> list_all valid_utf8 (pl_committed s) \<and> pl_announced s = []"

section \<open>Where an identifier comes from\<close>

text \<open>An identifier that decoding metadata with the given hash gives.\<close>

definition verified_id ::
    "(bytes \<Rightarrow> bytes) \<Rightarrow> ((string \<times> bytes any) list \<Rightarrow> bt_torrent \<Rightarrow> bt_torrent outcome) \<Rightarrow> bytes \<Rightarrow> string \<Rightarrow> bool" where
  "verified_id sha1 decode h k \<longleftrightarrow>
     (\<exists>raw d off torrent. sha1 raw = h \<and> bdecode_dict raw = Ok (d, off)
        \<and> decode (map (map_prod id (map_any (span_read raw))) d) (preset_torrent h) = Ok torrent
        \<and> bt_t_name torrent \<noteq> [] \<and> k = hex_encode (bt_t_info_hash torrent))"

definition known_ids ::
    "(bytes \<Rightarrow> bytes) \<Rightarrow> ((string \<times> bytes any) list \<Rightarrow> bt_torrent \<Rightarrow> bt_torrent outcome) \<Rightarrow> ('bm, 'db) pipeline \<Rightarrow> string set" where
  "known_ids sha1 decode s =
     set (pl_committed s) \<union> {k. \<exists>h \<in> set (pl_announced s). verified_id sha1 decode h k}"

fun payload_ids :: "payload \<Rightarrow> string set" where
  "payload_ids (Payload t) = {t_info_hash t}"
| "payload_ids Garbage = {}"

definition message_ids :: "payload list \<Rightarrow> string set" where
  "message_ids ms = \<Union> (payload_ids ` set ms)"

definition index_ids :: "'db indexer \<Rightarrow> string set" where
  "index_ids i = t_info_hash ` set (i_batch i) \<union> fst ` set (concat (i_indexed i))"

text \<open>The hashes the fetcher holds.\<close>

definition wanted_hashes :: "('bm, 'db) fetcher \<Rightarrow> bytes set" where
  "wanted_hashes f = treq_info_hash ` set (f_unchecked f) \<union> bt_info_hash ` set (ex_tasks (f_executor f))
     \<union> bt_info_hash ` set_mset (ex_running (f_executor f))"

definition pipeline_inv ::
    "('db \<Rightarrow> torrent list) \<Rightarrow> (bytes \<Rightarrow> bytes) \<Rightarrow> ((string \<times> bytes any) list \<Rightarrow> bt_torrent \<Rightarrow> bt_torrent outcome)
     \<Rightarrow> ('bm, 'db) pipeline \<Rightarrow> bool" where
  "pipeline_inv view sha1 decode s \<longleftrightarrow>
     list_all valid_utf8 (pl_committed s) \<and> wanted_hashes (pl_fetcher s) \<subseteq> set (pl_announced s)
   \<and> doc_ids view (pl_db s) \<subseteq> known_ids sha1 decode s
   \<and> message_ids (pl_tracker_queue s @ pl_persist_queue s @ pl_index_queue s @ map snd (pl_unacked s)) \<subseteq> known_ids sha1 decode s
   \<and> t_info_hash ` set (u_batch (pl_updater s)) \<subseteq> known_ids sha1 decode s
   \<and> index_ids (pl_indexer s) \<subseteq> known_ids sha1 decode s"

section \<open>Lemmas\<close>

lemma now_simps [simp]:
  "f_coll (fetcher_now s) = pl_db s" "f_published (fetcher_now s) = f_published (pl_fetcher s)"
  "f_executor (fetcher_now s) = f_executor (pl_fetcher s)" "wanted_hashes (fetcher_now s) = wanted_hashes (pl_fetcher s)"
  "u_coll (updater_now s) = pl_db s" "u_published (updater_now s) = u_published (pl_updater s)"
  "u_batch (updater_now s) = u_batch (pl_updater s)"
  "i_coll (indexer_now s) = pl_db s" "index_ids (indexer_now s) = index_ids (pl_indexer s)"
  "i_settled (indexer_now s) = i_settled (pl_indexer s)"
  "p_coll (persist_now s) = pl_db s" "o_coll (ocean_now s) = pl_db s"
  by (simp_all add: fetcher_now_def updater_now_def indexer_now_def persist_now_def ocean_now_def wanted_hashes_def index_ids_def)

lemma message_ids_simps [simp]:
  "message_ids [] = {}" "message_ids (m # ms) = payload_ids m \<union> message_ids ms"
  "message_ids (ms @ ns) = message_ids ms \<union> message_ids ns"
  by (auto simp: message_ids_def)

lemma on_topics_ids: "message_ids (on_topics topics ms) \<subseteq> message_ids (map snd ms)"
  by (auto simp: message_ids_def on_topics_def)

lemma requeue_ids: "message_ids (requeue r msg q) \<subseteq> message_ids (msg # q)"
  by (simp add: requeue_def)

lemma broker_settle_ids:
  "broker_settle calls un = (un', again) \<Longrightarrow> message_ids (map snd un') \<union> message_ids again \<subseteq> message_ids (map snd un)"
proof (induction calls arbitrary: un un' again)
  case (Cons s calls)
  obtain un1 again1 where r: "broker_settle calls (filter (\<lambda>d. \<not> covers (fst d) s) un) = (un1, again1)" by fastforce
  have "message_ids (map snd (filter P un)) \<subseteq> message_ids (map snd un)" for P by (auto simp: message_ids_def)
  with Cons.IH [OF r] Cons.prems r show ?case by (fastforce split: if_splits)
qed simp

subsection \<open>The fetcher\<close>

lemma fetcher_commit_wanted:
  "fetcher_commit req f = Some f' \<Longrightarrow> wanted_hashes f' \<subseteq> insert (treq_info_hash req) (wanted_hashes f) \<and> f_coll f' = f_coll f"
  by (auto simp: fetcher_commit_def commit_def wanted_hashes_def event_def set_traffic_metric_func_def new_bit_torrent_def Let_def
      split: if_splits)

lemma fetcher_push_wanted:
  assumes "fetcher_push B hash req f = Ok (Some f')"
  shows "wanted_hashes f' \<subseteq> insert (treq_info_hash req) (wanted_hashes f)"
proof -
  consider "f' = f\<lparr>f_unchecked := f_unchecked f @ [req]\<rparr>" | "fetcher_commit req f = Some f'"
    using assms by (auto simp: fetcher_push_def obind_eq_Ok split: if_splits)
  then show ?thesis
  proof cases
    case 1
    then show ?thesis by (auto simp: wanted_hashes_def)
  qed (use fetcher_commit_wanted in blast)
qed

lemma check_exist_wanted:
  assumes "check_exist_one B hash C f = Ok (Some f')"
  shows "wanted_hashes f' \<subseteq> wanted_hashes f"
proof (cases "f_unchecked f")
  case Nil
  with assms show ?thesis by (simp add: check_exist_one_def)
next
  case (Cons req reqs)
  let ?f = "event ''db_exist_check'' (f\<lparr>f_unchecked := reqs\<rparr>)"
  have w: "insert (treq_info_hash req) (wanted_hashes ?f) \<subseteq> wanted_hashes f"
    using Cons by (auto simp: wanted_hashes_def event_def)
  then have g: "wanted_hashes (?f\<lparr>f_bloom := b\<rparr>) \<subseteq> wanted_hashes f" for b by (auto simp: wanted_hashes_def)
  consider b where "f' = ?f\<lparr>f_bloom := b\<rparr>" | "f' = ?f" | "fetcher_commit req ?f = Some f'"
    using assms Cons by (auto simp: check_exist_one_def Let_def obind_eq_Ok split: outcome.splits if_splits)
  then show ?thesis
  proof cases
    case 1
    then show ?thesis using g by simp
  next
    case 2
    then show ?thesis using w by simp
  next
    case 3
    show ?thesis by (rule subset_trans [OF fetcher_commit_wanted [OF 3, THEN conjunct1] w])
  qed
qed

lemma receive_wanted:
  "worker_receive (f_executor f) = Some e \<Longrightarrow> wanted_hashes (f\<lparr>f_executor := e\<rparr>) \<subseteq> wanted_hashes f"
  by (auto simp: worker_receive_def wanted_hashes_def split: list.splits if_splits)

lemma finish_wanted:
  assumes "worker_finish bt (f_executor f) = Some e"
  shows "wanted_hashes (f\<lparr>f_executor := e\<rparr>) \<subseteq> wanted_hashes f"
proof -
  have "set_mset (ex_running e) \<subseteq> set_mset (ex_running (f_executor f))" "ex_tasks e = ex_tasks (f_executor f)"
    using assms by (auto simp: worker_finish_def split: if_splits dest: in_diffD)
  then show ?thesis by (auto simp: wanted_hashes_def)
qed

lemma handle_torrent_effect:
  assumes "handle_torrent B hash C pub now torrent f = Ok f'"
  shows "f_unchecked f' = f_unchecked f \<and> f_executor f' = f_executor f
     \<and> (f_coll f' = f_coll f \<or> upsert C (new_torrent_from_bt_torrent now torrent) (f_coll f) = Ok (f_coll f'))
     \<and> (f_published f' = f_published f
        \<or> f_published f' = f_published f @ [(topic_new_torrent, Payload (json_torrent (new_torrent_from_bt_torrent now torrent)))])"
  using assms
  by (auto simp: handle_torrent_def json_marshal_def Let_def obind_eq_Ok event_def split: outcome.splits)

text \<open>A pull stores and publishes at most an identifier of verified metadata.\<close>

lemma pull_effect:
  assumes "pull_torrent B hash C sha1 dial decode peerID pub now bt f = Ok f'"
  shows "f_unchecked f' = f_unchecked f \<and> f_executor f' = f_executor f
     \<and> (f_coll f' = f_coll f \<and> f_published f' = f_published f
        \<or> (\<exists>t. verified_id sha1 decode (bt_info_hash bt) (t_info_hash t)
              \<and> (f_coll f' = f_coll f \<or> upsert C t (f_coll f) = Ok (f_coll f'))
              \<and> (f_published f' = f_published f \<or> f_published f' = f_published f @ [(topic_new_torrent, Payload (json_torrent t))])))"
proof -
  consider (quiet) e where "f' = event e (event ''pull_torrent'' f)" | (none) "f' = event ''pull_torrent'' f"
    | (handled) bt1 bt2 md torrent where "bt_start dial bt = Ok bt1" "get_metadata sha1 peerID bt1 = Ok (md, bt2)"
      "decode md (preset_torrent (bt_info_hash bt2)) = Ok torrent" "bt_t_name torrent \<noteq> []"
      "handle_torrent B hash C pub now torrent (event ''pull_torrent'' f) = Ok f'"
    using assms by (auto simp: pull_torrent_def Let_def split: outcome.splits if_splits)
  then show ?thesis
  proof cases
    case handled
    have h1: "bt_info_hash bt1 = bt_info_hash bt"
      using handled(1) by (auto simp: bt_start_def obind_eq_Ok split: option.splits)
    obtain raw d off where g: "kept bt2 = kept bt1" "sha1 raw = bt_info_hash bt1" "bdecode_dict raw = Ok (d, off)"
      "md = map (map_prod id (map_any (span_read raw))) d"
      by (rule get_metadata_effect [OF handled(2)]) (rule that)
    have "bt_info_hash bt2 = bt_info_hash bt" using g(1) h1 by (simp add: kept_def)
    then have "verified_id sha1 decode (bt_info_hash bt) (t_info_hash (new_torrent_from_bt_torrent now torrent))"
      using g h1 handled(3,4) unfolding verified_id_def stored_id by metis
    then show ?thesis using handle_torrent_effect [OF handled(5)] by auto
  qed (simp_all add: event_def)
qed

subsection \<open>The tracker updater\<close>

text \<open>An updater that spreads no identifier the collection did not have: it stores none and publishes none.\<close>

definition spreads :: "('db \<Rightarrow> torrent list) \<Rightarrow> 'db updater \<Rightarrow> 'db updater \<Rightarrow> bool" where
  "spreads view u u' \<longleftrightarrow> doc_ids view (u_coll u') \<subseteq> doc_ids view (u_coll u) \<and> u_batch u' = u_batch u
     \<and> (\<exists>ms. u_published u' = u_published u @ ms \<and> message_ids (map snd ms) \<subseteq> coerce_utf8 ` doc_ids view (u_coll u))"

lemma spreads_refl: "spreads view u u"
  by (simp add: spreads_def)

lemma spreads_trans:
  assumes "spreads view u v" "spreads view v w"
  shows "spreads view u w"
proof -
  obtain ms ns where "u_published v = u_published u @ ms" "message_ids (map snd ms) \<subseteq> coerce_utf8 ` doc_ids view (u_coll u)"
    "u_published w = u_published v @ ns" "message_ids (map snd ns) \<subseteq> coerce_utf8 ` doc_ids view (u_coll v)"
    using assms by (auto simp: spreads_def)
  moreover have "coerce_utf8 ` doc_ids view (u_coll v) \<subseteq> coerce_utf8 ` doc_ids view (u_coll u)"
    using assms(1) by (auto simp: spreads_def)
  ultimately show ?thesis using assms unfolding spreads_def by (intro conjI exI [of _ "ms @ ns"]) auto
qed

lemma spreads_events [simp]: "spreads view u (v\<lparr>u_events := e\<rparr>) = spreads view u v"
  by (simp add: spreads_def)

lemma publish_spreads:
  assumes "publish pub topic (Payload (json_torrent t)) u = (u', r)" "t_info_hash t \<in> doc_ids view (u_coll u)"
  shows "spreads view u u'"
  using assms by (auto simp: publish_def Let_def spreads_def json_torrent_id split: outcome.splits)

lemma recover_publish_spreads:
  assumes "recover_publish pub ts ids u = (u', r)" "t_info_hash ` set ts \<subseteq> doc_ids view (u_coll u)"
  shows "spreads view u u' \<and> u_coll u' = u_coll u"
  using assms
proof (induction ts arbitrary: ids u)
  case (Cons t ts)
  obtain v x where v: "publish pub topic_new_torrent (Payload (json_torrent t)) u = (v, x)" by fastforce
  have s: "spreads view u v" "u_coll v = u_coll u"
    using publish_spreads [OF v] publish_frame [OF v] Cons.prems(2) by auto
  consider "u' = v" | "recover_publish pub ts (ids @ [t_info_hash t]) v = (u', r)"
    using Cons.prems(1) v by (auto simp: json_marshal_def split: outcome.splits)
  then show ?case
  proof cases
    case 2
    from Cons.IH [OF this] s Cons.prems(2) spreads_trans [OF s(1)] show ?thesis by auto
  qed (use s in simp)
qed (simp add: spreads_refl)

lemma updater_update_spreads:
  "doc_ids view db \<subseteq> doc_ids view (u_coll u) \<Longrightarrow> spreads view u (u\<lparr>u_coll := db\<rparr>)"
  by (simp add: spreads_def)

lemma handle_new_ids:
  assumes "handle_new_torrent scr msg u = (u', r)"
  shows "t_info_hash ` set (u_batch u') \<subseteq> payload_ids msg \<union> t_info_hash ` set (u_batch u)" "u_published u' = u_published u"
    "u_coll u' = u_coll u"
  using assms
  by (auto simp: handle_new_torrent_def json_unmarshal_def Let_def split: payload.splits outcome.splits if_splits)

context doc_store
begin

lemma handle_result_spreads: "spreads view u (handle_result C pub now rs u)"
proof (induction rs arbitrary: u)
  case (Cons r rs)
  show ?case
  proof (cases "find_one_and_update C (hex_encode (sr_info_hash r)) (tracker_update now r) (u_coll u)")
    case (Ok x)
    obtain t db where x: "x = (t, db)" by fastforce
    let ?u = "u\<lparr>u_coll := db\<rparr>"
    have ids: "doc_ids view db \<subseteq> doc_ids view (u_coll u)" "t_info_hash t \<in> doc_ids view (u_coll u)"
      using find_update_ids Ok x by auto
    obtain v y where v: "publish pub topic_tracker_updated (Payload (json_torrent t)) ?u = (v, y)" by fastforce
    have "spreads view u v"
      using ids v by (auto simp: publish_def Let_def spreads_def json_torrent_id split: outcome.splits)
    then have "spreads view u (handle_result C pub now rs v)"
      "spreads view u (handle_result C pub now rs (v\<lparr>u_events := e\<rparr>))" for e
      by (rule spreads_trans [OF _ Cons.IH], intro spreads_trans [OF _ Cons.IH]) simp
    then show ?thesis using Ok x v by (cases y) (auto simp: json_marshal_def Let_def)
  qed (simp_all add: Cons.IH)
qed (simp add: spreads_refl)

lemma get_records_frame:
  assumes "get_records C now n u = (u', r)"
  shows "\<exists>e. u' = u\<lparr>u_events := e\<rparr>"
  using assms by (auto simp: get_records_def split: outcome.splits if_splits intro: exI [of _ "u_events u"])

lemma refresh_body_spreads:
  assumes "refresh_body C clock scr now u = (records, u', r)"
  shows "spreads view u u'"
proof -
  obtain v x where v: "get_records C now (u_limit u) u = (v, x)" by fastforce
  obtain e where e: "v = u\<lparr>u_events := e\<rparr>" using get_records_frame [OF v] by blast
  from assms v show ?thesis
    by (auto simp: refresh_body_def e spreads_def Let_def split: outcome.splits prod.splits dest: update_many_ids)
qed

lemma fetch_one_spreads:
  assumes "fetch_one C clock scr now u = Some (u', r)"
  shows "spreads view u u'"
proof -
  obtain records v x where b: "refresh_body C clock scr now (u\<lparr>u_need_update := u_need_update u - 1\<rparr>) = (records, v, x)"
    by (metis prod_cases3)
  then have "spreads view u v" using refresh_body_spreads [OF b] by (simp add: spreads_def)
  with assms b show ?thesis
    by (auto simp: fetch_one_def refresh_tracker_def spreads_def split: if_splits)
qed

lemma recover_round_spreads:
  assumes "recover_round C clock pub u = x"
  shows "spreads view u (case x of Inl y \<Rightarrow> fst y | Inr v \<Rightarrow> v)"
proof (cases "find_many C untried (\<lambda>_. None) (u_limit u) (u_coll u)")
  case (Ok ts)
  obtain v y where v: "recover_publish pub ts [] u = (v, y)" by fastforce
  have s: "spreads view u v" "u_coll v = u_coll u"
    using recover_publish_spreads [OF v found_ids [OF Ok]] by auto
  have m: "spreads view u (v\<lparr>u_coll := db\<rparr>)" if "update_many C ids g (u_coll v) = Ok (n, db)" for ids g n db
    using s update_many_ids [OF that] by (auto simp: spreads_def)
  consider "x = Inl (u, Ok ())" | z where "x = Inl (v, z)"
    | ids n db where "x = Inr (v\<lparr>u_coll := db\<rparr>)" "update_many C ids (set_tried (clock (u_coll v))) (u_coll v) = Ok (n, db)"
    using assms Ok v by (auto simp: recover_round_def split: outcome.splits if_splits)
  then show ?thesis by cases (simp_all add: spreads_refl s m)
qed (use assms in \<open>auto simp: recover_round_def spreads_refl\<close>)

end

subsection \<open>The other services\<close>

lemma set_search_updated_id [simp]: "t_info_hash (set_search_updated t) = t_info_hash t"
  by (simp add: set_search_updated_def)

lemma settle_call_frame: "settle_call r c i = Ok i' \<Longrightarrow> i_batch i' = i_batch i \<and> i_indexed i' = i_indexed i"
  by (auto simp: settle_call_def split: outcome.splits)

lemma save_indexed:
  assumes "batch_save_to_index bulk ts i = (i', r)"
  shows "fst ` set (concat (i_indexed i')) \<subseteq> fst ` set (concat (i_indexed i)) \<union> t_info_hash ` set ts"
proof (cases "bulk (i_bulks i)")
  case (Ok taken)
  let ?reqs = "map (\<lambda>t. (t_info_hash t, t)) (map set_search_updated ts)"
  have "i_indexed i' = i_indexed i @ [taken_items taken ?reqs]" using assms Ok by (auto simp: batch_save_to_index_def Let_def)
  moreover have "fst ` set (taken_items taken ?reqs) \<subseteq> t_info_hash ` set ts"
    using taken_items_subset [of taken ?reqs] by (auto simp: image_iff) (metis (no_types, lifting) fst_conv imageE set_search_updated_id subsetD)
  ultimately show ?thesis by (auto simp del: set_concat)
qed (use assms in \<open>auto simp: batch_save_to_index_def Let_def simp del: set_concat\<close>)

lemma indexer_deliver_ids:
  assumes "indexer_deliver bulk ackr (tag, msg) i = Ok i'"
  shows "index_ids i' \<subseteq> payload_ids msg \<union> index_ids i"
proof (cases msg)
  case Garbage
  then have "settle_call ackr (Ack tag False) i = Ok i'" using assms by (simp add: indexer_deliver_def json_unmarshal_def)
  from settle_call_frame [OF this] show ?thesis by (simp add: index_ids_def)
next
  case (Payload t)
  let ?i = "i\<lparr>i_batch := i_batch i @ [t]\<rparr>"
  obtain j r where j: "batch_save_to_index bulk (i_batch ?i) ?i = (j, r)" by fastforce
  have "fst ` set (concat (i_indexed j)) \<subseteq> fst ` set (concat (i_indexed i)) \<union> t_info_hash ` set (i_batch i @ [t])"
    using save_indexed [OF j] by simp
  then have f: "fst ` set (concat (i_indexed j)) \<subseteq> payload_ids msg \<union> index_ids i"
    using Payload by (simp add: index_ids_def Un_commute del: set_concat)
  consider "i' = ?i" | x c k where "settle_call ackr c (j\<lparr>i_delayed_cursor := k\<rparr>) = Ok x" "i' = x\<lparr>i_batch := []\<rparr>"
    using assms Payload j by (auto simp: indexer_deliver_def json_unmarshal_def Let_def obind_eq_Ok
        split: outcome.splits if_splits) (metis indexer.surjective indexer.update_convs(3))
  then show ?thesis
  proof cases
    case 1
    with Payload show ?thesis by (auto simp: index_ids_def)
  next
    case 2
    have "index_ids i' = fst ` set (concat (i_indexed j))" using settle_call_frame [OF 2(1)] 2(2) by (simp add: index_ids_def)
    with f show ?thesis by simp
  qed
qed

context doc_store
begin

lemma flag_update_ids:
  "doc_ids view (i_coll (flag_update C i)) \<subseteq> doc_ids view (i_coll i)" "index_ids (flag_update C i) = index_ids i"
  using update_many_ids by (auto simp: flag_update_def index_ids_def Let_def split: list.splits outcome.splits)

lemma consume_ids:
  assumes "consume_new_torrent C msg p = (p', r)"
  shows "doc_ids view (p_coll p') \<subseteq> payload_ids msg \<union> doc_ids view (p_coll p)"
  using consume_new_torrent_Ok [OF assms] upsert_ids by fastforce

end

section \<open>The invariant\<close>

text \<open>What an operation of a service has to respect, with the identifiers that are known after it.\<close>

lemma known_frame:
  "pl_committed t = pl_committed s \<Longrightarrow> pl_announced t = pl_announced s \<Longrightarrow> known_ids sha1 decode t = known_ids sha1 decode s"
  by (simp add: known_ids_def)

text \<open>Known identifiers are UTF-8, so they are published as they are.\<close>

lemma known_coerced:
  assumes "pipeline_inv view sha1 decode s" "K \<subseteq> known_ids sha1 decode s"
  shows "coerce_utf8 ` K \<subseteq> known_ids sha1 decode s"
proof -
  have "valid_utf8 k" if "k \<in> K" for k
    using assms that by (auto simp: pipeline_inv_def known_ids_def list_all_iff verified_id_def)
  then have "coerce_utf8 ` K = K" by (force simp: image_iff)
  then show ?thesis using assms(2) by simp
qed

lemma inv_route:
  assumes "pipeline_inv view sha1 decode s" "message_ids (map snd ms) \<subseteq> known_ids sha1 decode s"
  shows "pipeline_inv view sha1 decode (route ms s)"
proof -
  have k: "known_ids sha1 decode (route ms s) = known_ids sha1 decode s" by (rule known_frame) (simp_all add: route_def)
  have "message_ids (on_topics topics ms) \<subseteq> known_ids sha1 decode s" for topics
    using on_topics_ids assms(2) by blast
  with assms(1) show ?thesis unfolding pipeline_inv_def k by (simp add: route_def)
qed

lemma inv_updater:
  assumes "pipeline_inv view sha1 decode s" "spreads view (updater_now s) u"
  shows "pipeline_inv view sha1 decode (s\<lparr>pl_updater := u, pl_db := u_coll u\<rparr>)"
proof -
  have k: "known_ids sha1 decode (s\<lparr>pl_updater := u, pl_db := u_coll u\<rparr>) = known_ids sha1 decode s"
    by (rule known_frame) simp_all
  show ?thesis using assms unfolding pipeline_inv_def k by (auto simp: spreads_def)
qed

lemma inv_updater_route:
  assumes "pipeline_inv view sha1 decode s" "spreads view (updater_now s) u"
  shows "pipeline_inv view sha1 decode
    (route (drop (length (u_published (pl_updater s))) (u_published u)) (s\<lparr>pl_updater := u, pl_db := u_coll u\<rparr>))"
proof (rule inv_route [OF inv_updater [OF assms]])
  obtain ms where "u_published u = u_published (pl_updater s) @ ms" "message_ids (map snd ms) \<subseteq> coerce_utf8 ` doc_ids view (pl_db s)"
    using assms(2) by (auto simp: spreads_def)
  moreover have "known_ids sha1 decode (s\<lparr>pl_updater := u, pl_db := u_coll u\<rparr>) = known_ids sha1 decode s"
    by (rule known_frame) simp_all
  ultimately show "message_ids (map snd (drop (length (u_published (pl_updater s))) (u_published u)))
      \<subseteq> known_ids sha1 decode (s\<lparr>pl_updater := u, pl_db := u_coll u\<rparr>)"
    using known_coerced [OF assms(1), of "doc_ids view (pl_db s)"] assms(1) by (auto simp: pipeline_inv_def)
qed

lemma inv_ocean:
  assumes "pipeline_inv view sha1 decode s" "doc_ids view (o_coll o') \<subseteq> set ids \<union> doc_ids view (pl_db s)" "list_all valid_utf8 ids"
  shows "pipeline_inv view sha1 decode (s\<lparr>pl_ocean := o', pl_db := o_coll o', pl_committed := pl_committed s @ ids\<rparr>)"
proof -
  let ?t = "s\<lparr>pl_ocean := o', pl_db := o_coll o', pl_committed := pl_committed s @ ids\<rparr>"
  have "known_ids sha1 decode ?t = set ids \<union> known_ids sha1 decode s" by (auto simp: known_ids_def)
  with assms show ?thesis by (auto simp: pipeline_inv_def)
qed

lemma inv_fetcher:
  assumes "pipeline_inv view sha1 decode s" "wanted_hashes f \<subseteq> set (pl_announced s) \<union> set hs"
  shows "pipeline_inv view sha1 decode (s\<lparr>pl_fetcher := f, pl_announced := pl_announced s @ hs\<rparr>)"
proof -
  have "known_ids sha1 decode s \<subseteq> known_ids sha1 decode (s\<lparr>pl_fetcher := f, pl_announced := pl_announced s @ hs\<rparr>)"
    by (auto simp: known_ids_def)
  with assms show ?thesis by (auto simp: pipeline_inv_def)
qed

lemma inv_fetcher_shrinks:
  assumes "pipeline_inv view sha1 decode s" "wanted_hashes f \<subseteq> wanted_hashes (pl_fetcher s)"
  shows "pipeline_inv view sha1 decode (s\<lparr>pl_fetcher := f\<rparr>)"
proof -
  have "wanted_hashes f \<subseteq> set (pl_announced s) \<union> set []" using assms by (auto simp: pipeline_inv_def)
  from inv_fetcher [OF assms(1) this] show ?thesis by simp
qed

lemma inv_messages:
  assumes "pipeline_inv view sha1 decode s" "known_ids sha1 decode t = known_ids sha1 decode s" "pl_committed t = pl_committed s"
    and "wanted_hashes (pl_fetcher t) \<subseteq> set (pl_announced t)" "doc_ids view (pl_db t) \<subseteq> known_ids sha1 decode s"
    and "t_info_hash ` set (u_batch (pl_updater t)) \<subseteq> known_ids sha1 decode s" "index_ids (pl_indexer t) \<subseteq> known_ids sha1 decode s"
    and "message_ids (pl_tracker_queue t @ pl_persist_queue t @ pl_index_queue t @ map snd (pl_unacked t)) \<subseteq> known_ids sha1 decode s"
  shows "pipeline_inv view sha1 decode t"
  using assms unfolding pipeline_inv_def by simp

context doc_store
begin

lemma inv_pull:
  assumes inv: "pipeline_inv view sha1 decode s" and run: "bt \<in># ex_running (f_executor (pl_fetcher s))"
    and pull: "pull_torrent B hash C sha1 dial decode peerID pub now bt (fetcher_now s) = Ok f"
    and fin: "worker_finish bt (f_executor f) = Some e"
  shows "pipeline_inv view sha1 decode (route (drop (length (f_published (pl_fetcher s))) (f_published f))
        (s\<lparr>pl_fetcher := f\<lparr>f_executor := e\<rparr>, pl_db := f_coll f\<rparr>))"
proof -
  let ?t = "s\<lparr>pl_fetcher := f\<lparr>f_executor := e\<rparr>, pl_db := f_coll f\<rparr>"
  let ?known = "known_ids sha1 decode s"
  have k: "known_ids sha1 decode ?t = ?known" by (rule known_frame) simp_all
  note eff = pull_effect [OF pull]
  have "bt_info_hash bt \<in> set (pl_announced s)" using inv run by (auto simp: pipeline_inv_def wanted_hashes_def)
  then have v: "verified_id sha1 decode (bt_info_hash bt) k \<Longrightarrow> k \<in> ?known" for k by (auto simp: known_ids_def)
  have inv_db: "doc_ids view (pl_db s) \<subseteq> ?known" using inv by (simp add: pipeline_inv_def)
  consider (none) "f_coll f = pl_db s" "f_published f = f_published (pl_fetcher s)"
    | (stored) t where "t_info_hash t \<in> ?known" "f_coll f = pl_db s \<or> upsert C t (pl_db s) = Ok (f_coll f)"
      "f_published f = f_published (pl_fetcher s) \<or> f_published f = f_published (pl_fetcher s) @ [(topic_new_torrent, Payload (json_torrent t))]"
    using eff v unfolding now_simps by blast
  then have "doc_ids view (f_coll f) \<subseteq> ?known
    \<and> message_ids (map snd (drop (length (f_published (pl_fetcher s))) (f_published f))) \<subseteq> ?known"
  proof cases
    case (stored t)
    then show ?thesis using inv_db upsert_ids [of t "pl_db s" "f_coll f"] known_coerced [OF inv, of "{t_info_hash t}"]
      by (auto simp: json_torrent_id)
  qed (use inv_db in simp)
  note db = this [THEN conjunct1] and ms = this [THEN conjunct2]
  have "wanted_hashes f = wanted_hashes (pl_fetcher s)" using eff by (simp add: wanted_hashes_def fetcher_now_def)
  then have "wanted_hashes (f\<lparr>f_executor := e\<rparr>) \<subseteq> set (pl_announced s)"
    using finish_wanted [OF fin] inv by (auto simp: pipeline_inv_def)
  then have "pipeline_inv view sha1 decode ?t"
    using inv db by (intro inv_messages [OF inv k]) (simp_all add: pipeline_inv_def)
  then show ?thesis using ms k by (intro inv_route) simp_all
qed

lemma pipeline_inv_step:
  assumes inv: "pipeline_inv view sha1 decode s" and step: "pipeline_step B hash C sha1 decode s t"
  shows "pipeline_inv view sha1 decode t"
  using step
proof cases
  case (pl_push req f)
  from fetcher_push_wanted [OF pl_push(2)] inv show ?thesis
    unfolding pl_push(1) by (intro inv_fetcher [OF inv]) (auto simp: pipeline_inv_def)
next
  case (pl_check f)
  from inv_fetcher_shrinks [OF inv] check_exist_wanted [OF pl_check(2)] show ?thesis by (simp add: pl_check(1))
next
  case (pl_receive e)
  from inv_fetcher_shrinks [OF inv receive_wanted [OF pl_receive(2)]] show ?thesis by (simp add: pl_receive(1))
next
  case (pl_pull bt dial peerID pub now f e)
  from inv_pull [OF inv pl_pull(2-4)] show ?thesis by (simp add: pl_pull(1))
next
  case (pl_serve env req o' r)
  have "list_all valid_utf8 (committed_ids req)" by (cases req) simp_all
  with inv_ocean [OF inv] serve_success_ids [OF pl_serve(3,2)] show ?thesis by (simp add: pl_serve(1))
next
  case (pl_new msg q scr u r)
  have k: "known_ids sha1 decode t = known_ids sha1 decode s" by (rule known_frame) (simp_all add: pl_new(1))
  have "t_info_hash ` set (u_batch u) \<subseteq> known_ids sha1 decode s"
    by (rule subset_trans [OF handle_new_ids(1) [OF pl_new(3)]]) (use inv pl_new(2) in \<open>simp add: pipeline_inv_def\<close>)
  with requeue_ids [of r msg q] inv pl_new(2) show ?thesis
    by (intro inv_messages [OF inv k]) (auto simp: pl_new(1) pipeline_inv_def)
next
  case (pl_result tpub now result u)
  with inv_updater_route [OF inv, of u] handle_result_spreads [of "updater_now s" tpub now result] show ?thesis by simp
next
  case (pl_fetch clock scr now u r)
  from inv_updater [OF inv fetch_one_spreads [OF pl_fetch(2)]] show ?thesis by (simp add: pl_fetch(1))
next
  case (pl_timer u)
  have k: "known_ids sha1 decode t = known_ids sha1 decode s" by (rule known_frame) (simp_all add: pl_timer(1))
  have "u_batch u = u_batch (pl_updater s)" using pl_timer(2) by (auto simp: timer_fires_def updater_now_def split: if_splits)
  with inv show ?thesis by (intro inv_messages [OF inv k]) (auto simp: pl_timer(1) pipeline_inv_def)
next
  case (pl_recover clock tpub x u)
  from inv_updater_route [OF inv, of u] recover_round_spreads [OF pl_recover(2)] pl_recover(3) show ?thesis
    by (simp add: pl_recover(1))
next
  case (pl_store msg q p r)
  have k: "known_ids sha1 decode t = known_ids sha1 decode s" by (rule known_frame) (simp_all add: pl_store(1))
  from consume_ids [OF pl_store(3)] requeue_ids [of r msg q] inv pl_store(2) show ?thesis
    by (intro inv_messages [OF inv k]) (auto simp: pl_store(1) pipeline_inv_def)
next
  case (pl_index msg q bulk ackr i un again)
  have k: "known_ids sha1 decode t = known_ids sha1 decode s" by (rule known_frame) (simp_all add: pl_index(1))
  from indexer_deliver_ids [OF pl_index(3)] broker_settle_ids [OF pl_index(4)] inv pl_index(2) show ?thesis
    by (intro inv_messages [OF inv k]) (auto simp: pl_index(1) pipeline_inv_def)
next
  case (pl_flag i)
  have k: "known_ids sha1 decode t = known_ids sha1 decode s" by (rule known_frame) (simp_all add: pl_flag(1))
  from flag_update_ids [of "indexer_now s"] inv pl_flag(2) show ?thesis
    by (intro inv_messages [OF inv k]) (auto simp: pl_flag(1) pipeline_inv_def)
qed

lemma pipeline_inv_init: "pipeline_begin view s \<Longrightarrow> pipeline_inv view sha1 decode s"
  by (auto simp: pipeline_begin_def pipeline_inv_def wanted_hashes_def executor_start_def new_executor_def known_ids_def
      doc_ids_def index_ids_def)

end

sublocale doc_store \<subseteq> pipe: inv_system "pipeline_begin view" "pipeline_step B hash C sha1 decode" "pipeline_inv view sha1 decode"
  for B hash sha1 decode
  by unfold_locales (rule pipeline_inv_init, assumption, rule pipeline_inv_step)

context doc_store
begin

lemma pipeline_reach_inv:
  "reach (pipeline_begin view) (pipeline_step B hash C sha1 decode) s \<Longrightarrow> pipeline_inv view sha1 decode s"
  by (rule pipe.reach_inv)

end

text \<open>A run: a hash is announced, fetched from a peer, stored, published and indexed.\<close>

definition demo_pipeline :: "(64 word list, torrent list) pipeline" where
  "demo_pipeline = \<lparr>pl_db = [], pl_fetcher = fetcher_start demo_fetcher,
     pl_updater = \<lparr>u_limit = 1, u_batch = [], u_coll = [], u_need_update = 0, u_timers = 0, u_scraped = [],
       u_calls = 0, u_published = [], u_events = [], u_stopped = False\<rparr>,
     pl_indexer = indexer_ready ''amqp'' 1 [],
     pl_persist = \<lparr>p_queue = ''db_persist'', p_prefetch = 1, p_handlers = [], p_coll = [], p_events = [],
       p_running = False, p_closed = False\<rparr>,
     pl_ocean = \<lparr>o_coll = [], o_events = []\<rparr>, pl_tracker_queue = [], pl_persist_queue = [], pl_index_queue = [],
     pl_unacked = [], pl_next_tag = 1, pl_announced = [], pl_committed = []\<rparr>"

lemma demo_pull_any:
  assumes "f_coll f = []" "f_bloom f = new_bloom_filter list_bitmap 1024"
  obtains f' t where "pull_torrent list_bitmap demo_hash list_coll (\<lambda>_. ''hash'') demo_dial demo_decode ''id'' (Ok ()) 5
       (set_traffic_metric_func (new_bit_torrent [] ''hash'' ''peer'')) f = Ok f'"
    "f_published f' = f_published f @ [(topic_new_torrent, Payload t)]" "f_executor f' = f_executor f"
proof -
  let ?bt = "set_traffic_metric_func (new_bit_torrent [] ''hash'' ''peer'')"
  let ?c = "case demo_dial ''peer'' of Ok c \<Rightarrow> c"
  have "bt_start demo_dial ?bt = Ok (?bt\<lparr>bt_conn := Some ?c\<rparr>)"
    by (simp add: bt_start_def demo_dial_def set_traffic_metric_func_def new_bit_torrent_def)
  then have "\<exists>f' t. pull_torrent list_bitmap demo_hash list_coll (\<lambda>_. ''hash'') demo_dial demo_decode ''id'' (Ok ()) 5 ?bt f = Ok f'
      \<and> f_published f' = f_published f @ [(topic_new_torrent, Payload t)] \<and> f_executor f' = f_executor f"
    using demo_peer_ok assms
    by (auto simp: pull_torrent_def demo_decode_def handle_torrent_def list_coll_def json_marshal_def
        event_def bloom_add_def get_locations_def new_bloom_filter_def Let_def)
  then show thesis using that by blast
qed

lemma demo_run:
  obtains s k where "reach (pipeline_begin (\<lambda>db. db)) (pipeline_step list_bitmap demo_hash list_coll (\<lambda>_. ''hash'') demo_decode) s"
    "k \<in> fst ` set (concat (i_indexed (pl_indexer s)))" "pl_committed s = []"
proof -
  let ?step = "pipeline_step list_bitmap demo_hash list_coll (\<lambda>_. ''hash'') demo_decode"
  let ?reach = "reach (pipeline_begin (\<lambda>db. db)) ?step"
  let ?bt = "set_traffic_metric_func (new_bit_torrent [] ''hash'' ''peer'')"
  let ?f0 = "fetcher_start demo_fetcher"
  let ?e0 = "f_executor ?f0"
  let ?e1 = "?e0\<lparr>ex_tasks := [?bt], ex_committed := [?bt]\<rparr>"
  let ?e2 = "?e1\<lparr>ex_tasks := [], ex_idle := 0, ex_running := {#?bt#}, ex_started := [?bt]\<rparr>"
  let ?s1 = "demo_pipeline\<lparr>pl_fetcher := ?f0\<lparr>f_executor := ?e1\<rparr>, pl_announced := [''hash'']\<rparr>"
  let ?s2 = "?s1\<lparr>pl_fetcher := ?f0\<lparr>f_executor := ?e2\<rparr>\<rparr>"
  note defs = demo_pipeline_def fetcher_start_def demo_fetcher_def executor_start_def new_executor_def
  have 0: "?reach demo_pipeline" by (rule reach_init) (auto simp: pipeline_begin_def defs indexer_ready_def)
  have "fetcher_push list_bitmap demo_hash \<lparr>treq_node_id = [], treq_info_hash = ''hash'', treq_addr = ''peer''\<rparr> (fetcher_now demo_pipeline)
      = Ok (Some (?f0\<lparr>f_executor := ?e1\<rparr>))"
    by (simp add: fetcher_push_def fetcher_now_def defs bloom_exists_def get_locations_def new_bloom_filter_def list_bitmap_def
        fetcher_commit_def commit_def queue_size_def set_traffic_metric_func_def new_bit_torrent_def Let_def upt_conv_Cons)
  from pl_push [OF this] have "?step demo_pipeline ?s1" by (simp add: defs)
  with 0 have 1: "?reach ?s1" by (rule reach_step)
  have "worker_receive (f_executor (pl_fetcher ?s1)) = Some ?e2" by (simp add: worker_receive_def defs)
  from pl_receive [OF this] have "?step ?s1 ?s2" by simp
  with 1 have 2: "?reach ?s2" by (rule reach_step)
  obtain f t where f: "pull_torrent list_bitmap demo_hash list_coll (\<lambda>_. ''hash'') demo_dial demo_decode ''id'' (Ok ()) 5 ?bt (fetcher_now ?s2) = Ok f"
    "f_published f = f_published (fetcher_now ?s2) @ [(topic_new_torrent, Payload t)]" "f_executor f = f_executor (fetcher_now ?s2)"
    by (rule demo_pull_any [of "fetcher_now ?s2"]) (simp_all add: fetcher_now_def defs)
  obtain e where e: "worker_finish ?bt (f_executor f) = Some e" using f(3) by (simp add: worker_finish_def)
  let ?s3 = "route [(topic_new_torrent, Payload t)] (?s2\<lparr>pl_fetcher := f\<lparr>f_executor := e\<rparr>, pl_db := f_coll f\<rparr>)"
  have "?step ?s2 ?s3" using pl_pull [OF _ f(1) e] f(2) by simp
  with 2 have 3: "?reach ?s3" by (rule reach_step)
  have q: "pl_index_queue ?s3 = [Payload t]" "pl_unacked ?s3 = []" "pl_next_tag ?s3 = 1" "pl_indexer ?s3 = indexer_ready ''amqp'' 1 []"
    "pl_committed ?s3 = []"
    by (simp_all add: route_def on_topics_def defs)
  obtain i where i: "indexer_deliver (\<lambda>_. Ok (\<lambda>_. True)) (Ok ()) (1, Payload t) (indexer_now ?s3) = Ok i"
    "t_info_hash t \<in> fst ` set (concat (i_indexed i))"
    using q(4) by (simp add: indexer_now_def indexer_deliver_def json_unmarshal_def indexer_ready_def batch_save_to_index_def taken_items_def settle_call_def Let_def)
  obtain un again where b: "broker_settle (drop (length (i_settled (pl_indexer ?s3))) (i_settled i)) [(1, Payload t)] = (un, again)"
    by fastforce
  have "?step ?s3 (?s3\<lparr>pl_indexer := i, pl_index_queue := [] @ again, pl_unacked := un, pl_next_tag := pl_next_tag ?s3 + 1\<rparr>)"
    by (rule pl_index [OF q(1)]) (use i(1) b q in simp_all)
  with 3 have "?reach (?s3\<lparr>pl_indexer := i, pl_index_queue := [] @ again, pl_unacked := un, pl_next_tag := pl_next_tag ?s3 + 1\<rparr>)"
    by (rule reach_step)
  then show thesis by (rule that [of _ "t_info_hash t"]) (use i(2) q in simp_all)
qed

section \<open>Properties\<close>

text \<open>
  Property C3. No torrent appears from nowhere: in every state that any interleaving of the fetcher and
  its workers, the tracker updater, the indexer, the persistence and the RPC service can reach, an
  identifier in the collection or in the index was stored at the start or committed over RPC, or it
  comes from metadata whose hash was announced to the crawler.
\<close>

theorem indexed_has_origin:
  assumes "doc_store C view" "reach (pipeline_begin view) (pipeline_step B hash C sha1 decode) s"
    and "k \<in> doc_ids view (pl_db s) \<or> k \<in> fst ` set (concat (i_indexed (pl_indexer s)))"
  shows "k \<in> set (pl_committed s) \<or> (\<exists>h \<in> set (pl_announced s). verified_id sha1 decode h k)"
proof -
  have "pipeline_inv view sha1 decode s" by (rule doc_store.pipeline_reach_inv [OF assms(1,2)])
  then have "k \<in> known_ids sha1 decode s" using assms(3) unfolding pipeline_inv_def index_ids_def by blast
  then show ?thesis by (simp add: known_ids_def)
qed

theorem indexed_has_origin_witness:
  "\<exists>s k. reach (pipeline_begin (\<lambda>db. db)) (pipeline_step list_bitmap demo_hash list_coll (\<lambda>_. ''hash'') demo_decode) s
     \<and> k \<in> fst ` set (concat (i_indexed (pl_indexer s)))
     \<and> (\<exists>h \<in> set (pl_announced s). verified_id (\<lambda>_. ''hash'') demo_decode h k)"
proof -
  obtain s k where r: "reach (pipeline_begin (\<lambda>db. db)) (pipeline_step list_bitmap demo_hash list_coll (\<lambda>_. ''hash'') demo_decode) s"
    and k: "k \<in> fst ` set (concat (i_indexed (pl_indexer s)))" "pl_committed s = []"
    by (rule demo_run)
  have "k \<in> set (pl_committed s) \<or> (\<exists>h \<in> set (pl_announced s). verified_id (\<lambda>_. ''hash'') demo_decode h k)"
    by (rule indexed_has_origin [OF ls.doc_store_axioms r]) (use k in blast)
  with r k show ?thesis by (intro exI [of _ s] exI [of _ k]) simp
qed

end
