(* ===== verification/Programs.thy ===== *)
theory Programs
  imports Torrent_Pipeline Crawler_System Proxy_Service Udp_Tracker
begin

text \<open>
  The programs: the service contexts (\<^verbatim>\<open>crawler/internal/svc/servicecontext.go\<close>, \<^verbatim>\<open>tracker/internal/svc/svc.go\<close>) and
  the \<^verbatim>\<open>main\<close> functions, up to the point where the services run. The configuration, the flags and what the
  constructors of library values return are arguments. The lemmas show that the services that these programs
  start form an initial state of the system of \<^verbatim>\<open>Torrent_Pipeline\<close> and of the crawler of \<^verbatim>\<open>Crawler_System\<close>.
\<close>

section \<open>Service contexts\<close>

text \<open>An error of a start-up call is logged and made a panic.\<close>

definition or_panic :: "'a outcome \<Rightarrow> 'a outcome" where
  "or_panic r = (case r of Ok x \<Rightarrow> Ok x | Err e \<Rightarrow> Panic ExplicitPanic | Panic p \<Rightarrow> Panic p)"

definition init_mongo :: "(string \<Rightarrow> string \<Rightarrow> unit outcome) \<Rightarrow> string \<Rightarrow> string \<Rightarrow> unit outcome" where
  "init_mongo setDefaultConfig dbName uri = setDefaultConfig dbName uri"

text \<open>What the libraries and the system return while the crawler starts.\<close>

record start_env =
  se_publisher :: "unit outcome"
  se_mongo :: "string \<Rightarrow> string \<Rightarrow> unit outcome"
  se_subscriber :: "unit outcome"
  se_router :: "unit outcome"
  se_node_id :: bytes
  se_listen :: "unit outcome"
  se_bootstrap :: "udp_addr outcome list"
  se_socks :: "(string \<Rightarrow> conn outcome) option outcome"
  se_bloom :: "bytes option outcome"

record crawler_program_config =
  cp_mongo :: string
  cp_prefetch :: int
  cp_crawler :: crawler_config
  cp_workers :: nat
  cp_max_queue :: nat

record ('bm, 'db) crawler_context =
  cx_persist :: "'db db_persist"
  cx_crawler :: crawler
  cx_fetcher :: "('bm, 'db) fetcher"

definition new_crawler_context ::
    "'bm bitmap_ops \<Rightarrow> start_env \<Rightarrow> crawler_program_config \<Rightarrow> 'db \<Rightarrow> ('bm, 'db) crawler_context outcome" where
  "new_crawler_context B env c db =
     obind (or_panic (se_publisher env)) (\<lambda>_.
     obind (or_panic (init_mongo (se_mongo env) ''dht_ocean'' (cp_mongo c))) (\<lambda>_.
     obind (or_panic (new_db_persist (se_subscriber env) (se_router env) (cp_prefetch c) db)) (\<lambda>persist.
     obind (inject_crawler (new_crawler (cp_crawler c) (se_node_id env) (se_listen env) (se_bootstrap env))) (\<lambda>crawler.
     obind (inject_torrent_fetcher (new_torrent_fetcher B (se_socks env) (se_bloom env) (cp_workers c) (cp_max_queue c) db)) (\<lambda>fetcher.
       Ok \<lparr>cx_persist = persist, cx_crawler = crawler, cx_fetcher = fetcher\<rparr>)))))"

text \<open>\<open>amqp\<close> is what connecting the updater to the broker returns.\<close>

record 'db tracker_context =
  tx_tracker :: udp_tracker
  tx_updater :: "'db updater"

definition new_tracker_context ::
    "unit outcome \<Rightarrow> udp_tracker_config \<Rightarrow> int \<Rightarrow> 'db \<Rightarrow> 'db tracker_context outcome" where
  "new_tracker_context amqp conf limit db =
     (let tr = new_udp_tracker conf
      in obind (or_panic (new_tracker_updater amqp limit db)) (\<lambda>updater.
           Ok \<lparr>tx_tracker = tr, tx_updater = updater\<rparr>))"

section \<open>Main functions\<close>

text \<open>The services that a program adds to its group, in order.\<close>

datatype program_service =
  CrawlerService | FetcherService | PersistService | UpdaterService | IndexerService | RpcService | StatsService | ProxyService

definition crawler_main ::
    "'bm bitmap_ops \<Rightarrow> start_env \<Rightarrow> crawler_program_config \<Rightarrow> 'db
     \<Rightarrow> (('bm, 'db) crawler_context \<times> program_service list) outcome" where
  "crawler_main B env c db =
     obind (new_crawler_context B env c db) (\<lambda>svcCtx. Ok (svcCtx, [CrawlerService, FetcherService, PersistService]))"

text \<open>
  The tracker program: with the flag it only recovers (\<^const>\<open>None\<close> is a recovery that does not end), otherwise
  the client is connected and the updater is run. \<open>dial\<close>, \<open>wr\<close> and \<open>tid\<close> are those of the connection.
\<close>

definition tracker_main ::
    "'db coll \<Rightarrow> ('db \<Rightarrow> time) \<Rightarrow> (nat \<Rightarrow> unit outcome) \<Rightarrow> unit outcome \<Rightarrow> unit outcome \<Rightarrow> unit outcome \<Rightarrow> unit outcome \<Rightarrow> 32 word
     \<Rightarrow> udp_tracker_config \<Rightarrow> int \<Rightarrow> bool \<Rightarrow> 'db \<Rightarrow> ('db tracker_context \<times> program_service list) outcome option" where
  "tracker_main C clock pub mongo amqp dial wr tid conf limit recoverFlag db =
     (case obind (or_panic mongo) (\<lambda>_. new_tracker_context amqp conf limit db) of
        Ok svcCtx \<Rightarrow>
          if recoverFlag
          then map_option (\<lambda>(u, r). obind (or_panic r) (\<lambda>_. Ok (svcCtx\<lparr>tx_updater := u\<rparr>, [])))
                 (recover C clock pub (tx_updater svcCtx))
          else (case tracker_start dial wr tid (tx_tracker svcCtx) of
                  (tr, r) \<Rightarrow> Some (obind (or_panic r) (\<lambda>_. Ok (svcCtx\<lparr>tx_tracker := tr\<rparr>, [UpdaterService]))))
      | Err e \<Rightarrow> Some (Err e)
      | Panic p \<Rightarrow> Some (Panic p))"

definition indexer_main ::
    "broker \<Rightarrow> unit outcome \<Rightarrow> unit outcome \<Rightarrow> string \<Rightarrow> int \<Rightarrow> 'db \<Rightarrow> ('db indexer \<times> program_service list) amqp" where
  "indexer_main reply mongo es uri batchSize db log =
     (case or_panic mongo of
        Ok _ \<Rightarrow> (case new_indexer reply es uri batchSize db log of
                  (log, r) \<Rightarrow> (log, obind (or_panic r) (\<lambda>i. Ok (i, [IndexerService]))))
      | Err e \<Rightarrow> (log, Err e)
      | Panic p \<Rightarrow> (log, Panic p))"

text \<open>The RPC program: with the flag it only builds the filter.\<close>

definition ocean_main ::
    "'bm bitmap_ops \<Rightarrow> (bytes \<Rightarrow> 64 word) \<Rightarrow> unit outcome \<Rightarrow> unit outcome \<Rightarrow> string list outcome \<Rightarrow> unit outcome
     \<Rightarrow> (bytes \<Rightarrow> bytes \<Rightarrow> bytes outcome) \<Rightarrow> bool \<Rightarrow> 'db \<Rightarrow> ('db ocean \<times> stats option \<times> bytes option \<times> program_service list) outcome" where
  "ocean_main B hash mongo es cursor create wr bloomFlag db =
     obind (new_service_context mongo es db) (\<lambda>svcCtx.
       if bloomFlag then obind (build_filter B hash cursor create wr) (\<lambda>out. Ok (svcCtx, None, out, []))
       else Ok (svcCtx, Some new_stats, None, [RpcService, StatsService]))"

definition proxy_main :: "string \<Rightarrow> nat \<Rightarrow> nat \<Rightarrow> proxy_server \<times> program_service list" where
  "proxy_main listen socketBuffer bufferSize =
     (new_proxy_server \<lparr>po_listen = listen, po_buffer_size = bufferSize, po_socket_buffer = socketBuffer\<rparr>, [ProxyService])"

section \<open>The started system\<close>

lemma or_panic_eq_Ok [simp]: "or_panic r = Ok x \<longleftrightarrow> r = Ok x"
  by (cases r) (simp_all add: or_panic_def)

lemma or_panic_not_Err [simp]: "or_panic r \<noteq> Err e"
  by (cases r) (simp_all add: or_panic_def)

lemma inject_eq_Ok [simp]: "inject_crawler r = Ok c \<longleftrightarrow> r = Ok c" "inject_torrent_fetcher q = Ok f \<longleftrightarrow> q = Ok f"
  by (cases r; simp add: inject_crawler_def) (cases q; simp add: inject_torrent_fetcher_def)

text \<open>The services of the four programs over one collection, before the first message.\<close>

definition assembled ::
    "'db \<Rightarrow> ('db \<Rightarrow> torrent list) \<Rightarrow> ('bm, 'db) crawler_context \<Rightarrow> 'db tracker_context \<Rightarrow> 'db indexer \<Rightarrow> 'db ocean \<Rightarrow> ('bm, 'db) pipeline" where
  "assembled db view cx tx i o' =
     \<lparr>pl_db = db, pl_fetcher = fetcher_start (cx_fetcher cx), pl_updater = tx_updater tx, pl_indexer = i, pl_persist = cx_persist cx,
      pl_ocean = o', pl_tracker_queue = [], pl_persist_queue = [], pl_index_queue = [], pl_unacked = [], pl_next_tag = 1,
      pl_announced = [], pl_committed = map t_info_hash (view db)\<rparr>"

lemma started_fetcher:
  assumes "new_torrent_fetcher B socks stat workers maxQueue db = Ok f"
  shows "f_unchecked f = []" "f_executor f = new_executor workers maxQueue"
  using assms by (auto simp: new_torrent_fetcher_def obind_eq_Ok split: option.splits)

lemma started_updater: "new_tracker_updater amqp limit db = Ok u \<Longrightarrow> u_batch u = []"
  by (auto simp: new_tracker_updater_def obind_eq_Ok split: if_splits)

lemma started_indexer:
  assumes "new_indexer reply es uri batchSize db log = (log', Ok i)"
  shows "i_batch i = []" "i_indexed i = []"
  using assms
  by (auto simp: new_indexer_def abind_def areturn_def Let_def split: if_splits outcome.splits prod.splits)

lemma started_crawler:
  assumes "crawler_main B env c db = Ok (cx, svcs)"
  shows "crawler_begin (sl_read (c_heap (cx_crawler cx)) (c_node_id (cx_crawler cx))) (cx_crawler cx)"
  using assms by (fastforce simp: crawler_main_def new_crawler_context_def obind_eq_Ok crawler_begin_def)

lemma assembled_begin:
  assumes "crawler_main B env c db = Ok (cx, svcs)" "new_tracker_context amqp conf limit db = Ok tx"
    and "indexer_main reply mongo es uri batchSize db log = (log', Ok (i, isvcs))"
    and "list_all (\<lambda>t. valid_utf8 (t_info_hash t)) (view db)"
  shows "pipeline_begin view (assembled db view cx tx i o')"
proof -
  obtain workers maxQueue where f: "f_unchecked (cx_fetcher cx) = []" "f_executor (cx_fetcher cx) = new_executor workers maxQueue"
    using assms(1) started_fetcher by (fastforce simp: crawler_main_def new_crawler_context_def obind_eq_Ok)
  have u: "u_batch (tx_updater tx) = []"
    using assms(2) started_updater by (fastforce simp: new_tracker_context_def obind_eq_Ok Let_def)
  obtain log2 where "new_indexer reply es uri batchSize db log = (log2, Ok i)"
    using assms(3) by (auto simp: indexer_main_def obind_eq_Ok split: outcome.splits prod.splits)
  from started_indexer [OF this] f u assms(4) show ?thesis
    by (auto simp: pipeline_begin_def assembled_def fetcher_start_def list_all_iff)
qed

end
