(* ===== verification/Program_Config.thy ===== *)
theory Program_Config
  imports Programs Announce_Store
begin

text \<open>
  The configurations of the programs: the structs of the \<^verbatim>\<open>internal/config\<close> packages with the tags that say
  what an absent field means, and the programs started from a configuration file. The loader is that of
  go-zero, with what the tags promise as the locale \<open>conf_loader\<close>. The lemmas show what a file that leaves the
  defaults alone configures, that the crawler it starts is ready for its first announcement, and which of
  the sample files of the repository are refused.
\<close>

section \<open>Fields and tags\<close>

datatype conf_value = ConfInt int | ConfString string | ConfList "string list"

datatype conf_kind = IntField | StringField | ListField

text \<open>A field without a tag must be present; \<^verbatim>\<open>optional\<close> leaves the zero value, \<^verbatim>\<open>default=\<close> sets its value.\<close>

datatype conf_tag = Required | Optional | Default conf_value

record conf_field =
  cf_name :: string
  cf_kind :: conf_kind
  cf_tag :: conf_tag

type_synonym conf_file = "(string \<times> conf_value) list"
type_synonym conf_values = "string \<Rightarrow> conf_value"

fun kind_of :: "conf_value \<Rightarrow> conf_kind" where
  "kind_of (ConfInt _) = IntField"
| "kind_of (ConfString _) = StringField"
| "kind_of (ConfList _) = ListField"

fun zero_value :: "conf_kind \<Rightarrow> conf_value" where
  "zero_value IntField = ConfInt 0"
| "zero_value StringField = ConfString []"
| "zero_value ListField = ConfList []"

definition required :: "string \<Rightarrow> conf_kind \<Rightarrow> conf_field" where
  "required name kind = \<lparr>cf_name = name, cf_kind = kind, cf_tag = Required\<rparr>"

definition optional :: "string \<Rightarrow> conf_kind \<Rightarrow> conf_field" where
  "optional name kind = \<lparr>cf_name = name, cf_kind = kind, cf_tag = Optional\<rparr>"

definition default :: "string \<Rightarrow> conf_value \<Rightarrow> conf_field" where
  "default name v = \<lparr>cf_name = name, cf_kind = kind_of v, cf_tag = Default v\<rparr>"

definition crawler_fields :: "conf_field list" where
  "crawler_fields =
     [required ''AMQP'' StringField, default ''AMQPPreFetch'' (ConfInt 64), required ''Mongo'' StringField,
      default ''DHTListen'' (ConfString '':6881''), required ''BootstrapNodes'' ListField,
      default ''FindNodeRateLimit'' (ConfInt 3000), default ''MaxQueueSize'' (ConfInt 3000), default ''SeenNodeTTL'' (ConfInt 300),
      default ''MaxSeenNodeSize'' (ConfInt 2048576), optional ''NodeID'' StringField, default ''TorrentWorkers'' (ConfInt 100),
      default ''TorrentMaxQueueSize'' (ConfInt 1000), default ''BloomFilterPath'' (ConfString ''bloom.json''),
      default ''ForceQuitSeconds'' (ConfInt 20), default ''CheckExistBatchSize'' (ConfInt 50), optional ''Socks5Proxy'' StringField,
      optional ''Proxy'' StringField, default ''ProxyBufSize'' (ConfInt 4096), default ''DecoderThreads'' (ConfInt 1),
      default ''HandlerThreads'' (ConfInt 1), default ''PacketQueueSize'' (ConfInt 2000)]"

definition tracker_fields :: "conf_field list" where
  "tracker_fields =
     [required ''AMQP'' StringField, default ''AMQPPreFetch'' (ConfInt 64), required ''Mongo'' StringField,
      required ''Tracker'' StringField, required ''TrackerLimit'' IntField, default ''TrackerQueueSize'' (ConfInt 200),
      default ''TrackerQueueTTL'' (ConfInt 30)]"

definition indexer_fields :: "conf_field list" where
  "indexer_fields =
     [required ''AMQP'' StringField, default ''AMQPPreFetch'' (ConfInt 64), required ''Mongo'' StringField,
      required ''ElasticSearch'' StringField, required ''BatchSize'' IntField]"

definition ocean_fields :: "conf_field list" where
  "ocean_fields =
     [required ''Mongo'' StringField, required ''ElasticSearch'' StringField, required ''IndexerBatchSize'' IntField,
      default ''BloomFilterPath'' (ConfString ''bloom.json'')]"

definition proxy_fields :: "conf_field list" where
  "proxy_fields =
     [required ''Listen'' StringField, default ''BufferSize'' (ConfInt 4096), default ''SocketBuffer'' (ConfInt 8192)]"

section \<open>The loader\<close>

text \<open>The value that the tag gives an absent field.\<close>

definition absent_value :: "conf_field \<Rightarrow> conf_value option" where
  "absent_value f = (case cf_tag f of Required \<Rightarrow> None | Optional \<Rightarrow> Some (zero_value (cf_kind f)) | Default v \<Rightarrow> Some v)"

text \<open>
  A loader that honours the tags: a loaded field has the value of the file, or if it is absent that of its
  tag; a field that must be present and is not is an error; and a file with values of the right kinds for
  all fields that must be present is loaded. The settings of the embedded structs of the library (the name of
  the service, its logs and metrics) are not among the fields: the file is taken to have what the library asks for.
\<close>

definition field_fits :: "conf_file \<Rightarrow> conf_field \<Rightarrow> bool" where
  "field_fits cfile f \<longleftrightarrow> (case map_of cfile (cf_name f) of None \<Rightarrow> cf_tag f \<noteq> Required | Some v \<Rightarrow> kind_of v = cf_kind f)"

definition required_names :: "conf_field list \<Rightarrow> string list" where
  "required_names fds = map cf_name (filter (\<lambda>f. cf_tag f = Required) fds)"

locale conf_loader =
  fixes load :: "conf_field list \<Rightarrow> conf_file \<Rightarrow> conf_values outcome"
  assumes loaded_present: "load fds cfile = Ok vals \<Longrightarrow> f \<in> set fds \<Longrightarrow> map_of cfile (cf_name f) = Some v \<Longrightarrow> vals (cf_name f) = v"
    and loaded_absent: "load fds cfile = Ok vals \<Longrightarrow> f \<in> set fds \<Longrightarrow> map_of cfile (cf_name f) = None \<Longrightarrow> absent_value f = Some (vals (cf_name f))"
    and loads: "list_all (field_fits cfile) fds \<Longrightarrow> distinct (map cf_name fds) \<Longrightarrow> is_ok (load fds cfile)"
begin

lemma missing_required:
  assumes "f \<in> set fds" "cf_tag f = Required" "map_of cfile (cf_name f) = None"
  shows "\<not> is_ok (load fds cfile)"
  using loaded_absent [OF _ assms(1,3)] assms(2) by (auto simp: is_ok_iff absent_value_def)

text \<open>So a file with values of the right kinds is loaded exactly if it has all settings that must be present.\<close>

lemma loads_iff:
  assumes "distinct (map cf_name fds)" "\<forall>f \<in> set fds. \<forall>v. map_of cfile (cf_name f) = Some v \<longrightarrow> kind_of v = cf_kind f"
  shows "is_ok (load fds cfile) \<longleftrightarrow> set (required_names fds) \<subseteq> fst ` set cfile"
proof
  assume "is_ok (load fds cfile)"
  then show "set (required_names fds) \<subseteq> fst ` set cfile"
    using missing_required by (fastforce simp: required_names_def map_of_eq_None_iff)
next
  assume r: "set (required_names fds) \<subseteq> fst ` set cfile"
  have "field_fits cfile f" if "f \<in> set fds" for f
  proof (cases "map_of cfile (cf_name f)")
    case None
    then have "cf_name f \<notin> fst ` set cfile" by (simp add: map_of_eq_None_iff)
    then show ?thesis using r that None by (auto simp: field_fits_def required_names_def)
  qed (use assms(2) that in \<open>simp add: field_fits_def\<close>)
  then show "is_ok (load fds cfile)" using loads assms(1) by (simp add: list_all_iff)
qed

lemma loaded_default:
  assumes "load fds cfile = Ok vals" "default name v \<in> set fds" "map_of cfile name = None"
  shows "vals name = v"
  using loaded_absent [OF assms(1,2)] assms(3) by (simp add: default_def absent_value_def)

lemma loaded_optional:
  assumes "load fds cfile = Ok vals" "optional name kind \<in> set fds" "map_of cfile name = None"
  shows "vals name = zero_value kind"
  using loaded_absent [OF assms(1,2)] assms(3) by (simp add: optional_def absent_value_def)

end

section \<open>The crawler's configuration\<close>

definition conf_int :: "conf_values \<Rightarrow> string \<Rightarrow> int" where
  "conf_int vals name = (case vals name of ConfInt k \<Rightarrow> k | _ \<Rightarrow> 0)"

definition conf_string :: "conf_values \<Rightarrow> string \<Rightarrow> string" where
  "conf_string vals name = (case vals name of ConfString s \<Rightarrow> s | _ \<Rightarrow> [])"

text \<open>\<^verbatim>\<open>MustSetUp\<close> of the crawler: after that of the library, the time to a forced exit, a duration in nanoseconds.\<close>

definition crawler_must_set_up :: "unit outcome \<Rightarrow> conf_values \<Rightarrow> 64 word outcome" where
  "crawler_must_set_up setUp vals = obind setUp (\<lambda>_. Ok (word_of_int (conf_int vals ''ForceQuitSeconds'') * 1000000000))"

text \<open>
  What the constructors of the crawler take from the configuration. A negative size of a channel makes
  \<^verbatim>\<open>make\<close> panic; a negative number of workers starts none. The sizes are looked at before the databases are
  reached: where both fail, the program ends with a panic in either order and only its message differs.
\<close>

definition crawler_settings :: "conf_values \<Rightarrow> crawler_program_config outcome" where
  "crawler_settings vals =
     (if conf_int vals ''PacketQueueSize'' < 0 \<or> conf_int vals ''MaxQueueSize'' < 0 \<or> conf_int vals ''MaxSeenNodeSize'' < 0
         \<or> conf_int vals ''TorrentMaxQueueSize'' < 0
      then Panic MakeOutOfRange
      else Ok \<lparr>cp_mongo = conf_string vals ''Mongo'', cp_prefetch = conf_int vals ''AMQPPreFetch'',
               cp_crawler = \<lparr>cc_node_id = conf_string vals ''NodeID'', cc_proxied = (conf_string vals ''Proxy'' \<noteq> []),
                 cc_packet_queue = nat (conf_int vals ''PacketQueueSize''), cc_max_queue = nat (conf_int vals ''MaxQueueSize''),
                 cc_seen_ttl = conf_int vals ''SeenNodeTTL'', cc_seen_size = nat (conf_int vals ''MaxSeenNodeSize'')\<rparr>,
               cp_workers = nat (conf_int vals ''TorrentWorkers''), cp_max_queue = nat (conf_int vals ''TorrentMaxQueueSize'')\<rparr>)"

text \<open>The crawler program from its file; \<open>setUp\<close> is what \<^verbatim>\<open>MustSetUp\<close> of the library does.\<close>

definition crawler_program ::
    "(conf_field list \<Rightarrow> conf_file \<Rightarrow> conf_values outcome) \<Rightarrow> unit outcome \<Rightarrow> 'bm bitmap_ops \<Rightarrow> start_env \<Rightarrow> conf_file \<Rightarrow> 'db
     \<Rightarrow> (('bm, 'db) crawler_context \<times> program_service list) outcome" where
  "crawler_program load setUp B env cfile db =
     obind (load crawler_fields cfile) (\<lambda>vals.
     obind (crawler_must_set_up setUp vals) (\<lambda>_.
     obind (crawler_settings vals) (\<lambda>c. crawler_main B env c db)))"

text \<open>The settings of the tracker's client and of the proxy server, and the sizes of the batches.\<close>

definition tracker_settings :: "conf_values \<Rightarrow> (udp_tracker_config \<times> int) outcome" where
  "tracker_settings vals =
     (if conf_int vals ''TrackerQueueSize'' < 0 then Panic MakeOutOfRange
      else Ok (\<lparr>conf_addr = conf_string vals ''Tracker'', conf_queue_size = nat (conf_int vals ''TrackerQueueSize''),
                conf_queue_ttl = conf_int vals ''TrackerQueueTTL''\<rparr>, conf_int vals ''TrackerLimit''))"

definition indexer_settings :: "conf_values \<Rightarrow> string \<times> int" where
  "indexer_settings vals = (conf_string vals ''AMQP'', conf_int vals ''BatchSize'')"

definition proxy_settings :: "conf_values \<Rightarrow> string \<times> int \<times> int" where
  "proxy_settings vals = (conf_string vals ''Listen'', conf_int vals ''SocketBuffer'', conf_int vals ''BufferSize'')"

text \<open>
  The programs from their files. The sizes of the proxy's buffers are taken as natural numbers. \<^verbatim>\<open>MustSetUp\<close> of these
  three is that of the library, which sets up logging and metrics.
\<close>

definition tracker_program ::
    "(conf_field list \<Rightarrow> conf_file \<Rightarrow> conf_values outcome) \<Rightarrow> 'db coll \<Rightarrow> ('db \<Rightarrow> time) \<Rightarrow> (nat \<Rightarrow> unit outcome)
     \<Rightarrow> unit outcome \<Rightarrow> unit outcome \<Rightarrow> unit outcome \<Rightarrow> unit outcome \<Rightarrow> 32 word \<Rightarrow> bool \<Rightarrow> conf_file \<Rightarrow> 'db
     \<Rightarrow> ('db tracker_context \<times> program_service list) outcome option" where
  "tracker_program load C clock pub mongo amqp dial wr tid recoverFlag cfile db =
     (case obind (load tracker_fields cfile) tracker_settings of
        Ok (conf, limit) \<Rightarrow> tracker_main C clock pub mongo amqp dial wr tid conf limit recoverFlag db
      | Err e \<Rightarrow> Some (Err e)
      | Panic p \<Rightarrow> Some (Panic p))"

definition indexer_program ::
    "(conf_field list \<Rightarrow> conf_file \<Rightarrow> conf_values outcome) \<Rightarrow> broker \<Rightarrow> unit outcome \<Rightarrow> unit outcome \<Rightarrow> conf_file \<Rightarrow> 'db
     \<Rightarrow> ('db indexer \<times> program_service list) amqp" where
  "indexer_program load reply mongo es cfile db log =
     (case load indexer_fields cfile of
        Ok vals \<Rightarrow> (case indexer_settings vals of (uri, batchSize) \<Rightarrow> indexer_main reply mongo es uri batchSize db log)
      | Err e \<Rightarrow> (log, Err e)
      | Panic p \<Rightarrow> (log, Panic p))"

definition proxy_program ::
    "(conf_field list \<Rightarrow> conf_file \<Rightarrow> conf_values outcome) \<Rightarrow> conf_file \<Rightarrow> (proxy_server \<times> program_service list) outcome" where
  "proxy_program load cfile =
     obind (load proxy_fields cfile) (\<lambda>vals.
       case proxy_settings vals of (listen, socketBuffer, bufferSize) \<Rightarrow> Ok (proxy_main listen (nat socketBuffer) (nat bufferSize)))"

section \<open>A loader\<close>

text \<open>A loader that keeps the promises, for the laws and for examples.\<close>

definition tag_value :: "conf_file \<Rightarrow> conf_field \<Rightarrow> conf_value" where
  "tag_value cfile f =
     (case map_of cfile (cf_name f) of Some v \<Rightarrow> v | None \<Rightarrow> (case absent_value f of Some v \<Rightarrow> v | None \<Rightarrow> zero_value (cf_kind f)))"

definition tag_loader :: "conf_field list \<Rightarrow> conf_file \<Rightarrow> conf_values outcome" where
  "tag_loader fds cfile =
     (if list_all (field_fits cfile) fds \<and> distinct (map cf_name fds)
      then Ok (\<lambda>name. case find (\<lambda>f. cf_name f = name) fds of Some f \<Rightarrow> tag_value cfile f | None \<Rightarrow> ConfInt 0)
      else Err (Errorf ''config''))"

lemma find_by_key:
  assumes "distinct (map g xs)" "x \<in> set xs"
  shows "find (\<lambda>y. g y = g x) xs = Some x"
  using assms by (induction xs) auto

lemma tag_loader_value:
  "tag_loader fds cfile = Ok vals \<Longrightarrow> f \<in> set fds \<Longrightarrow> vals (cf_name f) = tag_value cfile f \<and> field_fits cfile f"
  by (auto simp: tag_loader_def find_by_key list_all_iff split: if_splits)

interpretation tl: conf_loader tag_loader
proof unfold_locales
  fix fds cfile vals f assume l: "tag_loader fds cfile = Ok vals" "f \<in> set fds" and n: "map_of cfile (cf_name f) = None"
  show "absent_value f = Some (vals (cf_name f))"
    using tag_loader_value [OF l] n by (auto simp: tag_value_def absent_value_def field_fits_def split: conf_tag.splits)
qed (auto simp: tag_loader_def find_by_key tag_value_def split: if_splits)

section \<open>The crawler with its defaults\<close>

lemma crawler_fields_distinct: "distinct (map cf_name crawler_fields)"
  by (simp add: crawler_fields_def required_def optional_def default_def)

text \<open>A file that leaves a setting to its default.\<close>

definition leaves :: "string list \<Rightarrow> conf_file \<Rightarrow> bool" where
  "leaves names cfile \<longleftrightarrow> list_all (\<lambda>name. map_of cfile name = None) names"

definition ready_settings :: "string list" where
  "ready_settings = [''NodeID'', ''PacketQueueSize'', ''MaxQueueSize'', ''MaxSeenNodeSize'', ''TorrentWorkers'', ''TorrentMaxQueueSize'']"

lemma default_settings:
  assumes "conf_loader load" "load crawler_fields cfile = Ok vals" "leaves ready_settings cfile"
  obtains c where "crawler_settings vals = Ok c" "cc_node_id (cp_crawler c) = []" "cc_packet_queue (cp_crawler c) = 2000"
    "cc_max_queue (cp_crawler c) = 3000" "cc_seen_size (cp_crawler c) = 2048576" "cp_workers c = 100" "cp_max_queue c = 1000"
proof -
  note d = conf_loader.loaded_default [OF assms(1,2)] and o = conf_loader.loaded_optional [OF assms(1,2)]
  have n: "map_of cfile name = None" if "name \<in> set ready_settings" for name
    using assms(3) that by (simp add: leaves_def list_all_iff)
  have v: "vals ''PacketQueueSize'' = ConfInt 2000" "vals ''MaxQueueSize'' = ConfInt 3000" "vals ''MaxSeenNodeSize'' = ConfInt 2048576"
    "vals ''TorrentWorkers'' = ConfInt 100" "vals ''TorrentMaxQueueSize'' = ConfInt 1000" "vals ''NodeID'' = ConfString []"
    by (rule d, simp add: crawler_fields_def, rule n, simp add: ready_settings_def)+
      (use o [of "''NodeID''" StringField] n [of "''NodeID''"] in \<open>simp add: crawler_fields_def ready_settings_def\<close>)
  obtain c where c: "crawler_settings vals = Ok c" by (simp add: crawler_settings_def conf_int_def v)
  show thesis by (rule that [OF c]) (use c in \<open>auto simp: crawler_settings_def conf_int_def conf_string_def v\<close>)
qed

lemma filter_bits_nonzero: "(word_of_nat (target_count * 15) :: 64 word) \<noteq> 0"
  by (simp add: target_count_def)

lemma new_filter_empty:
  assumes "bitmap_laws B" "bits \<noteq> 0"
  shows "bloom_exists B hash (new_bloom_filter B bits) d = Ok False"
proof -
  have "locs hash (new_bloom_filter B bits) d \<noteq> {}" by (simp add: locs_def new_bloom_filter_def lessThan_empty_iff)
  then show ?thesis using assms by (auto simp: bloom_exists_iff new_bloom_filter_def bitmap_laws_def)
qed

lemma new_crawler_ready:
  assumes "new_crawler conf gen listen addrs = Ok c" "cc_node_id conf = []" "length gen = 20"
  shows "own_id_ok c" "c_raw c = []" "c_decoded c = []" "c_out c = []" "c_packet_cap c = cc_packet_queue conf"
  using assms by (auto simp: new_crawler_def set_bootstrap_nodes_def own_id_ok_def slice_wf_def alloc_def obind_eq_Ok)

lemma new_fetcher_without_file:
  assumes "new_torrent_fetcher B socks (Ok None) workers maxQueue db = Ok f"
  shows "f_bloom f = new_bloom_filter B (word_of_nat (target_count * 15))" "f_executor f = new_executor workers maxQueue"
    "f_max_queue f = maxQueue"
  using assms by (auto simp: new_torrent_fetcher_def obind_eq_Ok)

lemma crawler_program_parts:
  assumes "crawler_program load setUp B env cfile db = Ok (cx, svcs)"
  obtains vals c where "load crawler_fields cfile = Ok vals" "crawler_settings vals = Ok c"
    "new_crawler (cp_crawler c) (se_node_id env) (se_listen env) (se_bootstrap env) = Ok (cx_crawler cx)"
    "new_torrent_fetcher B (se_socks env) (se_bloom env) (cp_workers c) (cp_max_queue c) db = Ok (cx_fetcher cx)"
    "svcs = [CrawlerService, FetcherService, PersistService]"
  using assms
  by (fastforce simp: crawler_program_def crawler_main_def new_crawler_context_def obind_eq_Ok)

section \<open>Settings that are refused, and one that is not\<close>

text \<open>What each program insists on. The sample files of the tracker and of the indexer do not have \<^verbatim>\<open>AMQP\<close>.\<close>

lemma required_settings:
  "required_names crawler_fields = [''AMQP'', ''Mongo'', ''BootstrapNodes'']"
  "required_names tracker_fields = [''AMQP'', ''Mongo'', ''Tracker'', ''TrackerLimit'']"
  "required_names indexer_fields = [''AMQP'', ''Mongo'', ''ElasticSearch'', ''BatchSize'']"
  "required_names ocean_fields = [''Mongo'', ''ElasticSearch'', ''IndexerBatchSize'']"
  "required_names proxy_fields = [''Listen'']"
  by (simp_all add: required_names_def crawler_fields_def tracker_fields_def indexer_fields_def ocean_fields_def proxy_fields_def
      required_def optional_def default_def)

lemma broker_address_required:
  assumes "conf_loader load" "map_of cfile ''AMQP'' = None"
  shows "\<not> is_ok (load tracker_fields cfile)" "\<not> is_ok (load indexer_fields cfile)" "\<not> is_ok (load crawler_fields cfile)"
  by (rule conf_loader.missing_required [OF assms(1), of "required ''AMQP'' StringField"],
      simp add: tracker_fields_def indexer_fields_def crawler_fields_def, simp add: required_def, simp add: required_def assms(2))+

text \<open>The queue of the tracker's client with its defaults: two hundred requests, which wait at most thirty seconds.\<close>

lemma default_tracker_queue:
  assumes "conf_loader load" "load tracker_fields cfile = Ok vals" "leaves [''TrackerQueueSize'', ''TrackerQueueTTL''] cfile"
  shows "tracker_settings vals = Ok (\<lparr>conf_addr = conf_string vals ''Tracker'', conf_queue_size = 200, conf_queue_ttl = 30\<rparr>, conf_int vals ''TrackerLimit'')"
proof -
  have "vals ''TrackerQueueSize'' = ConfInt 200" "vals ''TrackerQueueTTL'' = ConfInt 30"
    by (rule conf_loader.loaded_default [OF assms(1,2)], simp add: tracker_fields_def, use assms(3) in \<open>simp add: leaves_def\<close>)+
  then show ?thesis by (simp add: tracker_settings_def conf_int_def)
qed

text \<open>A negative batch size stops the tracker and the indexer while they start, before they have asked the broker for anything.\<close>

lemma negative_batch_panics:
  assumes "load tracker_fields cfile = Ok vals" "conf_int vals ''TrackerLimit'' < 0"
  shows "\<exists>p. tracker_program load C clock pub (Ok ()) amqp dial wr tid recoverFlag cfile db = Some (Panic p)"
  using assms
  by (auto simp: tracker_program_def tracker_settings_def tracker_main_def new_tracker_context_def new_tracker_updater_def or_panic_def Let_def)

lemma negative_index_batch_panics:
  assumes "load indexer_fields cfile = Ok vals" "conf_int vals ''BatchSize'' < 0"
  shows "indexer_program load reply (Ok ()) es cfile db log = (log, Panic MakeOutOfRange)"
  using assms by (simp add: indexer_program_def indexer_settings_def indexer_main_def new_indexer_def or_panic_def)

lemma default_proxy_buffers:
  assumes "conf_loader load" "load proxy_fields cfile = Ok vals" "leaves [''BufferSize'', ''SocketBuffer''] cfile"
  shows "proxy_program load cfile = Ok (proxy_main (conf_string vals ''Listen'') 8192 4096)"
proof -
  have "vals ''BufferSize'' = ConfInt 4096" "vals ''SocketBuffer'' = ConfInt 8192"
    by (rule conf_loader.loaded_default [OF assms(1,2)], simp add: proxy_fields_def, use assms(3) in \<open>simp add: leaves_def\<close>)+
  then show ?thesis using assms(2) by (simp add: proxy_program_def proxy_settings_def conf_int_def)
qed

lemma negative_size_panics:
  assumes "load crawler_fields cfile = Ok vals" "conf_int vals ''PacketQueueSize'' < 0"
  shows "crawler_program load (Ok ()) B env cfile db = Panic MakeOutOfRange"
  using assms by (simp add: crawler_program_def crawler_must_set_up_def crawler_settings_def)

text \<open>
  A configured identifier that is not hexadecimal is logged and the crawler is made with no identifier. It
  crashes when it takes its first bootstrap node.
\<close>

lemma bad_node_id_crashes:
  assumes "new_crawler conf gen (Ok ()) addrs = Ok c" "cc_node_id conf \<noteq> []" "\<not> is_ok (hex_decode (cc_node_id conf))"
    and "c_bootstrap c \<noteq> []" "length (c_bootstrap c) \<le> cc_max_queue conf"
  shows "\<exists>c1. bootstrap_tick fetching c = Done c1 \<and> neighbour_one target c1 = Crash SliceOutOfRange"
proof -
  have c: "c_node_id c = nil_slice" "c_neighbours c = []" "c_neighbours_cap c = cc_max_queue conf"
    "\<forall>n \<in> set (c_bootstrap c). node_id n = nil_slice"
    using assms(1-3)
    by (auto simp: new_crawler_def set_bootstrap_nodes_def is_ok_iff split: outcome.splits)
  obtain n ns where n: "c_bootstrap c = n # ns" using assms(4) by (cases "c_bootstrap c") auto
  let ?c = "(queue_gauges fetching c)\<lparr>c_neighbours := n # ns\<rparr>"
  have "bootstrap_tick fetching c = Done ?c"
    using c(2,3) n assms(5) by (simp add: bootstrap_tick_def queue_gauges_def metric_def Let_def)
  moreover have "neighbour_one target ?c = Crash SliceOutOfRange"
    using c(1,4) n by (simp add: neighbour_one_def get_neighbour_id_def reslice_def nil_slice_def run_outcome_def queue_gauges_def metric_def Let_def)
  ultimately show ?thesis by blast
qed

section \<open>Properties\<close>



end
