(* ===== verification/Spec2Isabelle.thy ===== *)
theory Spec2Isabelle
  imports Go_Base Go_Map Go_Binary Go_Utf8 Go_Slice Step_System Proto_Wire Bencode Bencode_Layout Bencode_Grammar Lrw_Cache Bloom_Filter Executor_Queue
    Dht_Krpc Dht_Print Net_Addr Bittorrent_Peer Udp_Tracker Scrape_Service Proxy_Udp Proxy_Service Torrent_Model
    Doc_Collection Torrent_Fetcher Db_Persist Crawler Crawler_System Crawler_Datagrams Crawler_Crashes Bootstrap_Race
    Announce_Store Amqp_Client Tracker_Updater Indexer Ocean_Logic Ocean_Server Ocean_Wire Ocean_Client Search_Path
    Torrent_Pipeline Programs Program_Config
begin

text \<open>
  A verification development of \<^verbatim>\<open>dht-ocean\<close>, a crawler of the BitTorrent DHT with its storage, tracker,
  index and search services, all in Go.

  \<^bold>\<open>The program and how its parts interact.\<close> The crawler (\<^verbatim>\<open>crawler/\<close>) speaks KRPC over UDP: it asks nodes
  for more nodes, answers their queries, and turns every announced peer into a request to the torrent
  fetcher, which drops hashes it has, downloads the metadata from the peer, checks its hash, stores the
  torrent and publishes it on the message bus. The tracker service (\<^verbatim>\<open>tracker/\<close>) collects published
  torrents, scrapes a UDP tracker for their seeders and leechers, updates the documents and publishes them
  again. The indexer (\<^verbatim>\<open>indexer/\<close>) writes published torrents to the search index. The RPC service
  (\<^verbatim>\<open>ocean/\<close>) answers queries on the collection and the index, and can build the filter the crawler starts
  from. The proxy (\<^verbatim>\<open>proxy/\<close>) carries the crawler's datagrams over a TCP stream. \<^verbatim>\<open>common/\<close> holds what they share.

  \<^bold>\<open>Theories.\<close>
  \<^item> \<^verbatim>\<open>Go_Base\<close>, \<^verbatim>\<open>Go_Map\<close>, \<^verbatim>\<open>Go_Binary\<close>, \<^verbatim>\<open>Go_Utf8\<close>, \<^verbatim>\<open>Go_Slice\<close>, \<^verbatim>\<open>Step_System\<close>: the prelude. The three ends of a Go
    call (value, error, panic) are the type \<^typ>\<open>'a outcome\<close>; maps are sorted association lists; integers of
    fixed width are words; slices are windows into a store of arrays, so that aliasing is visible; strings are bytes, with the ones that
    are UTF-8 and the replacement of the others. The locales
    \<open>codec\<close>, \<open>fixed_codec\<close> (round trips of binary formats), \<open>inv_system\<close> (invariants of step relations) and
    \<open>refinement\<close> (a step relation that implements a specification) are the interfaces the components instantiate.
  \<^item> \<^verbatim>\<open>Bencode\<close>, \<^verbatim>\<open>Bencode_Layout\<close>, \<^verbatim>\<open>Bencode_Grammar\<close>: \<^verbatim>\<open>common/bencode\<close>, encoder, decoder and path lookup. Round trip, safety of the
    decoder on every input, progress of its loops, the one kind of input that panics; the slices of a decoded dictionary do not
    overlap; and the language of the decoder as an inductive grammar, with the value each text stands for: the
    decoder accepts exactly that language, which contains what the encoder writes and also texts cut off at the end.
  \<^item> \<^verbatim>\<open>Lrw_Cache\<close>, \<^verbatim>\<open>Bloom_Filter\<close>, \<^verbatim>\<open>Executor_Queue\<close>: \<^verbatim>\<open>common/util\<close> and \<^verbatim>\<open>common/executor\<close>. The cache's token
    channel and timers as a step relation, with what keeps its deletes from waiting and the schedule that makes them wait; the
    exact meaning of the filter's answers and its file format; order and completeness of the executor's queue.
  \<^item> \<^verbatim>\<open>Dht_Krpc\<close>, \<^verbatim>\<open>Dht_Print\<close>: \<^verbatim>\<open>common/dht\<close>, packets, queries, transactions and the text form of a packet. Packet round
    trip, parsing of compact nodes, what \<^const>\<open>get_neighbour_id\<close> writes into the packet it reads from, distinct
    transaction identifiers.
  \<^item> \<^verbatim>\<open>Bittorrent_Peer\<close>: \<^verbatim>\<open>common/bittorrent/core.go\<close>. Whatever a peer sends, metadata that is returned has the
    requested hash; an honest peer's metadata is returned, for every size.
  \<^item> \<^verbatim>\<open>Udp_Tracker\<close>, \<^verbatim>\<open>Scrape_Service\<close>: \<^verbatim>\<open>common/bittorrent/tracker\<close>. Wire formats, the client with its callers and its
    receiving goroutine as a step relation, and the scrape service it refines: every answer is for the hashes of one
    request, in their order, and no request is answered twice.
  \<^item> \<^verbatim>\<open>Proxy_Udp\<close>, \<^verbatim>\<open>Proxy_Service\<close>: \<^verbatim>\<open>proxy/\<close>. Framing round trips, datagrams from client to server, buffered writes; the
    accept loop and which clients it serves.
  \<^item> \<^verbatim>\<open>Torrent_Model\<close>, \<^verbatim>\<open>Doc_Collection\<close>: \<^verbatim>\<open>common/model\<close>, the messages, and the document collection: the locales
    \<open>doc_collection\<close> and \<open>doc_store\<close> state what its clients rely on and are interpreted on a collection in memory; the
    identifier hooks that the document library calls. A payload is the JSON text of a torrent, in which bytes that are not UTF-8
    have been replaced.
  \<^item> \<^verbatim>\<open>Torrent_Fetcher\<close>, \<^verbatim>\<open>Db_Persist\<close>: \<^verbatim>\<open>crawler/internal/svc/torrent_fetcher.go\<close>, \<^verbatim>\<open>persist.go\<close>. A stored torrent was verified and is
    not fetched again, the key of the metadata that overrides its identifier, and what persisting an older message undoes.
  \<^item> \<^verbatim>\<open>Net_Addr\<close>, \<^verbatim>\<open>Crawler\<close>, \<^verbatim>\<open>Crawler_System\<close>, \<^verbatim>\<open>Crawler_Datagrams\<close>: \<^verbatim>\<open>crawler/internal/svc/crawler.go\<close>. The handlers, the nodes a
    response queues; the goroutines as a step relation whose states are well typed and record only metrics that
    were registered; queries from the bytes of the datagram to the response and the request.
  \<^item> \<^verbatim>\<open>Crawler_Crashes\<close>: exactly which datagrams crash the crawler, as an equivalence between a panic in one of its loops and a
    property of the bytes received.
  \<^item> \<^verbatim>\<open>Bootstrap_Race\<close>: the goroutines of \<^verbatim>\<open>SetBootstrapNodes\<close>, which append to one slice without a lock, as a step relation whose
    steps are the load, the write and the store of an append: nodes can be lost, and nothing worse happens.
  \<^item> \<^verbatim>\<open>Announce_Store\<close>: an announced torrent is stored, from the datagram to the collection.
  \<^item> \<^verbatim>\<open>Amqp_Client\<close>, \<^verbatim>\<open>Indexer\<close>: \<^verbatim>\<open>common/amqp/client.go\<close>, \<^verbatim>\<open>indexer/internal/svc/indexer.go\<close>. If the index
    takes every item of a bulk request, no delivery is acknowledged before it is indexed, and one refused item shows why the
    condition is needed. The prefetch the indexer sets always lets it fill a batch; deliveries are indexed in whole batches, and the
    rest waits.
  \<^item> \<^verbatim>\<open>Tracker_Updater\<close>, \<^verbatim>\<open>Ocean_Logic\<close>, \<^verbatim>\<open>Ocean_Server\<close>: \<^verbatim>\<open>tracker/internal/svc/tracker.go\<close>, \<^verbatim>\<open>ocean/internal\<close> and the filter
    construction of \<^verbatim>\<open>ocean/ocean.go\<close>. Batches, refresh and recovery of the tracker service; what the RPCs answer, and what
    a run of them changes.
  \<^item> \<^verbatim>\<open>Proto_Wire\<close>, \<^verbatim>\<open>Ocean_Wire\<close>: the wire format of protocol buffers, which is the instance on which the connection is interpreted, and the
    messages of \<^verbatim>\<open>ocean/ocean/ocean.pb.go\<close> with the field numbers and kinds of their tags. Each message is an instance of
    the locale \<open>proto_message\<close>; what can be written is read back.
  \<^item> \<^verbatim>\<open>Ocean_Client\<close>: \<^verbatim>\<open>ocean/oceanclient/ocean.go\<close> and \<^verbatim>\<open>ocean/ocean/ocean_grpc.pb.go\<close>. The client, the generated stubs, the handlers
    and the service descriptor, with the connection between them as the locale \<open>grpc_connection\<close>: a run of client calls is a run
    of the server on some of them, and the answers that arrive are the server's.
  \<^item> \<^verbatim>\<open>Search_Path\<close>: a fetched torrent can be found, from its publication over the indexer and the search service to the client.
  \<^item> \<^verbatim>\<open>Torrent_Pipeline\<close>: the services over one collection and the message bus as a step relation: no identifier appears
    in the collection or the index without an origin. The locale \<open>doc_store\<close> gives the contract \<open>inv_system\<close> by a \<open>sublocale\<close>.
  \<^item> \<^verbatim>\<open>Programs\<close>: the service contexts and the main functions; what they start is an initial state of that system.
  \<^item> \<^verbatim>\<open>Program_Config\<close>: the configuration structs with their tags (\<^verbatim>\<open>*/internal/config/config.go\<close>) and the programs started from a
    file, over a loader that honours the tags (the locale \<open>conf_loader\<close>): which settings must be present, what the defaults
    configure, and that a crawler with its defaults meets the conditions under which \<^verbatim>\<open>Announce_Store\<close> stores a torrent.
  \<^item> this theory: the properties that span components.

  \<^bold>\<open>State and operations.\<close> A struct is a record with the fields of the source (prefixed), an operation is a
  definition with the name of the Go function in lower case. A method that changes its receiver returns the
  changed record. A channel is the list of its elements with its capacity; an operation that would wait
  returns \<^const>\<open>None\<close> (or \<^const>\<open>Wait\<close>). A goroutine with a loop is one definition per iteration, and where
  the order of goroutines matters an inductive step relation interleaves them. Metrics that are counted
  are logged in the state.

  \<^bold>\<open>What is a parameter.\<close> Third-party packages and services are arguments: the hash functions, the bitmap
  (\<^const>\<open>bitmap_laws\<close>), the collection (\<^const>\<open>coll_laws\<close>, \<open>doc_collection\<close>, \<open>doc_store\<close>), the decoder of metadata into a struct, the
  search service, the message bus and the broker, the gRPC connection (\<open>grpc_connection\<close>), the loader of
  configuration files (\<open>conf_loader\<close>), and whatever a socket, file or clock returns. The laws are their
  documented behaviour, and each is shown to hold of a concrete instance.

  \<^bold>\<open>Loops and fuel.\<close> The decoder's loops recurse on the part of the input that is left: a guard that the
  position has advanced makes the recursion well-founded, and it is shown always to hold
  (\<^verbatim>\<open>decoder_loops_advance\<close>). \<^const>\<open>handler_send\<close> takes the number of datagrams to forward. \<^const>\<open>recover\<close> may run forever
  and is a partial function; it is proved to return. \<^const>\<open>uc_set_deadline\<close> calls itself and is proved not to. All other loops
  recurse on a list.

  \<^bold>\<open>Not modelled.\<close> The reflection tables, \<^verbatim>\<open>Reset\<close> and the accessors of the generated protobuf messages. Reading and parsing a configuration
  file, and the settings that belong to the libraries. Logging, the registration of metrics outside the crawler, histograms, deadlines of
  sockets (a deadline is one of the errors a read may return), the rate limiter, and data races other than the one of \<^verbatim>\<open>Bootstrap_Race\<close>: an
  operation under a lock is one step. A JSON text is represented by the torrent it stands for.
\<close>

section \<open>The filter the service builds\<close>

lemma ocean_filter_size: "(word_of_nat (ocean_target_count * 15) :: 64 word) \<noteq> 0"
  by (simp add: ocean_target_count_def)

text \<open>A fetcher started on the saved filter of the service has that filter.\<close>

lemma fetcher_loads:
  assumes "bitmap_laws B" "bloom_save B (\<lambda>out bs. Ok (out @ bs)) bf [] = Ok out"
  shows "\<exists>f. new_torrent_fetcher B (Ok None) (Ok (Some out)) workers maxQueue db = Ok f
     \<and> f_bloom f = bf \<and> f_unchecked f = []"
proof -
  have "bm_read B (bm_write B bm) = Ok (bm, [])" for bm
    using assms(1) unfolding bitmap_laws_def by (metis append_Nil2)
  with assms(2) show ?thesis
    by (auto simp: bloom_save_def load_bloom_filter_def new_torrent_fetcher_def byte_roundtrip)
qed

text \<open>
  Property C29. The filter that the RPC service builds from the collection works in the crawler: building it
  succeeds, a fetcher started on the file loads it, and a request for any stored torrent is then put
  aside for the check against the collection instead of being fetched.
\<close>

theorem built_filter_spares_stored:
  assumes "bitmap_laws B" "hex_encode (treq_info_hash req) \<in> set ids"
  shows "\<exists>out f. build_filter B hash (Ok ids) (Ok ()) (\<lambda>out bs. Ok (out @ bs)) = Ok (Some out)
     \<and> new_torrent_fetcher B (Ok None) (Ok (Some out)) workers maxQueue db = Ok f
     \<and> fetcher_push B hash req f = Ok (Some (f\<lparr>f_unchecked := [req]\<rparr>))"
proof -
  let ?f0 = "new_bloom_filter B (word_of_nat (ocean_target_count * 15))"
  have m: "bf_m ?f0 \<noteq> 0" using ocean_filter_size by (simp add: new_bloom_filter_def)
  obtain g where g: "build_filter_loop B hash ids ?f0 = Ok g" "bf_m g = bf_m ?f0" "bf_k g = bf_k ?f0"
    "\<forall>x \<in> locs hash ?f0 (treq_info_hash req). bm_contains B (bf_keys g) x"
    using build_filter_loop_ok [OF assms(1) m, of hash ids] assms(2) by (metis hex_decode_encode)
  have ex: "bloom_exists B hash g (treq_info_hash req) = Ok True"
    using g m locs_cong [of g ?f0] by (simp add: bloom_exists_iff)
  obtain out where out: "bloom_save B (\<lambda>out bs. Ok (out @ bs)) g [] = Ok out" by (simp add: bloom_save_def)
  obtain f where f: "new_torrent_fetcher B (Ok None) (Ok (Some out)) workers maxQueue db = Ok f" "f_bloom f = g"
    "f_unchecked f = []"
    using fetcher_loads [OF assms(1) out, of workers maxQueue db] by blast
  have "build_filter B hash (Ok ids) (Ok ()) (\<lambda>out bs. Ok (out @ bs)) = Ok (Some out)"
    using g(1) out by (simp add: build_filter_def)
  moreover have "fetcher_push B hash req f = Ok (Some (f\<lparr>f_unchecked := [req]\<rparr>))"
    using ex f(2,3) by (simp add: fetcher_push_def unchecked_capacity_def)
  ultimately show ?thesis using f(1) by blast
qed

theorem built_filter_spares_stored_witness:
  "\<exists>out f. build_filter list_bitmap (\<lambda>d. of_nat (length d)) (Ok [''zz'', ''6162'']) (Ok ()) (\<lambda>out bs. Ok (out @ bs)) = Ok (Some out)
     \<and> new_torrent_fetcher list_bitmap (Ok None) (Ok (Some out)) 1 2 () = Ok f
     \<and> fetcher_push list_bitmap (\<lambda>d. of_nat (length d)) \<lparr>treq_node_id = [], treq_info_hash = ''ab'', treq_addr = []\<rparr> f
         = Ok (Some (f\<lparr>f_unchecked := [\<lparr>treq_node_id = [], treq_info_hash = ''ab'', treq_addr = []\<rparr>]\<rparr>))"
proof -
  have "hex_encode (treq_info_hash \<lparr>treq_node_id = [], treq_info_hash = ''ab'', treq_addr = []\<rparr>) \<in> set [''zz'', ''6162'']"
    by code_simp
  from built_filter_spares_stored [OF list_bitmap_laws this, of "\<lambda>d. of_nat (length d)" 1 2 "()"]
  show ?thesis by auto
qed

end
